(* ===== verification/Prelude.thy ===== *)
theory Prelude
  imports Main "HOL-Library.Word" "HOL-Library.Multiset" "HOL-Library.Char_ord"
    "HOL-Library.List_Lexorder" "HOL-Library.Product_Lexorder"
begin

text \<open>
  Shared vocabulary of the development: the machine integers and byte strings of the Rust
  sources, the three-way outcome of a fallible Rust function, fixed-width integer codecs
  (the byte orders of \<open>Buf\<close>/\<open>BufMut\<close>), insertion-ordered hash maps, and the generic lemmas the
  component theories rely on. The interface \<open>int_codec\<close> states what the wire and segment formats
  need of an integer codec; it is interpreted here for every codec the sources use.
\<close>

unbundle bit_operations_syntax

named_theorems outcome_simps \<open>unfolding of the sequencing of fallible steps\<close>
named_theorems codec_simps \<open>decoding what was just encoded\<close>
named_theorems map_simps \<open>lookup after insert and remove\<close>

section \<open>Types\<close>

type_synonym u8 = "8 word"
type_synonym u16 = "16 word"
type_synonym u32 = "32 word"
type_synonym u64 = "64 word"
type_synonym bytes = "u8 list"
type_synonym node_id = u64

text \<open>
  A Rust function that returns \<open>Result\<close> and may also panic (an out-of-range read, an overflow
  check, a failed \<open>expect\<close>) returns a value of this type.
\<close>

datatype ('e, 'a) outcome = Ok 'a | Err 'e | Panic

fun obind :: "('e, 'a) outcome \<Rightarrow> ('a \<Rightarrow> ('e, 'b) outcome) \<Rightarrow> ('e, 'b) outcome" where
  "obind (Ok a) f = f a"
| "obind (Err e) f = Err e"
| "obind Panic f = Panic"

fun map_err :: "('e \<Rightarrow> 'f) \<Rightarrow> ('e, 'a) outcome \<Rightarrow> ('f, 'a) outcome" where
  "map_err g (Ok a) = Ok a"
| "map_err g (Err e) = Err (g e)"
| "map_err g Panic = Panic"

fun no_panic :: "('e, 'a) outcome \<Rightarrow> bool" where
  "no_panic Panic = False"
| "no_panic _ = True"

text \<open>A read that runs off the end of the buffer panics.\<close>

definition or_panic :: "'a option \<Rightarrow> ('e, 'a) outcome" where
  "or_panic x = (case x of None \<Rightarrow> Panic | Some a \<Rightarrow> Ok a)"

definition ok_or :: "'a option \<Rightarrow> 'e \<Rightarrow> ('e, 'a) outcome" where
  "ok_or x e = (case x of None \<Rightarrow> Err e | Some a \<Rightarrow> Ok a)"

section \<open>Byte orders\<close>

text \<open>\<open>be_enc n w\<close> are the low \<open>n\<close> bytes of \<open>w\<close>, most significant first.\<close>

fun be_enc :: "nat \<Rightarrow> 'a::len word \<Rightarrow> bytes" where
  "be_enc 0 w = []"
| "be_enc (Suc n) w = ucast (drop_bit (8 * n) w) # be_enc n w"

fun be_acc :: "'a::len word \<Rightarrow> bytes \<Rightarrow> 'a word" where
  "be_acc acc [] = acc"
| "be_acc acc (b # bs) = be_acc (push_bit 8 acc OR ucast b) bs"

definition be_dec :: "bytes \<Rightarrow> 'a::len word" where
  "be_dec bs = be_acc 0 bs"

definition le_enc :: "nat \<Rightarrow> 'a::len word \<Rightarrow> bytes" where
  "le_enc n w = rev (be_enc n w)"

definition le_dec :: "bytes \<Rightarrow> 'a::len word" where
  "le_dec bs = be_dec (rev bs)"

text \<open>\<open>BufMut::put_u16\<close> and its kin append; \<open>Buf::get_u16\<close> and its kin consume, and panic when
  the buffer is too short.\<close>

definition put_u8 :: "u8 \<Rightarrow> bytes" where "put_u8 w = be_enc 1 w"
definition put_u16 :: "u16 \<Rightarrow> bytes" where "put_u16 w = be_enc 2 w"
definition put_u32 :: "u32 \<Rightarrow> bytes" where "put_u32 w = be_enc 4 w"
definition put_u64 :: "u64 \<Rightarrow> bytes" where "put_u64 w = be_enc 8 w"
definition put_u32_le :: "u32 \<Rightarrow> bytes" where "put_u32_le w = le_enc 4 w"
definition put_u64_le :: "u64 \<Rightarrow> bytes" where "put_u64_le w = le_enc 8 w"

definition get_with :: "nat \<Rightarrow> (bytes \<Rightarrow> 'a) \<Rightarrow> bytes \<Rightarrow> ('a \<times> bytes) option" where
  "get_with n dec bs = (if length bs < n then None else Some (dec (take n bs), drop n bs))"

definition get_u8 :: "bytes \<Rightarrow> (u8 \<times> bytes) option" where "get_u8 = get_with 1 be_dec"
definition get_u16 :: "bytes \<Rightarrow> (u16 \<times> bytes) option" where "get_u16 = get_with 2 be_dec"
definition get_u32 :: "bytes \<Rightarrow> (u32 \<times> bytes) option" where "get_u32 = get_with 4 be_dec"
definition get_u64 :: "bytes \<Rightarrow> (u64 \<times> bytes) option" where "get_u64 = get_with 8 be_dec"
definition get_u32_le :: "bytes \<Rightarrow> (u32 \<times> bytes) option" where "get_u32_le = get_with 4 le_dec"
definition get_u64_le :: "bytes \<Rightarrow> (u64 \<times> bytes) option" where "get_u64_le = get_with 8 le_dec"

section \<open>Hash maps\<close>

text \<open>
  A \<open>HashMap\<close> (and a \<open>DashMap\<close> or a \<open>BTreeMap\<close> seen through its entries) is the list of its
  entries in iteration order. Rust leaves that order unspecified for hash maps: a fact proved for
  every list with distinct keys is a fact for every iteration order.
\<close>

type_synonym ('k, 'v) hmap = "('k \<times> 'v) list"

definition hm_get :: "('k, 'v) hmap \<Rightarrow> 'k \<Rightarrow> 'v option" where
  "hm_get m k = map_of m k"

fun hm_insert :: "'k \<Rightarrow> 'v \<Rightarrow> ('k, 'v) hmap \<Rightarrow> ('k, 'v) hmap" where
  "hm_insert k v [] = [(k, v)]"
| "hm_insert k v ((k', v') # m) = (if k' = k then (k, v) # m else (k', v') # hm_insert k v m)"

definition hm_remove :: "'k \<Rightarrow> ('k, 'v) hmap \<Rightarrow> ('k, 'v) hmap" where
  "hm_remove k m = filter (\<lambda>(k', _). k' \<noteq> k) m"

definition hm_contains :: "('k, 'v) hmap \<Rightarrow> 'k \<Rightarrow> bool" where
  "hm_contains m k = (hm_get m k \<noteq> None)"

definition hm_keys :: "('k, 'v) hmap \<Rightarrow> 'k list" where
  "hm_keys m = map fst m"

definition hm_wf :: "('k, 'v) hmap \<Rightarrow> bool" where
  "hm_wf m = distinct (hm_keys m)"

definition hm_retain :: "('k \<Rightarrow> 'v \<Rightarrow> bool) \<Rightarrow> ('k, 'v) hmap \<Rightarrow> ('k, 'v) hmap" where
  "hm_retain p m = filter (\<lambda>(k, v). p k v) m"

text \<open>A \<open>BTreeMap\<close> keeps its entries in key order.\<close>

fun bt_insert :: "'k::linorder \<Rightarrow> 'v \<Rightarrow> ('k, 'v) hmap \<Rightarrow> ('k, 'v) hmap" where
  "bt_insert k v [] = [(k, v)]"
| "bt_insert k v ((k', v') # m) =
     (if k < k' then (k, v) # (k', v') # m
      else if k = k' then (k, v) # m
      else (k', v') # bt_insert k v m)"

definition bt_wf :: "('k::linorder, 'v) hmap \<Rightarrow> bool" where
  "bt_wf m = sorted_wrt (<) (hm_keys m)"

text \<open>\<open>get(k).copied().unwrap_or(d)\<close>\<close>

definition get_or :: "'v \<Rightarrow> 'v option \<Rightarrow> 'v" where
  "get_or d x = (case x of None \<Rightarrow> d | Some v \<Rightarrow> v)"

section \<open>Saturating arithmetic and binary heaps\<close>

definition sat_add :: "'a::len word \<Rightarrow> 'a word \<Rightarrow> 'a word" where
  "sat_add a b = (if unat a + unat b < 2 ^ LENGTH('a) then a + b else - 1)"

definition sat_sub :: "'a::len word \<Rightarrow> 'a word \<Rightarrow> 'a word" where
  "sat_sub a b = (if b \<le> a then a - b else 0)"

text \<open>
  \<open>BinaryHeap<Reverse<T>>\<close>: the elements it holds; \<open>pop\<close> takes out the least one. Rust compares
  tuples lexicographically.
\<close>

fun heap_pop :: "'a::linorder list \<Rightarrow> ('a \<times> 'a list) option" where
  "heap_pop [] = None"
| "heap_pop (x # xs) = (let m = fold min xs x in Some (m, remove1 m (x # xs)))"

section \<open>Lemmas on outcomes\<close>

lemmas [outcome_simps] = obind.simps map_err.simps or_panic_def ok_or_def

lemma obind_eq_Ok: "obind x f = Ok b \<longleftrightarrow> (\<exists>a. x = Ok a \<and> f a = Ok b)"
  by (cases x) auto

lemma obind_assoc: "obind (obind x f) g = obind x (\<lambda>a. obind (f a) g)"
  by (cases x) auto

lemma no_panic_obind: "no_panic x \<Longrightarrow> (\<And>a. x = Ok a \<Longrightarrow> no_panic (f a)) \<Longrightarrow> no_panic (obind x f)"
  by (cases x) auto

lemma no_panic_ok_or [simp]: "no_panic (ok_or x e)"
  by (simp add: ok_or_def split: option.split)

lemma no_panic_or_panic [simp]: "no_panic (or_panic x) \<longleftrightarrow> x \<noteq> None"
  by (simp add: or_panic_def split: option.split)

lemma or_panic_eq_Ok [simp]: "or_panic x = Ok a \<longleftrightarrow> x = Some a"
  by (simp add: or_panic_def split: option.split)

lemma ok_or_eq_Ok [simp]: "ok_or x e = Ok a \<longleftrightarrow> x = Some a"
  by (simp add: ok_or_def split: option.split)

lemma map_err_eq_Ok [simp]: "map_err g x = Ok a \<longleftrightarrow> x = Ok a"
  by (cases x) auto

lemma no_panic_map_err [simp]: "no_panic (map_err g x) \<longleftrightarrow> no_panic x"
  by (cases x) auto

lemma get_or_simps [simp]: "get_or d None = d" "get_or d (Some v) = v"
  by (simp_all add: get_or_def)

section \<open>Lemmas on byte orders\<close>

lemma length_be_enc [simp]: "length (be_enc n w) = n"
  by (induction n) auto

lemma length_le_enc [simp]: "length (le_enc n w) = n"
  by (simp add: le_enc_def)

lemma be_acc_be_enc:
  fixes w acc :: "'a::len word"
  shows "be_acc acc (be_enc n w) = push_bit (8 * n) acc OR take_bit (8 * n) w"
proof (induction n arbitrary: acc)
  case 0
  then show ?case by simp
next
  case (Suc n)
  have "push_bit (8 * n) (push_bit 8 acc OR ucast (ucast (drop_bit (8 * n) w) :: u8))
      OR take_bit (8 * n) w = push_bit (8 * Suc n) acc OR take_bit (8 * Suc n) w"
  proof (rule bit_word_eqI)
    fix m assume "m < LENGTH('a)"
    then show "bit (push_bit (8 * n) (push_bit 8 acc OR ucast (ucast (drop_bit (8 * n) w) :: u8))
        OR take_bit (8 * n) w) m = bit (push_bit (8 * Suc n) acc OR take_bit (8 * Suc n) w) m"
      by (auto simp: bit_simps not_le not_less ac_simps)
  qed
  then show ?case by (simp add: Suc.IH)
qed

lemma be_dec_be_enc:
  fixes w :: "'a::len word"
  assumes "LENGTH('a) \<le> 8 * n"
  shows "be_dec (be_enc n w) = w"
  using assms by (simp add: be_dec_def be_acc_be_enc take_bit_word_eq_self)

lemma le_dec_le_enc:
  fixes w :: "'a::len word"
  assumes "LENGTH('a) \<le> 8 * n"
  shows "le_dec (le_enc n w) = w"
  using assms by (simp add: le_dec_def le_enc_def be_dec_be_enc)

lemma bit_be_acc:
  fixes acc :: "'a::len word"
  shows "8 * length bs + m < LENGTH('a) \<Longrightarrow> bit (be_acc acc bs) (8 * length bs + m) = bit acc m"
proof (induction bs arbitrary: acc m)
  case Nil
  then show ?case by simp
next
  case (Cons b bs)
  have "bit (be_acc (push_bit 8 acc OR ucast b) bs) (8 * length bs + (8 + m)) =
      bit (push_bit 8 acc OR ucast b :: 'a word) (8 + m)"
    by (rule Cons.IH) (use Cons.prems in simp)
  moreover have "bit (push_bit 8 acc OR ucast b :: 'a word) (8 + m) = bit acc m"
    using Cons.prems by (auto simp: bit_simps dest: bit_imp_le_length)
  ultimately show ?case by (simp add: ac_simps)
qed

lemma be_enc_be_acc:
  fixes acc :: "'a::len word"
  assumes "8 * length bs \<le> LENGTH('a)"
  shows "be_enc (length bs) (be_acc acc bs) = bs"
  using assms
proof (induction bs arbitrary: acc)
  case Nil
  then show ?case by simp
next
  case (Cons b bs)
  let ?a = "push_bit 8 acc OR ucast b :: 'a word"
  have "(ucast (drop_bit (8 * length bs) (be_acc ?a bs)) :: u8) = b"
  proof (rule bit_word_eqI)
    fix m assume "m < LENGTH(8)"
    with Cons.prems show "bit (ucast (drop_bit (8 * length bs) (be_acc ?a bs)) :: u8) m = bit b m"
      by (auto simp: bit_simps bit_be_acc)
  qed
  moreover have "be_enc (length bs) (be_acc ?a bs) = bs"
    by (rule Cons.IH) (use Cons.prems in simp)
  ultimately show ?case by simp
qed

lemma be_enc_be_dec:
  "length bs = n \<Longrightarrow> 8 * n \<le> LENGTH('a) \<Longrightarrow> be_enc n (be_dec bs :: 'a::len word) = bs"
  by (auto simp: be_dec_def be_enc_be_acc)

lemma le_enc_le_dec:
  "length bs = n \<Longrightarrow> 8 * n \<le> LENGTH('a) \<Longrightarrow> le_enc n (le_dec bs :: 'a::len word) = bs"
  by (simp add: le_dec_def le_enc_def be_enc_be_dec)

lemma unat_word_of_nat_id:
  "n < 2 ^ LENGTH('a) \<Longrightarrow> unat (word_of_nat n :: 'a::len word) = n"
  by (simp add: unat_of_nat)

lemma word_of_nat_unat_id: "word_of_nat (unat w) = w"
  by simp

lemma take4_nth: "4 \<le> length xs \<Longrightarrow> [xs ! 0, xs ! 1, xs ! 2, xs ! 3] = take 4 xs"
  by (auto intro!: nth_equalityI simp: nth_Cons' less_Suc_eq numeral_eq_Suc)

section \<open>Lemmas on saturating arithmetic and heaps\<close>

lemma unat_sat_add: "unat (sat_add a b) = min (unat a + unat b) (2 ^ LENGTH('a) - 1)"
  for a b :: "'a::len word"
proof (cases "unat a + unat b < 2 ^ LENGTH('a)")
  case True
  then have "unat (a + b) = unat a + unat b" by (simp add: unat_word_ariths)
  with True show ?thesis by (simp add: sat_add_def)
next
  case False
  have "unat (- 1 :: 'a word) = 2 ^ LENGTH('a) - 1" by (simp add: unsigned_minus_1_eq_mask mask_eq_exp_minus_1)
  with False show ?thesis by (simp only: sat_add_def if_False)
qed

lemma unat_sat_sub: "unat (sat_sub a b) = unat a - unat b"
  by (auto simp: sat_sub_def unat_sub word_le_nat_alt)

lemma fold_min_mem: "fold min xs x \<in> set (x # xs)" for x :: "'a::linorder"
proof (induction xs arbitrary: x)
  case (Cons y ys)
  from Cons.IH[of "min y x"] show ?case by (auto simp: min_def split: if_splits)
qed simp

lemma fold_min_le: "y \<in> set (x # xs) \<Longrightarrow> fold min xs x \<le> y" for x :: "'a::linorder"
proof (induction xs arbitrary: x y)
  case (Cons z zs)
  have "fold min zs (min z x) \<le> min z x" by (rule Cons.IH) simp
  moreover have "min z x \<le> z" "min z x \<le> x" by simp_all
  ultimately show ?case
    using Cons.IH[of y "min z x"] Cons.prems by (auto dest: order_trans)
qed simp

lemma heap_pop_Some:
  assumes "heap_pop h = Some (m, h')"
  shows "m \<in> set h" and "\<forall>y\<in>set h. m \<le> y" and "mset h = add_mset m (mset h')"
proof -
  obtain x xs where h: "h = x # xs" "m = fold min xs x" "h' = remove1 m (x # xs)"
    using assms by (cases h) (auto simp: Let_def)
  show m: "m \<in> set h" using fold_min_mem[of xs x] by (simp add: h(1,2))
  show "\<forall>y\<in>set h. m \<le> y" using fold_min_le[of _ x xs] by (auto simp: h(1,2))
  show "mset h = add_mset m (mset h')"
    using m by (simp only: h(3) h(1)[symmetric]) (simp add: insert_DiffM)
qed

lemma heap_pop_None [simp]: "heap_pop h = None \<longleftrightarrow> h = []"
  by (cases h) (auto simp: Let_def)

section \<open>The integer codec interface\<close>

text \<open>
  What the frame format and the segment format need of an integer codec: a fixed width, reading
  back what was written and leaving the rest of the buffer, failing exactly on short input, and
  that the bytes read are the bytes that would be written.
\<close>

locale int_codec =
  fixes put :: "'a \<Rightarrow> bytes"
    and get :: "bytes \<Rightarrow> ('a \<times> bytes) option"
    and width :: nat
  assumes put_width: "length (put a) = width"
    and get_put: "get (put a @ rest) = Some (a, rest)"
    and get_None: "get bs = None \<longleftrightarrow> length bs < width"
    and put_get: "get bs = Some (a, rest) \<Longrightarrow> bs = put a @ rest"
begin

lemma get_Some_length: "get bs = Some (a, rest) \<Longrightarrow> length bs = width + length rest"
  using put_get put_width by fastforce

lemma put_append_inject: "put a @ xs = put b @ ys \<longleftrightarrow> a = b \<and> xs = ys"
  using get_put by (metis option.inject prod.inject)

lemma get_cases:
  assumes "width \<le> length bs"
  obtains a where "get bs = Some (a, drop width bs)" and "bs = put a @ drop width bs"
proof -
  obtain a rest where g: "get bs = Some (a, rest)"
    using assms get_None by (cases "get bs") auto
  then have "bs = put a @ rest" by (rule put_get)
  then have "rest = drop width bs" using put_width[of a] by simp
  with g put_get show thesis using that by blast
qed

end

lemma int_codec_be:
  assumes "LENGTH('a::len) = 8 * n"
  shows "int_codec (be_enc n :: 'a word \<Rightarrow> bytes) (get_with n be_dec) n"
  by unfold_locales
    (use assms in \<open>auto simp: get_with_def be_dec_be_enc be_enc_be_dec split: if_splits\<close>)

lemma int_codec_le:
  assumes "LENGTH('a::len) = 8 * n"
  shows "int_codec (le_enc n :: 'a word \<Rightarrow> bytes) (get_with n le_dec) n"
  by unfold_locales
    (use assms in \<open>auto simp: get_with_def le_dec_le_enc le_enc_le_dec split: if_splits\<close>)

interpretation u8_be: int_codec put_u8 get_u8 1
  unfolding put_u8_def[abs_def] get_u8_def by (rule int_codec_be) simp

interpretation u16_be: int_codec put_u16 get_u16 2
  unfolding put_u16_def[abs_def] get_u16_def by (rule int_codec_be) simp

interpretation u32_be: int_codec put_u32 get_u32 4
  unfolding put_u32_def[abs_def] get_u32_def by (rule int_codec_be) simp

interpretation u64_be: int_codec put_u64 get_u64 8
  unfolding put_u64_def[abs_def] get_u64_def by (rule int_codec_be) simp

interpretation u32_le: int_codec put_u32_le get_u32_le 4
  unfolding put_u32_le_def[abs_def] get_u32_le_def by (rule int_codec_le) simp

interpretation u64_le: int_codec put_u64_le get_u64_le 8
  unfolding put_u64_le_def[abs_def] get_u64_le_def by (rule int_codec_le) simp

lemmas put_widths [simp] =
  u8_be.put_width u16_be.put_width u32_be.put_width u64_be.put_width
  u32_le.put_width u64_le.put_width

lemmas get_puts [simp, codec_simps] =
  u8_be.get_put u16_be.get_put u32_be.get_put u64_be.get_put u32_le.get_put u64_le.get_put

lemmas get_put_Nils [simp, codec_simps] =
  u8_be.get_put[where rest = "[]", simplified] u16_be.get_put[where rest = "[]", simplified]
  u32_be.get_put[where rest = "[]", simplified] u64_be.get_put[where rest = "[]", simplified]

lemmas put_gets =
  u8_be.put_get u16_be.put_get u32_be.put_get u64_be.put_get u32_le.put_get u64_le.put_get

lemmas get_Nones =
  u8_be.get_None u16_be.get_None u32_be.get_None u64_be.get_None u32_le.get_None u64_le.get_None

lemmas get_lengths =
  u8_be.get_Some_length u16_be.get_Some_length u32_be.get_Some_length u64_be.get_Some_length
  u32_le.get_Some_length u64_le.get_Some_length

section \<open>Lemmas on hash maps\<close>

lemma hm_get_insert [simp, map_simps]:
  "hm_get (hm_insert k v m) k' = (if k' = k then Some v else hm_get m k')"
  by (induction k v m rule: hm_insert.induct) (auto simp: hm_get_def)

lemma hm_get_Nil [simp]: "hm_get [] k = None"
  by (simp add: hm_get_def)

lemma hm_get_Cons: "hm_get ((k', v) # m) k = (if k = k' then Some v else hm_get m k)"
  by (simp add: hm_get_def)

lemma map_of_filter_key: "map_of (filter (\<lambda>(k, _). p k) m) k = (if p k then map_of m k else None)"
  by (induction m) auto

lemma hm_get_remove [simp, map_simps]:
  "hm_get (hm_remove k m) k' = (if k' = k then None else hm_get m k')"
  by (auto simp: hm_get_def hm_remove_def map_of_filter_key)

lemma set_hm_keys_insert [simp]: "set (hm_keys (hm_insert k v m)) = insert k (set (hm_keys m))"
  by (induction k v m rule: hm_insert.induct) (auto simp: hm_keys_def)

lemma hm_get_None_iff: "hm_get m k = None \<longleftrightarrow> k \<notin> set (hm_keys m)"
  by (auto simp: hm_get_def hm_keys_def map_of_eq_None_iff)

lemma hm_get_Some_mem: "hm_get m k = Some v \<Longrightarrow> (k, v) \<in> set m"
  by (auto simp: hm_get_def dest: map_of_SomeD)

lemma hm_get_mem: "hm_wf m \<Longrightarrow> (k, v) \<in> set m \<Longrightarrow> hm_get m k = Some v"
  by (auto simp: hm_get_def hm_wf_def hm_keys_def)

lemma hm_wf_Nil [simp]: "hm_wf []"
  by (simp add: hm_wf_def hm_keys_def)

lemma hm_wf_insert [simp]: "hm_wf m \<Longrightarrow> hm_wf (hm_insert k v m)"
proof (induction k v m rule: hm_insert.induct)
  case (2 k v k' v' m)
  then show ?case
    using set_hm_keys_insert[of k v m] by (auto simp: hm_wf_def hm_keys_def)
qed (simp add: hm_wf_def hm_keys_def)

lemma hm_wf_remove [simp]: "hm_wf m \<Longrightarrow> hm_wf (hm_remove k m)"
  by (auto simp: hm_wf_def hm_keys_def hm_remove_def distinct_map_filter)

lemma hm_wf_retain [simp]: "hm_wf m \<Longrightarrow> hm_wf (hm_retain p m)"
  by (auto simp: hm_wf_def hm_keys_def hm_retain_def distinct_map_filter)

lemma hm_get_retain [map_simps]:
  assumes "hm_wf m"
  shows "hm_get (hm_retain p m) k =
    (case hm_get m k of None \<Rightarrow> None | Some v \<Rightarrow> if p k v then Some v else None)"
  using assms
  by (induction m) (auto simp: hm_get_def hm_retain_def hm_wf_def hm_keys_def map_of_eq_None_iff
      split: option.splits dest: map_of_SomeD)

lemma hm_get_fold_remove: "hm_get (fold hm_remove ks m) k = (if k \<in> set ks then None else hm_get m k)"
  by (induction ks arbitrary: m) auto

lemma hm_wf_fold_remove: "hm_wf m \<Longrightarrow> hm_wf (fold hm_remove ks m)"
  by (induction ks arbitrary: m) auto

lemma length_hm_insert:
  "length (hm_insert k v m) = (if hm_contains m k then length m else Suc (length m))"
  by (induction k v m rule: hm_insert.induct) (auto simp: hm_contains_def hm_get_def)

lemma hm_keys_simps [simp]: "hm_keys [] = []" "hm_keys ((k, v) # m) = k # hm_keys m"
  by (simp_all add: hm_keys_def)

lemma set_bt_keys_insert [simp]: "set (hm_keys (bt_insert k v m)) = insert k (set (hm_keys m))"
  by (induction k v m rule: bt_insert.induct) (auto simp: hm_keys_def)

lemma bt_wf_Nil [simp]: "bt_wf []"
  by (simp add: bt_wf_def hm_keys_def)

lemma bt_wf_Cons: "bt_wf ((k, v) # m) \<longleftrightarrow> (\<forall>k' \<in> set (hm_keys m). k < k') \<and> bt_wf m"
  by (simp add: bt_wf_def hm_keys_def)

lemma bt_wf_insert [simp]: "bt_wf m \<Longrightarrow> bt_wf (bt_insert k v m)"
  by (induction k v m rule: bt_insert.induct) (auto simp: bt_wf_Cons)

lemma bt_wf_imp_hm_wf: "bt_wf m \<Longrightarrow> hm_wf m"
  unfolding bt_wf_def hm_wf_def by (simp add: strict_sorted_iff)

lemma bt_get_insert [simp, map_simps]:
  "bt_wf m \<Longrightarrow> hm_get (bt_insert k v m) k' = (if k' = k then Some v else hm_get m k')"
  by (induction k v m rule: bt_insert.induct) (auto simp: bt_wf_Cons hm_get_def)

text \<open>Two ordered maps with the same lookups are the same list: the map is canonical.\<close>

lemma bt_ext:
  assumes "bt_wf m" and "bt_wf n" and "\<And>k. hm_get m k = hm_get n k"
  shows "m = n"
proof (rule map_sorted_distinct_set_unique)
  have "map_of m = map_of n" using assms(3) by (auto simp: hm_get_def fun_eq_iff)
  then show "set m = set n"
    using assms(1,2) by (metis bt_wf_imp_hm_wf hm_keys_def hm_wf_def map_of_inject_set)
  show "inj_on fst (set m \<union> set n)"
    using assms(1) \<open>set m = set n\<close>
    by (metis Un_absorb bt_wf_imp_hm_wf distinct_map hm_keys_def hm_wf_def)
  show "sorted (map fst m)" "distinct (map fst m)" "sorted (map fst n)" "distinct (map fst n)"
    using assms(1,2) by (auto simp: bt_wf_def hm_keys_def strict_sorted_iff)
qed

lemma bt_insert_commute:
  assumes "bt_wf m" and "k \<noteq> k'"
  shows "bt_insert k v (bt_insert k' v' m) = bt_insert k' v' (bt_insert k v m)"
  using assms by (intro bt_ext) auto

end
