(* ===== verification/Wire_Header.thy ===== *)
theory Wire_Header
  imports Prelude
begin

text \<open>
  The 48-byte fast header of the wire protocol: \<open>mesh-wire/src/header.rs\<close> and the error type of
  \<open>mesh-wire/src/error.rs\<close>. Frame types, flags, status codes and the packed route are modelled at
  their machine widths. The lemmas show that route packing loses nothing, that encoding and
  decoding are inverse on the headers the decoder accepts, that the decoder never panics, and what
  each of its error returns means.
\<close>

section \<open>Errors (error.rs)\<close>

datatype wire_error =
    Incomplete | Version u8 | Ttl | Size nat | Crypto | Meta | HdrCsum | Reserved
  | UnknownType u8 | Code u8 | Malformed

section \<open>Frame types, flags and status codes\<close>

definition WIRE_VERSION :: u8 where "WIRE_VERSION = 1"
definition FAST_HEADER_SIZE :: nat where "FAST_HEADER_SIZE = 48"

datatype frame_type =
    Data | MeshAck | ClientAck | Credit | Ping | Pong | Hello | Resume | Drain | Bye
   | TopologyUpdate | TopologyRequest | GossipSummary | GossipDelta | GossipPullReq
   | GossipPullResp | MembershipAlive | MembershipSuspect | MembershipConfirmed
   | MembershipJoin | MembershipLeave | ProbePing | ProbeAck | ProbePingReq
   | BroadcastMsg | BroadcastPrune | StateSummaryBloom | GossipNack | ConsPrevoteReq
   | ConsPrevoteResp | ConsVoteReq | ConsVoteResp | ConsAppendEntries | ConsAppendResp
   | ConsInstallSnapshot | ConsSnapshotAck | ConsTimeoutNow | ConsReadIndexReq
   | ConsReadIndexResp | ConsConfigChange | ConsClientPropose | ConsClientResult
   | ConsNack | ConsExtension

text \<open>The discriminant, \<open>typ as u8\<close>.\<close>

primrec frame_type_code :: "frame_type \<Rightarrow> u8" where
  "frame_type_code Data = 0x00"
| "frame_type_code MeshAck = 0x01"
| "frame_type_code ClientAck = 0x02"
| "frame_type_code Credit = 0x03"
| "frame_type_code Ping = 0x04"
| "frame_type_code Pong = 0x05"
| "frame_type_code Hello = 0x06"
| "frame_type_code Resume = 0x07"
| "frame_type_code Drain = 0x08"
| "frame_type_code Bye = 0x09"
| "frame_type_code TopologyUpdate = 0x0A"
| "frame_type_code TopologyRequest = 0x0B"
| "frame_type_code GossipSummary = 0x20"
| "frame_type_code GossipDelta = 0x21"
| "frame_type_code GossipPullReq = 0x22"
| "frame_type_code GossipPullResp = 0x23"
| "frame_type_code MembershipAlive = 0x24"
| "frame_type_code MembershipSuspect = 0x25"
| "frame_type_code MembershipConfirmed = 0x26"
| "frame_type_code MembershipJoin = 0x27"
| "frame_type_code MembershipLeave = 0x28"
| "frame_type_code ProbePing = 0x29"
| "frame_type_code ProbeAck = 0x2A"
| "frame_type_code ProbePingReq = 0x2B"
| "frame_type_code BroadcastMsg = 0x2C"
| "frame_type_code BroadcastPrune = 0x2D"
| "frame_type_code StateSummaryBloom = 0x2E"
| "frame_type_code GossipNack = 0x2F"
| "frame_type_code ConsPrevoteReq = 0x30"
| "frame_type_code ConsPrevoteResp = 0x31"
| "frame_type_code ConsVoteReq = 0x32"
| "frame_type_code ConsVoteResp = 0x33"
| "frame_type_code ConsAppendEntries = 0x34"
| "frame_type_code ConsAppendResp = 0x35"
| "frame_type_code ConsInstallSnapshot = 0x36"
| "frame_type_code ConsSnapshotAck = 0x37"
| "frame_type_code ConsTimeoutNow = 0x38"
| "frame_type_code ConsReadIndexReq = 0x39"
| "frame_type_code ConsReadIndexResp = 0x3A"
| "frame_type_code ConsConfigChange = 0x3B"
| "frame_type_code ConsClientPropose = 0x3C"
| "frame_type_code ConsClientResult = 0x3D"
| "frame_type_code ConsNack = 0x3E"
| "frame_type_code ConsExtension = 0x3F"

text \<open>The arms of \<open>TryFrom<u8> for FrameType\<close>, in order.\<close>

definition frame_type_table :: "(u8 \<times> frame_type) list" where
  "frame_type_table =
    [(0x00, Data), (0x01, MeshAck), (0x02, ClientAck),
     (0x03, Credit), (0x04, Ping), (0x05, Pong),
     (0x06, Hello), (0x07, Resume), (0x08, Drain),
     (0x09, Bye), (0x0A, TopologyUpdate), (0x0B, TopologyRequest),
     (0x20, GossipSummary), (0x21, GossipDelta), (0x22, GossipPullReq),
     (0x23, GossipPullResp), (0x24, MembershipAlive), (0x25, MembershipSuspect),
     (0x26, MembershipConfirmed), (0x27, MembershipJoin), (0x28, MembershipLeave),
     (0x29, ProbePing), (0x2A, ProbeAck), (0x2B, ProbePingReq),
     (0x2C, BroadcastMsg), (0x2D, BroadcastPrune), (0x2E, StateSummaryBloom),
     (0x2F, GossipNack), (0x30, ConsPrevoteReq), (0x31, ConsPrevoteResp),
     (0x32, ConsVoteReq), (0x33, ConsVoteResp), (0x34, ConsAppendEntries),
     (0x35, ConsAppendResp), (0x36, ConsInstallSnapshot), (0x37, ConsSnapshotAck),
     (0x38, ConsTimeoutNow), (0x39, ConsReadIndexReq), (0x3A, ConsReadIndexResp),
     (0x3B, ConsConfigChange), (0x3C, ConsClientPropose), (0x3D, ConsClientResult),
     (0x3E, ConsNack), (0x3F, ConsExtension)]"

definition frame_type_try_from :: "u8 \<Rightarrow> (wire_error, frame_type) outcome" where
  "frame_type_try_from value =
     (case map_of frame_type_table value of Some t \<Rightarrow> Ok t | None \<Rightarrow> Err (UnknownType value))"

text \<open>
  \<open>Flags\<close> is the \<open>bitflags!\<close> struct over \<open>u16\<close>; \<open>from_bits\<close> rejects bits that no flag names.
\<close>

type_synonym flags = u16

definition CHUNKED :: flags where "CHUNKED = push_bit 0 1"
definition CHUNK_END :: flags where "CHUNK_END = push_bit 1 1"
definition E2E_ENC :: flags where "E2E_ENC = push_bit 2 1"
definition COMPRESSED :: flags where "COMPRESSED = push_bit 3 1"
definition ROUTE_LOCK :: flags where "ROUTE_LOCK = push_bit 4 1"
definition HDR_CHECKSUM :: flags where "HDR_CHECKSUM = push_bit 5 1"

definition flags_all :: flags where
  "flags_all = CHUNKED OR CHUNK_END OR E2E_ENC OR COMPRESSED OR ROUTE_LOCK OR HDR_CHECKSUM"

definition flags_from_bits :: "u16 \<Rightarrow> flags option" where
  "flags_from_bits b = (if b AND NOT flags_all = 0 then Some b else None)"

definition flags_contains :: "flags \<Rightarrow> flags \<Rightarrow> bool" where
  "flags_contains fl other = (fl AND other = other)"

datatype status_code = StatusOk | Retryable | Fatal | Busy | Unsupported

primrec status_code_code :: "status_code \<Rightarrow> u8" where
  "status_code_code StatusOk = 0"
| "status_code_code Retryable = 1"
| "status_code_code Fatal = 2"
| "status_code_code Busy = 3"
| "status_code_code Unsupported = 4"

definition status_code_try_from :: "u8 \<Rightarrow> (wire_error, status_code) outcome" where
  "status_code_try_from value =
     (if value = 0 then Ok StatusOk
      else if value = 1 then Ok Retryable
      else if value = 2 then Ok Fatal
      else if value = 3 then Ok Busy
      else if value = 4 then Ok Unsupported
      else Err (Code value))"

section \<open>Routes\<close>

record route =
  prio :: u8
  class_of_service :: u8
  partition :: u16
  epoch :: u16

definition route_new :: "u8 \<Rightarrow> u8 \<Rightarrow> u16 \<Rightarrow> u16 \<Rightarrow> route" where
  "route_new p c pt e =
     \<lparr>prio = p AND 0x07, class_of_service = c AND 0x1F, partition = pt AND 0x3FF,
      epoch = e AND 0x3FFF\<rparr>"

definition route_pack :: "route \<Rightarrow> u32" where
  "route_pack r =
     push_bit 29 (ucast (prio r)) OR push_bit 24 (ucast (class_of_service r))
     OR push_bit 14 (ucast (partition r)) OR ucast (epoch r)"

definition route_unpack :: "u32 \<Rightarrow> route" where
  "route_unpack value =
     \<lparr>prio = ucast (drop_bit 29 value AND 0x07),
      class_of_service = ucast (drop_bit 24 value AND 0x1F),
      partition = ucast (drop_bit 14 value AND 0x3FF),
      epoch = ucast (value AND 0x3FFF)\<rparr>"

section \<open>The fast header\<close>

record fast_header =
  fh_ver :: u8
  fh_typ :: frame_type
  fh_flags :: flags
  fh_code :: status_code
  fh_ttl :: u8
  fh_reserved0 :: u16
  fh_msg_id :: u64
  fh_corr_id :: u64
  fh_src_node :: node_id
  fh_dst_node :: node_id
  fh_route_bits :: u32
  fh_hdr_hint_len :: u32

definition fast_header_new :: "frame_type \<Rightarrow> node_id \<Rightarrow> node_id \<Rightarrow> u64 \<Rightarrow> fast_header" where
  "fast_header_new t src dst mid =
     \<lparr>fh_ver = WIRE_VERSION, fh_typ = t, fh_flags = 0, fh_code = StatusOk, fh_ttl = 16,
      fh_reserved0 = 0, fh_msg_id = mid, fh_corr_id = 0, fh_src_node = src, fh_dst_node = dst, fh_route_bits = 0,
      fh_hdr_hint_len = 0\<rparr>"

definition route_components :: "fast_header \<Rightarrow> route" where
  "route_components h = route_unpack (fh_route_bits h)"

definition set_route :: "fast_header \<Rightarrow> route \<Rightarrow> fast_header" where
  "set_route h r = h\<lparr>fh_route_bits := route_pack r\<rparr>"

definition fast_header_encode :: "fast_header \<Rightarrow> bytes" where
  "fast_header_encode h =
     put_u8 (fh_ver h) @ put_u8 (frame_type_code (fh_typ h)) @ put_u16 (fh_flags h)
     @ put_u8 (status_code_code (fh_code h)) @ put_u8 (fh_ttl h) @ put_u16 (fh_reserved0 h)
     @ put_u64 (fh_msg_id h) @ put_u64 (fh_corr_id h) @ put_u64 (fh_src_node h)
     @ put_u64 (fh_dst_node h)
     @ put_u32 (fh_route_bits h) @ put_u32 (fh_hdr_hint_len h)"

text \<open>\<open>FastHeader::decode\<close> also hands back the rest of the buffer.\<close>

definition fast_header_decode :: "bytes \<Rightarrow> (wire_error, fast_header \<times> bytes) outcome" where
  "fast_header_decode buf =
     (if length buf < FAST_HEADER_SIZE then Err Incomplete else
      obind (or_panic (get_u8 buf)) (\<lambda>(ver, buf).
      if ver \<noteq> WIRE_VERSION then Err (Version ver) else
      obind (or_panic (get_u8 buf)) (\<lambda>(t, buf).
      obind (frame_type_try_from t) (\<lambda>typ.
      obind (or_panic (get_u16 buf)) (\<lambda>(b, buf).
      obind (ok_or (flags_from_bits b) Reserved) (\<lambda>flags.
      obind (or_panic (get_u8 buf)) (\<lambda>(c, buf).
      obind (status_code_try_from c) (\<lambda>code.
      obind (or_panic (get_u8 buf)) (\<lambda>(ttl, buf).
      obind (or_panic (get_u16 buf)) (\<lambda>(reserved0, buf).
      if reserved0 \<noteq> 0 then Err Reserved else
      if ttl = 0 then Err Ttl else
      obind (or_panic (get_u64 buf)) (\<lambda>(msg_id, buf).
      obind (or_panic (get_u64 buf)) (\<lambda>(corr_id, buf).
      obind (or_panic (get_u64 buf)) (\<lambda>(src_node, buf).
      obind (or_panic (get_u64 buf)) (\<lambda>(dst_node, buf).
      obind (or_panic (get_u32 buf)) (\<lambda>(route, buf).
      obind (or_panic (get_u32 buf)) (\<lambda>(hdr_hint_len, buf).
      Ok (\<lparr>fh_ver = ver, fh_typ = typ, fh_flags = flags, fh_code = code, fh_ttl = ttl,
           fh_reserved0 = reserved0, fh_msg_id = msg_id, fh_corr_id = corr_id, fh_src_node = src_node, fh_dst_node = dst_node,
           fh_route_bits = route, fh_hdr_hint_len = hdr_hint_len\<rparr>, buf)))))))))))))))))"

definition fast_header_validate :: "fast_header \<Rightarrow> (wire_error, unit) outcome" where
  "fast_header_validate h =
     (if fh_ver h \<noteq> WIRE_VERSION then Err (Version (fh_ver h))
      else if fh_reserved0 h \<noteq> 0 then Err Reserved
      else if fh_ttl h = 0 then Err Ttl
      else Ok ())"

text \<open>\<open>decrement_ttl\<close> takes \<open>&mut self\<close>: the header is changed on the second error return too.\<close>

definition header_decrement_ttl :: "fast_header \<Rightarrow> (wire_error, unit) outcome \<times> fast_header" where
  "header_decrement_ttl h =
     (if fh_ttl h = 0 then (Err Ttl, h)
      else let h' = h\<lparr>fh_ttl := fh_ttl h - 1\<rparr>
           in if fh_ttl h' = 0 then (Err Ttl, h') else (Ok (), h'))"

text \<open>
  \<open>crc32c_fast_header\<close>: the hasher of the \<open>crc32fast\<close> package is the parameter \<open>crc\<close>, the checksum
  of everything it was fed.
\<close>

definition crc32c_fast_header :: "(bytes \<Rightarrow> u32) \<Rightarrow> fast_header \<Rightarrow> bytes option \<Rightarrow> u32" where
  "crc32c_fast_header crc fast hint =
     crc (fast_header_encode fast @ (case hint of None \<Rightarrow> [] | Some hint_bytes \<Rightarrow> hint_bytes))"

section \<open>What the decoder accepts\<close>

text \<open>The headers \<open>FastHeader::decode\<close> can return.\<close>

definition header_wf :: "fast_header \<Rightarrow> bool" where
  "header_wf h \<longleftrightarrow>
     fh_ver h = WIRE_VERSION \<and> flags_from_bits (fh_flags h) = Some (fh_flags h)
     \<and> fh_reserved0 h = 0 \<and> fh_ttl h \<noteq> 0"

section \<open>Lemmas on the enumerations\<close>

lemma distinct_frame_type_table: "distinct (map fst frame_type_table)"
  by (simp add: frame_type_table_def)

lemma frame_type_table_code: "map_of frame_type_table (frame_type_code t) = Some t"
  by (cases t) (simp_all add: frame_type_table_def)

lemma frame_type_table_inv: "(v, t) \<in> set frame_type_table \<Longrightarrow> v = frame_type_code t"
  by (auto simp: frame_type_table_def)

lemma frame_type_try_from_code [simp, codec_simps]:
  "frame_type_try_from (frame_type_code t) = Ok t"
  by (simp add: frame_type_try_from_def frame_type_table_code)

lemma frame_type_try_from_Ok: "frame_type_try_from v = Ok t \<longleftrightarrow> v = frame_type_code t"
proof
  assume "frame_type_try_from v = Ok t"
  then have "(v, t) \<in> set frame_type_table"
    by (auto simp: frame_type_try_from_def split: option.splits dest: map_of_SomeD)
  then show "v = frame_type_code t" by (rule frame_type_table_inv)
qed simp

lemma frame_type_no_panic [simp]: "no_panic (frame_type_try_from v)"
  by (simp add: frame_type_try_from_def split: option.split)

lemma status_code_try_from_code [simp, codec_simps]:
  "status_code_try_from (status_code_code c) = Ok c"
  by (cases c) (simp_all add: status_code_try_from_def)

lemma status_code_try_from_Ok: "status_code_try_from v = Ok c \<longleftrightarrow> v = status_code_code c"
  by (cases c) (auto simp: status_code_try_from_def)

lemma status_code_no_panic [simp]: "no_panic (status_code_try_from v)"
  by (simp add: status_code_try_from_def)

lemma flags_from_bits_Some: "flags_from_bits b = Some f \<longleftrightarrow> b = f \<and> b AND NOT flags_all = 0"
  by (auto simp: flags_from_bits_def)

lemmas flag_defs =
  CHUNKED_def CHUNK_END_def E2E_ENC_def COMPRESSED_def ROUTE_LOCK_def HDR_CHECKSUM_def

section \<open>Lemmas on routes\<close>

lemma route_masks:
  "x AND 0x07 = take_bit 3 x" "x AND 0x1F = take_bit 5 x" "x AND 0x3FF = take_bit 10 x"
  "x AND 0x3FFF = take_bit 14 x"
  for x :: "'a::len word"
  by (simp_all add: take_bit_eq_mask mask_eq_exp_minus_1)

lemma route_pack_unpack: "route_pack (route_unpack v) = v"
proof (rule bit_word_eqI)
  fix m assume "m < LENGTH(32)"
  then show "bit (route_pack (route_unpack v)) m = bit v m"
    unfolding route_pack_def route_unpack_def route_masks
    by (cases "29 \<le> m"; cases "24 \<le> m") (auto simp: bit_simps not_le)
qed

lemma route_unpack_pack_new: "route_unpack (route_pack (route_new p c pt e)) = route_new p c pt e"
proof -
  let ?w = "route_pack (route_new p c pt e)"
  have "(ucast (take_bit 3 (drop_bit 29 ?w)) :: u8) = take_bit 3 p"
    by (rule bit_word_eqI) (auto simp: route_pack_def route_new_def route_masks bit_simps)
  moreover have "(ucast (take_bit 5 (drop_bit 24 ?w)) :: u8) = take_bit 5 c"
    by (rule bit_word_eqI) (auto simp: route_pack_def route_new_def route_masks bit_simps)
  moreover have "(ucast (take_bit 10 (drop_bit 14 ?w)) :: u16) = take_bit 10 pt"
    by (rule bit_word_eqI) (auto simp: route_pack_def route_new_def route_masks bit_simps)
  moreover have "(ucast (take_bit 14 ?w) :: u16) = take_bit 14 e"
    by (rule bit_word_eqI) (auto simp: route_pack_def route_new_def route_masks bit_simps)
  ultimately show ?thesis
    by (simp add: route_unpack_def route_masks) (simp add: route_new_def route_masks)
qed

section \<open>Lemmas on the fast header\<close>

lemma length_fast_header_encode [simp]: "length (fast_header_encode h) = FAST_HEADER_SIZE"
  by (simp add: fast_header_encode_def FAST_HEADER_SIZE_def)

lemma fast_header_decode_encode [codec_simps]:
  "header_wf h \<Longrightarrow> fast_header_decode (fast_header_encode h @ rest) = Ok (h, rest)"
  by (simp add: fast_header_decode_def header_wf_def)
    (simp add: fast_header_encode_def outcome_simps)

lemma fast_header_decode_Ok:
  "fast_header_decode bs = Ok (h, rest) \<Longrightarrow> header_wf h \<and> bs = fast_header_encode h @ rest"
  by (auto simp: fast_header_decode_def obind_eq_Ok header_wf_def fast_header_encode_def
      frame_type_try_from_Ok
      status_code_try_from_Ok flags_from_bits_Some split: if_splits dest!: put_gets)


lemma fast_header_decode_no_panic: "no_panic (fast_header_decode bs)"
  unfolding fast_header_decode_def FAST_HEADER_SIZE_def
  by (auto intro!: no_panic_obind simp: get_Nones dest!: get_lengths split: if_splits)

lemma fast_header_decode_encode_any:
  "fast_header_decode (fast_header_encode h @ rest) =
     (if fh_ver h \<noteq> WIRE_VERSION then Err (Version (fh_ver h))
      else if flags_from_bits (fh_flags h) = None then Err Reserved
      else if fh_reserved0 h \<noteq> 0 then Err Reserved
      else if fh_ttl h = 0 then Err Ttl
      else Ok (h, rest))"
  by (cases h) (simp add: fast_header_decode_def FAST_HEADER_SIZE_def fast_header_encode_def
      outcome_simps flags_from_bits_def)

end
