(* ===== verification/Wire_Frame.thy ===== *)
theory Wire_Frame
  imports Wire_Header
begin

text \<open>
  Frames: \<open>mesh-wire/src/frame.rs\<close>. A frame is encoded as a length prefix, the fast header, an
  optional hint, the metadata with its own length prefix and the payload; \<open>frame_decode\<close> is one call
  of \<open>FrameDecoder::decode\<close> on a stream buffer. The lemmas show that decoding a stream that starts
  with an encoded frame returns that frame and leaves the rest, that an incomplete frame leaves the
  buffer alone, and that the decoder never panics.
\<close>

section \<open>Limits and enumerations\<close>

definition DEFAULT_MAX_FRAME_SIZE :: nat where "DEFAULT_MAX_FRAME_SIZE = 16 * 1024 * 1024"
definition HARD_MAX_FRAME_SIZE :: nat where "HARD_MAX_FRAME_SIZE = 64 * 1024 * 1024"
definition MAX_META_SIZE :: nat where "MAX_META_SIZE = 64 * 1024"
definition MAX_HINT_SIZE :: nat where "MAX_HINT_SIZE = 128"

datatype enc_alg = EncNone | Chacha20Poly1305 | Aes128Gcm | Aes256Gcm

datatype key_mode = EphemeralWrapped | ChannelKeyId

section \<open>Frames\<close>

record frame =
  fast :: fast_header
  hint :: "bytes option"
  meta_raw :: bytes
  payload_or_cipher :: bytes

definition frame_new :: "fast_header \<Rightarrow> bytes \<Rightarrow> bytes \<Rightarrow> frame" where
  "frame_new fh meta payload =
     \<lparr>fast = fh, hint = None, meta_raw = meta, payload_or_cipher = payload\<rparr>"

definition with_hint :: "frame \<Rightarrow> bytes \<Rightarrow> frame" where
  "with_hint f h = f\<lparr>hint := Some h\<rparr>"

text \<open>The bytes of the optional hint.\<close>

definition hint_bytes :: "bytes option \<Rightarrow> bytes" where
  "hint_bytes h = (case h of None \<Rightarrow> [] | Some bs \<Rightarrow> bs)"

definition encoded_size :: "frame \<Rightarrow> nat" where
  "encoded_size f =
     (let size = 4 + FAST_HEADER_SIZE;
          size = (case hint f of Some h \<Rightarrow> size + length h | None \<Rightarrow> size)
      in size + 4 + length (meta_raw f) + length (payload_or_cipher f))"

definition frame_encode :: "frame \<Rightarrow> nat \<Rightarrow> (wire_error, bytes) outcome" where
  "frame_encode f max_frame_size =
     (let total_size = encoded_size f
      in if total_size > max_frame_size then Err (Size total_size)
         else let frame_len = total_size - 4
              in Ok (put_u32 (word_of_nat frame_len)
                   @ fast_header_encode (fast f)
                   @ (case hint f of Some h \<Rightarrow> h | None \<Rightarrow> [])
                   @ put_u32 (word_of_nat (length (meta_raw f)))
                   @ meta_raw f
                   @ payload_or_cipher f))"

section \<open>The stream decoder\<close>

text \<open>The part of \<open>FrameDecoder::decode\<close> that works on the bytes of one frame (\<open>frame_buf\<close>).\<close>

definition frame_body_decode :: "bytes \<Rightarrow> (wire_error, frame) outcome" where
  "frame_body_decode frame_buf =
     obind (fast_header_decode frame_buf) (\<lambda>(fh, frame_buf).
     let hlen = unat (fh_hdr_hint_len fh) in
     obind (if fh_hdr_hint_len fh > 0
            then (if length frame_buf < hlen then Err Malformed
                  else Ok (Some (take hlen frame_buf), drop hlen frame_buf))
            else Ok (None, frame_buf)) (\<lambda>(h, frame_buf).
     if length frame_buf < 4 then Err Malformed else
     obind (or_panic (get_u32 frame_buf)) (\<lambda>(ml, frame_buf).
     let meta_len = unat ml in
     if meta_len > MAX_META_SIZE \<or> length frame_buf < meta_len then Err Meta
     else Ok \<lparr>fast = fh, hint = h, meta_raw = take meta_len frame_buf,
             payload_or_cipher = drop meta_len frame_buf\<rparr>)))"

text \<open>
  One call of \<open>decode\<close> on the stream buffer: the result and the buffer it leaves behind. The
  length check comes before the wait for a complete frame; a complete frame is removed from the
  buffer before its body is examined.
\<close>

definition frame_decode :: "nat \<Rightarrow> bytes \<Rightarrow> (wire_error, frame option) outcome \<times> bytes" where
  "frame_decode max_frame_size buf =
     (if length buf < 4 then (Ok None, buf)
      else let frame_len = unat (be_dec [buf ! 0, buf ! 1, buf ! 2, buf ! 3] :: u32)
           in if frame_len > max_frame_size then (Err (Size frame_len), buf)
              else if length buf < 4 + frame_len then (Ok None, buf)
              else let buf = drop 4 buf
                   in (obind (frame_body_decode (take frame_len buf)) (\<lambda>f. Ok (Some f)),
                       drop frame_len buf))"

text \<open>A \<open>FrameDecoder\<close> made by \<open>new\<close> uses the default limit.\<close>

definition decoder_new :: nat where "decoder_new = DEFAULT_MAX_FRAME_SIZE"

section \<open>Well-formed frames\<close>

text \<open>
  The frames the decoder can return: the header is acceptable, its hint length describes the hint,
  and the metadata is within its limit.
\<close>

definition frame_wf :: "frame \<Rightarrow> bool" where
  "frame_wf f \<longleftrightarrow>
     header_wf (fast f)
     \<and> (case hint f of
          None \<Rightarrow> fh_hdr_hint_len (fast f) = 0
        | Some h \<Rightarrow> h \<noteq> [] \<and> unat (fh_hdr_hint_len (fast f)) = length h)
     \<and> length (meta_raw f) \<le> MAX_META_SIZE"

section \<open>Lemmas\<close>

lemma encoded_size_eq:
  "encoded_size f =
     56 + length (hint_bytes (hint f)) + length (meta_raw f) + length (payload_or_cipher f)"
  by (simp add: encoded_size_def FAST_HEADER_SIZE_def hint_bytes_def split: option.split)

lemma frame_encode_Ok:
  "frame_encode f m = Ok bs \<longleftrightarrow>
     encoded_size f \<le> m \<and>
     bs = put_u32 (word_of_nat (encoded_size f - 4)) @ fast_header_encode (fast f)
        @ hint_bytes (hint f) @ put_u32 (word_of_nat (length (meta_raw f))) @ meta_raw f
        @ payload_or_cipher f"
  by (auto simp: frame_encode_def Let_def hint_bytes_def not_less)

lemma length_frame_encode: "frame_encode f m = Ok bs \<Longrightarrow> length bs = encoded_size f"
  by (auto simp: frame_encode_Ok encoded_size_eq FAST_HEADER_SIZE_def)

lemma frame_body_decode_encode:
  assumes "frame_wf f"
  shows "frame_body_decode (fast_header_encode (fast f) @ hint_bytes (hint f)
      @ put_u32 (word_of_nat (length (meta_raw f))) @ meta_raw f @ payload_or_cipher f) = Ok f"
proof -
  have ml: "unat (word_of_nat (length (meta_raw f)) :: u32) = length (meta_raw f)"
    using assms by (intro unat_word_of_nat_id) (simp add: frame_wf_def MAX_META_SIZE_def)
  show ?thesis
    using assms ml
    by (cases f)
      (auto simp: frame_body_decode_def frame_wf_def fast_header_decode_encode hint_bytes_def
        outcome_simps word_greater_zero_iff Let_def split: option.splits)
qed

lemma be_dec_take4_put: "be_dec (take 4 (put_u32 w @ r)) = w"
  by (simp add: put_u32_def be_dec_be_enc)

lemma frame_decode_prefix:
  assumes "length body \<le> m" and "length body < 2 ^ 32"
  shows "frame_decode m (put_u32 (word_of_nat (length body)) @ body @ rest) =
    (obind (frame_body_decode body) (\<lambda>f. Ok (Some f)), rest)"
proof -
  let ?buf = "put_u32 (word_of_nat (length body)) @ body @ rest"
  have "[?buf ! 0, ?buf ! 1, ?buf ! 2, ?buf ! 3] = take 4 ?buf"
    by (rule take4_nth) simp
  moreover have "unat (be_dec (take 4 ?buf) :: u32) = length body"
    unfolding be_dec_take4_put by (rule unat_word_of_nat_id) (use assms in simp)
  ultimately show ?thesis
    using assms(1) by (simp add: frame_decode_def)
qed

lemma frame_decode_encode:
  assumes "frame_wf f" and "frame_encode f m = Ok bs"
    and "encoded_size f - 4 \<le> m'" and "encoded_size f < 2 ^ 32"
  shows "frame_decode m' (bs @ rest) = (Ok (Some f), rest)"
proof -
  let ?body = "fast_header_encode (fast f) @ hint_bytes (hint f)
      @ put_u32 (word_of_nat (length (meta_raw f))) @ meta_raw f @ payload_or_cipher f"
  have n: "length ?body = encoded_size f - 4"
    by (simp add: encoded_size_eq FAST_HEADER_SIZE_def)
  then have "bs @ rest = put_u32 (word_of_nat (length ?body)) @ ?body @ rest"
    using assms(2) by (simp add: frame_encode_Ok)
  moreover have "frame_decode m' (put_u32 (word_of_nat (length ?body)) @ ?body @ rest) =
      (obind (frame_body_decode ?body) (\<lambda>f. Ok (Some f)), rest)"
    by (rule frame_decode_prefix) (use n assms(3,4) in simp_all)
  ultimately show ?thesis
    by (simp only: frame_body_decode_encode[OF assms(1)] obind.simps)
qed

lemma frame_body_decode_Ok:
  assumes "frame_body_decode bs = Ok f"
  shows "frame_wf f \<and> bs = fast_header_encode (fast f) @ hint_bytes (hint f)
      @ put_u32 (word_of_nat (length (meta_raw f))) @ meta_raw f @ payload_or_cipher f"
proof -
  obtain fh buf where hd: "fast_header_decode bs = Ok (fh, buf)"
    using assms by (auto simp: frame_body_decode_def obind_eq_Ok)
  from fast_header_decode_Ok[OF hd] have wf: "header_wf fh" and bs: "bs = fast_header_encode fh @ buf"
    by auto
  let ?hl = "unat (fh_hdr_hint_len fh)"
  obtain h buf2 where h: "buf = hint_bytes h @ buf2"
      "case h of None \<Rightarrow> fh_hdr_hint_len fh = 0 | Some x \<Rightarrow> x \<noteq> [] \<and> ?hl = length x"
    and rest: "(if length buf2 < 4 then Err Malformed else
       obind (or_panic (get_u32 buf2)) (\<lambda>(ml, frame_buf).
       let meta_len = unat ml in
       if meta_len > MAX_META_SIZE \<or> length frame_buf < meta_len then Err Meta
       else Ok \<lparr>fast = fh, hint = h, meta_raw = take meta_len frame_buf,
             payload_or_cipher = drop meta_len frame_buf\<rparr>)) = Ok f"
  proof (cases "fh_hdr_hint_len fh > 0")
    case True
    then have "?hl \<noteq> 0" by (simp add: word_greater_zero_iff unat_eq_zero)
    with True assms hd that[of "Some (take ?hl buf)" "drop ?hl buf"] show ?thesis
      by (cases "buf = []") (auto simp: frame_body_decode_def hint_bytes_def Let_def split: if_splits)
  next
    case False
    with assms hd that[of None buf] show ?thesis
      by (auto simp: frame_body_decode_def hint_bytes_def word_greater_zero_iff Let_def)
  qed
  from rest obtain ml buf3 where g: "get_u32 buf2 = Some (ml, buf3)"
    and l: "unat ml \<le> MAX_META_SIZE" "unat ml \<le> length buf3"
    and f: "f = \<lparr>fast = fh, hint = h, meta_raw = take (unat ml) buf3,
             payload_or_cipher = drop (unat ml) buf3\<rparr>"
    by (auto simp: obind_eq_Ok Let_def not_less split: if_splits)
  show ?thesis
    using wf bs h l u32_be.put_get[OF g] by (simp add: frame_wf_def f split: option.splits)
qed

lemma frame_body_decode_no_panic: "no_panic (frame_body_decode bs)"
  unfolding frame_body_decode_def
  by (auto intro!: no_panic_obind simp: fast_header_decode_no_panic get_Nones Let_def
      split: if_splits)

lemma frame_decode_no_panic: "no_panic (fst (frame_decode m buf))"
  by (auto simp: frame_decode_def Let_def intro!: no_panic_obind frame_body_decode_no_panic)

lemma frame_decode_Some:
  assumes "frame_decode m buf = (Ok (Some f), rest)"
  shows "frame_wf f \<and> encoded_size f \<le> m + 4 \<and>
    (\<exists>bs. frame_encode f (m + 4) = Ok bs \<and> buf = bs @ rest)"
proof -
  define w where "w = (be_dec [buf ! 0, buf ! 1, buf ! 2, buf ! 3] :: u32)"
  have len: "4 \<le> length buf" "unat w \<le> m" "4 + unat w \<le> length buf"
    and body: "frame_body_decode (take (unat w) (drop 4 buf)) = Ok f"
    and rest: "rest = drop (unat w) (drop 4 buf)"
    using assms by (auto simp: frame_decode_def w_def Let_def obind_eq_Ok split: if_splits)
  define body where "body = take (unat w) (drop 4 buf)"
  have n: "length body = unat w" using len by (simp add: body_def)
  from frame_body_decode_Ok[OF body] have wf: "frame_wf f"
    and eq: "body = fast_header_encode (fast f) @ hint_bytes (hint f)
      @ put_u32 (word_of_nat (length (meta_raw f))) @ meta_raw f @ payload_or_cipher f"
    by (auto simp: body_def)
  from n have size: "encoded_size f = unat w + 4"
    by (simp add: eq encoded_size_eq FAST_HEADER_SIZE_def)
  have "take 4 buf = put_u32 w"
    unfolding w_def take4_nth[OF len(1)] put_u32_def
    by (rule be_enc_be_dec[symmetric]) (use len(1) in simp_all)
  moreover have "buf = take 4 buf @ body @ rest" by (simp only: body_def rest append_take_drop_id)
  ultimately have "buf = (put_u32 w @ body) @ rest" by simp
  moreover have "frame_encode f (m + 4) = Ok (put_u32 w @ body)"
    using len(2) size by (simp add: frame_encode_Ok eq)
  ultimately show ?thesis using wf size len(2) by auto
qed

lemma frame_decode_wait: "frame_decode m buf = (Ok None, rest) \<Longrightarrow> rest = buf"
  by (auto simp: frame_decode_def Let_def obind_eq_Ok split: if_splits)

end
