(* ===== verification/Wire_Codec.thy ===== *)
theory Wire_Codec
  imports Wire_Frame
begin

text \<open>
  The frame builder and the metadata helpers: \<open>mesh-wire/src/codec.rs\<close>. CBOR itself (the
  \<open>ciborium\<close> package) is a pair of parameters, \<open>enc\<close> and \<open>dec\<close>; the checksum is the parameter
  \<open>crc\<close>. The lemmas show that the metadata is canonical (it does not depend on the order of the
  insertions), that a frame that was built decodes to the header, the metadata and the payload it
  was built from, and where the builder accepts what the decoder refuses.
\<close>

section \<open>Values, errors, parameters\<close>

text \<open>The values of the CBOR packages.\<close>

datatype cbor_value =
    CInteger int | CBytes bytes | CFloat u64 | CText string | CBool bool | CNull
  | CTag u64 cbor_value | CArray "cbor_value list" | CMap "(cbor_value \<times> cbor_value) list"

text \<open>\<open>str::as_bytes\<close>\<close>

definition str_bytes :: "string \<Rightarrow> bytes" where
  "str_bytes s = map of_char s"

record crypto_params =
  cp_enc_alg :: enc_alg
  cp_key_mode :: key_mode
  cp_key_ref :: bytes
  cp_nonce :: bytes
  cp_tag_len :: u8
  cp_aad_binds_header :: bool

datatype codec_error = Wire wire_error | MetaEncode | MetaDecode | CryptoError

section \<open>The metadata builder\<close>

type_synonym meta_builder = "(string, cbor_value) hmap"

definition meta_builder_new :: meta_builder where
  "meta_builder_new = []"

definition insert_str :: "string \<Rightarrow> string \<Rightarrow> meta_builder \<Rightarrow> meta_builder" where
  "insert_str key value m = bt_insert key (CText value) m"

definition insert_u32 :: "string \<Rightarrow> u32 \<Rightarrow> meta_builder \<Rightarrow> meta_builder" where
  "insert_u32 key value m = bt_insert key (CInteger (uint value)) m"

definition insert_bytes :: "string \<Rightarrow> bytes \<Rightarrow> meta_builder \<Rightarrow> meta_builder" where
  "insert_bytes key value m = bt_insert key (CBytes value) m"

text \<open>The CBOR map that is written, in key order.\<close>

definition meta_value :: "meta_builder \<Rightarrow> cbor_value" where
  "meta_value m = CMap (map (\<lambda>(k, v). (CText k, v)) m)"

definition meta_build ::
  "(cbor_value \<Rightarrow> bytes option) \<Rightarrow> meta_builder \<Rightarrow> (codec_error, bytes) outcome" where
  "meta_build enc m = ok_or (enc (meta_value m)) MetaEncode"

section \<open>The frame builder\<close>

record frame_builder =
  fb_fast :: fast_header
  fb_hint_tlv :: "bytes option"
  fb_crypto :: "crypto_params option"
  fb_meta :: meta_builder
  fb_payload :: bytes

definition frame_builder_new :: "fast_header \<Rightarrow> frame_builder" where
  "frame_builder_new fh =
     \<lparr>fb_fast = fh, fb_hint_tlv = None, fb_crypto = None, fb_meta = meta_builder_new,
      fb_payload = []\<rparr>"

definition with_hint_tlv :: "bytes \<Rightarrow> frame_builder \<Rightarrow> frame_builder" where
  "with_hint_tlv tlv b =
     b\<lparr>fb_fast := (fb_fast b)\<lparr>fh_hdr_hint_len := word_of_nat (length tlv)\<rparr>,
       fb_hint_tlv := Some tlv\<rparr>"

definition with_crypto :: "crypto_params \<Rightarrow> frame_builder \<Rightarrow> frame_builder" where
  "with_crypto c b =
     b\<lparr>fb_fast := (fb_fast b)\<lparr>fh_flags := fh_flags (fb_fast b) OR E2E_ENC\<rparr>,
       fb_crypto := Some c\<rparr>"

definition meta_insert_str :: "string \<Rightarrow> string \<Rightarrow> frame_builder \<Rightarrow> frame_builder" where
  "meta_insert_str key value b = b\<lparr>fb_meta := insert_str key value (fb_meta b)\<rparr>"

definition meta_insert_u32 :: "string \<Rightarrow> u32 \<Rightarrow> frame_builder \<Rightarrow> frame_builder" where
  "meta_insert_u32 key value b = b\<lparr>fb_meta := insert_u32 key value (fb_meta b)\<rparr>"

definition meta_insert_bytes :: "string \<Rightarrow> bytes \<Rightarrow> frame_builder \<Rightarrow> frame_builder" where
  "meta_insert_bytes key value b = b\<lparr>fb_meta := insert_bytes key value (fb_meta b)\<rparr>"

definition set_payload :: "bytes \<Rightarrow> frame_builder \<Rightarrow> frame_builder" where
  "set_payload p b = b\<lparr>fb_payload := p\<rparr>"

text \<open>The code returns the payload as it is.\<close>

definition seal_payload_static ::
  "crypto_params \<Rightarrow> bytes \<Rightarrow> bytes \<Rightarrow> (codec_error, bytes) outcome" where
  "seal_payload_static params meta payload = Ok payload"

definition frame_builder_build ::
  "(bytes \<Rightarrow> u32) \<Rightarrow> (cbor_value \<Rightarrow> bytes option) \<Rightarrow> frame_builder \<Rightarrow> nat
    \<Rightarrow> (codec_error, bytes) outcome" where
  "frame_builder_build crc enc b max_frame =
     (let meta = (if flags_contains (fh_flags (fb_fast b)) HDR_CHECKSUM
                  then insert_u32 ''hdr_csum''
                         (crc32c_fast_header crc (fb_fast b) (fb_hint_tlv b)) (fb_meta b)
                  else fb_meta b) in
      obind (meta_build enc meta) (\<lambda>meta_raw.
      obind (case fb_crypto b of
               Some crypto_params \<Rightarrow> seal_payload_static crypto_params meta_raw (fb_payload b)
             | None \<Rightarrow> Ok (fb_payload b)) (\<lambda>payload_or_cipher.
      let frame = frame_new (fb_fast b) meta_raw payload_or_cipher;
          frame = (case fb_hint_tlv b of Some h \<Rightarrow> with_hint frame h | None \<Rightarrow> frame)
      in map_err Wire (frame_encode frame max_frame))))"

text \<open>\<open>seal_aead\<close> and \<open>open_aead\<close> copy their input.\<close>

definition seal_aead ::
  "enc_alg \<Rightarrow> bytes \<Rightarrow> bytes \<Rightarrow> bytes \<Rightarrow> bytes \<Rightarrow> u8 \<Rightarrow> (codec_error, bytes) outcome" where
  "seal_aead alg key nonce aad plaintext tag_len = Ok plaintext"

definition open_aead ::
  "enc_alg \<Rightarrow> bytes \<Rightarrow> bytes \<Rightarrow> bytes \<Rightarrow> bytes \<Rightarrow> u8 \<Rightarrow> (codec_error, bytes) outcome" where
  "open_aead alg key nonce aad cipher_and_tag tag_len = Ok cipher_and_tag"

section \<open>Reading metadata\<close>

fun collect_text_keys :: "(cbor_value \<times> cbor_value) list \<Rightarrow> meta_builder \<Rightarrow> meta_builder" where
  "collect_text_keys [] result = result"
| "collect_text_keys ((key, value) # entries) result =
     collect_text_keys entries (case key of CText key_str \<Rightarrow> bt_insert key_str value result
                                      | _ \<Rightarrow> result)"

definition parse_meta ::
  "(bytes \<Rightarrow> cbor_value option) \<Rightarrow> bytes \<Rightarrow> (codec_error, (string, cbor_value) hmap) outcome" where
  "parse_meta dec raw =
     obind (ok_or (dec raw) MetaDecode) (\<lambda>value.
       case value of CMap entries \<Rightarrow> Ok (collect_text_keys entries []) | _ \<Rightarrow> Err MetaDecode)"

definition get_meta_str :: "(string, cbor_value) hmap \<Rightarrow> string \<Rightarrow> string option" where
  "get_meta_str m key =
     (case hm_get m key of Some (CText s) \<Rightarrow> Some s | _ \<Rightarrow> None)"

text \<open>\<open>try_into().ok()\<close> on the integer: in range of \<open>u32\<close> or nothing.\<close>

definition get_meta_u32 :: "(string, cbor_value) hmap \<Rightarrow> string \<Rightarrow> u32 option" where
  "get_meta_u32 m key =
     (case hm_get m key of
        Some (CInteger i) \<Rightarrow> if 0 \<le> i \<and> i < 2 ^ 32 then Some (word_of_int i) else None
      | _ \<Rightarrow> None)"

section \<open>Well-formed builders\<close>

text \<open>What the builder methods keep, for a header the decoder accepts.\<close>

definition builder_wf :: "frame_builder \<Rightarrow> bool" where
  "builder_wf b \<longleftrightarrow>
     header_wf (fb_fast b) \<and> bt_wf (fb_meta b)
     \<and> (case fb_hint_tlv b of
          None \<Rightarrow> fh_hdr_hint_len (fb_fast b) = 0
        | Some h \<Rightarrow> h \<noteq> [] \<and> unat (fh_hdr_hint_len (fb_fast b)) = length h)"

text \<open>The metadata a builder writes: with the checksum when the flag asks for it.\<close>

definition built_meta :: "(bytes \<Rightarrow> u32) \<Rightarrow> frame_builder \<Rightarrow> meta_builder" where
  "built_meta crc b =
     (if flags_contains (fh_flags (fb_fast b)) HDR_CHECKSUM
      then insert_u32 ''hdr_csum'' (crc32c_fast_header crc (fb_fast b) (fb_hint_tlv b)) (fb_meta b)
      else fb_meta b)"

section \<open>Lemmas\<close>

lemmas meta_insert_defs = insert_str_def insert_u32_def insert_bytes_def

lemma meta_insert_wf [simp]:
  "bt_wf m \<Longrightarrow> bt_wf (insert_str k s m)"
  "bt_wf m \<Longrightarrow> bt_wf (insert_u32 k w m)"
  "bt_wf m \<Longrightarrow> bt_wf (insert_bytes k bs m)"
  by (simp_all add: meta_insert_defs)

lemma flags_or_wf:
  "flags_from_bits f \<noteq> None \<Longrightarrow> flags_from_bits g \<noteq> None \<Longrightarrow> flags_from_bits (f OR g) = Some (f OR g)"
  by (auto simp: flags_from_bits_def bit.conj_disj_distrib2 split: if_splits)

lemma flag_wf [simp]: "flags_from_bits E2E_ENC = Some E2E_ENC"
  "flags_from_bits CHUNKED = Some CHUNKED" "flags_from_bits CHUNK_END = Some CHUNK_END"
  "flags_from_bits 0 = Some 0"
  by (simp_all add: flags_from_bits_def flags_all_def flag_defs)

lemma builder_wf_new:
  "header_wf fh \<Longrightarrow> fh_hdr_hint_len fh = 0 \<Longrightarrow> builder_wf (frame_builder_new fh)"
  by (simp add: builder_wf_def frame_builder_new_def meta_builder_new_def)

lemma builder_wf_steps:
  assumes "builder_wf b"
  shows "builder_wf (meta_insert_str k s b)" "builder_wf (meta_insert_u32 k w b)"
    "builder_wf (meta_insert_bytes k bs b)" "builder_wf (set_payload p b)"
    "builder_wf (with_crypto c b)"
  using assms
  by (auto simp: builder_wf_def meta_insert_str_def meta_insert_u32_def meta_insert_bytes_def
      set_payload_def with_crypto_def header_wf_def intro!: flags_or_wf split: option.splits)

lemma builder_wf_hint:
  "builder_wf b \<Longrightarrow> tlv \<noteq> [] \<Longrightarrow> length tlv < 2 ^ 32 \<Longrightarrow> builder_wf (with_hint_tlv tlv b)"
  by (auto simp: builder_wf_def with_hint_tlv_def header_wf_def unat_word_of_nat_id)

lemma frame_builder_build_Ok:
  "frame_builder_build crc enc b m = Ok bs \<longleftrightarrow>
     (\<exists>meta. enc (meta_value (built_meta crc b)) = Some meta \<and>
        frame_encode \<lparr>fast = fb_fast b, hint = fb_hint_tlv b, meta_raw = meta,
          payload_or_cipher = fb_payload b\<rparr> m = Ok bs)"
  by (cases "fb_hint_tlv b"; cases "fb_crypto b")
    (auto simp: frame_builder_build_def built_meta_def meta_build_def obind_eq_Ok Let_def
      seal_payload_static_def frame_new_def with_hint_def)

lemma collect_text_keys_wf: "bt_wf r \<Longrightarrow> bt_wf (collect_text_keys xs r)"
  by (induction xs r rule: collect_text_keys.induct) (auto split: cbor_value.splits)

lemma collect_text_keys_get:
  assumes "bt_wf r" and "distinct (map fst m)"
  shows "hm_get (collect_text_keys (map (\<lambda>(k, v). (CText k, v)) m) r) k =
    (case hm_get m k of Some v \<Rightarrow> Some v | None \<Rightarrow> hm_get r k)"
  using assms
proof (induction m arbitrary: r)
  case (Cons kv m)
  obtain k' v' where [simp]: "kv = (k', v')" by (cases kv)
  from Cons.prems have "hm_get m k' = None" by (simp add: hm_get_None_iff hm_keys_def)
  then show ?case
    using Cons by (auto simp: hm_get_Cons split: option.splits)
qed simp

lemma parse_meta_built:
  assumes "bt_wf m" and "dec raw = Some (meta_value m)"
  shows "parse_meta dec raw = Ok m"
proof -
  have "hm_get (collect_text_keys (map (\<lambda>(k, v). (CText k, v)) m) []) k = hm_get m k" for k
    using assms(1) collect_text_keys_get[of "[]" m k]
    by (auto simp: bt_wf_imp_hm_wf hm_wf_def[symmetric] hm_keys_def[symmetric] split: option.splits)
  then have "collect_text_keys (map (\<lambda>(k, v). (CText k, v)) m) [] = m"
    using assms(1) by (intro bt_ext collect_text_keys_wf) auto
  then show ?thesis by (simp add: parse_meta_def assms(2) meta_value_def outcome_simps)
qed

lemma built_frame_decodes:
  assumes "builder_wf b" and "frame_builder_build crc enc b m = Ok bs"
    and "enc (meta_value (built_meta crc b)) = Some raw" and "length raw \<le> MAX_META_SIZE"
    and "m < 2 ^ 32" and "m \<le> m' + 4"
  shows "frame_decode m' (bs @ rest) =
    (Ok (Some \<lparr>fast = fb_fast b, hint = fb_hint_tlv b, meta_raw = raw,
               payload_or_cipher = fb_payload b\<rparr>), rest)"
proof -
  let ?f = "\<lparr>fast = fb_fast b, hint = fb_hint_tlv b, meta_raw = raw,
               payload_or_cipher = fb_payload b\<rparr>"
  have e: "frame_encode ?f m = Ok bs"
    using assms(2,3) by (auto simp: frame_builder_build_Ok)
  then have "encoded_size ?f \<le> m" by (simp add: frame_encode_Ok)
  moreover have "frame_wf ?f"
    using assms(1,4) by (simp add: frame_wf_def builder_wf_def split: option.splits)
  ultimately show ?thesis
    using frame_decode_encode[OF _ e, of m' rest] assms(5,6) by simp
qed

end
