(* ===== verification/Topology_Msg.thy ===== *)
theory Topology_Msg
  imports Wire_Chunk
begin

text \<open>
  Link-state advertisements: \<open>mesh-wire/src/topology.rs\<close>. The lemmas are about the order of
  sequence numbers modulo \<open>2 ^ 64\<close> and about the hop limit of a flooded update.
\<close>

section \<open>Messages\<close>

record neighbor_info =
  ni_node_id :: node_id
  ni_cost :: u32
  ni_addr :: "string option"

record topology_update =
  tu_originator_node :: node_id
  tu_sequence_number :: u64
  tu_neighbors :: "neighbor_info list"
  tu_ttl :: u8
  tu_timestamp :: u64

record topology_request =
  tr_requesting_node :: node_id
  tr_target_node :: "node_id option"
  tr_request_id :: u64

definition neighbor_info_new :: "node_id \<Rightarrow> u32 \<Rightarrow> string option \<Rightarrow> neighbor_info" where
  "neighbor_info_new n c a = \<lparr>ni_node_id = n, ni_cost = c, ni_addr = a\<rparr>"

text \<open>\<open>now\<close> is the system clock in seconds at the call.\<close>

definition topology_update_new ::
  "u64 \<Rightarrow> node_id \<Rightarrow> u64 \<Rightarrow> neighbor_info list \<Rightarrow> u8 \<Rightarrow> topology_update" where
  "topology_update_new now originator seq ns ttl =
     \<lparr>tu_originator_node = originator, tu_sequence_number = seq, tu_neighbors = ns, tu_ttl = ttl,
      tu_timestamp = now\<rparr>"

definition should_forward :: "topology_update \<Rightarrow> bool" where
  "should_forward u = (tu_ttl u > 0)"

definition decrement_ttl :: "topology_update \<Rightarrow> topology_update" where
  "decrement_ttl u = (if tu_ttl u > 0 then u\<lparr>tu_ttl := tu_ttl u - 1\<rparr> else u)"

definition is_newer_than :: "topology_update \<Rightarrow> u64 \<Rightarrow> bool" where
  "is_newer_than u other_seq = (let diff = sint (tu_sequence_number u - other_seq) in diff > 0)"

definition topology_request_new :: "node_id \<Rightarrow> node_id option \<Rightarrow> u64 \<Rightarrow> topology_request" where
  "topology_request_new r t i = \<lparr>tr_requesting_node = r, tr_target_node = t, tr_request_id = i\<rparr>"

section \<open>Lemmas\<close>

lemma sint_pos_iff: "0 < sint w \<longleftrightarrow> 0 < uint w \<and> uint w < 2 ^ 63" for w :: u64
proof (cases "uint w < 2 ^ 63")
  case True
  then have "sint w = uint w"
    by (simp add: sint_uint, intro signed_take_bit_int_eq_self) (use uint_ge_0[of w] in linarith, simp)
  with True show ?thesis by simp
next
  case False
  have u: "uint w < 2 ^ 64" using uint_bounded[of w] by simp
  have "uint w div 2 ^ 63 = 1"
    using False u by (intro int_div_pos_eq[where r = "uint w - 2 ^ 63"]) simp_all
  then have "bit (uint w) 63" by (simp add: bit_iff_odd)
  then have "sint w < 0" by (simp add: sint_uint signed_take_bit_negative_iff)
  with False show ?thesis by simp
qed

lemma is_newer_than_iff:
  "is_newer_than u s \<longleftrightarrow>
     (\<exists>d. 0 < d \<and> d < 2 ^ 63 \<and> tu_sequence_number u = s + word_of_nat d)"
proof
  let ?d = "tu_sequence_number u - s"
  assume "is_newer_than u s"
  then have "0 < uint ?d" "uint ?d < 2 ^ 63"
    by (simp_all add: is_newer_than_def sint_pos_iff)
  then have "0 < unat ?d \<and> unat ?d < 2 ^ 63 \<and> tu_sequence_number u = s + word_of_nat (unat ?d)"
    unfolding unat_eq_nat_uint by (auto simp del: nat_uint_eq)
  then show "\<exists>d. 0 < d \<and> d < 2 ^ 63 \<and> tu_sequence_number u = s + word_of_nat d" by blast
next
  assume "\<exists>d. 0 < d \<and> d < 2 ^ 63 \<and> tu_sequence_number u = s + word_of_nat d"
  then obtain d where d: "0 < d" "d < 2 ^ 63" "tu_sequence_number u - s = word_of_nat d" by auto
  then have "uint (word_of_nat d :: u64) = int d" by (simp add: uint_nat unat_of_nat)
  with d show "is_newer_than u s" by (simp add: is_newer_than_def sint_pos_iff)
qed

lemma is_newer_than_irrefl [simp]: "\<not> is_newer_than u (tu_sequence_number u)"
  by (simp add: is_newer_than_def)

text \<open>Of two different sequence numbers less than half the range apart, exactly one is newer.\<close>

lemma is_newer_than_asym:
  assumes "is_newer_than u (tu_sequence_number v)"
  shows "\<not> is_newer_than v (tu_sequence_number u)"
proof -
  let ?d = "tu_sequence_number u - tu_sequence_number v"
  have d: "0 < uint ?d" "uint ?d < 2 ^ 63"
    using assms by (simp_all add: is_newer_than_def sint_pos_iff)
  have "uint (tu_sequence_number v - tu_sequence_number u) = uint (- ?d)" by simp
  also have "\<dots> = 2 ^ 64 - uint ?d"
    using d(1) uint_bounded[of ?d] by (subst uint_word_ariths(4)) (simp add: zmod_zminus1_eq_if)
  finally show ?thesis using d by (simp add: is_newer_than_def sint_pos_iff)
qed

lemma unat_decrement_ttl: "unat (tu_ttl (decrement_ttl u)) = unat (tu_ttl u) - 1"
  by (auto simp: decrement_ttl_def unat_minus_one word_greater_zero_iff)

lemma decrement_ttl_fields [simp]:
  "tu_originator_node (decrement_ttl u) = tu_originator_node u"
  "tu_sequence_number (decrement_ttl u) = tu_sequence_number u"
  "tu_neighbors (decrement_ttl u) = tu_neighbors u"
  "tu_timestamp (decrement_ttl u) = tu_timestamp u"
  by (simp_all add: decrement_ttl_def)

lemma decrement_ttl_iterate: "unat (tu_ttl ((decrement_ttl ^^ n) u)) = unat (tu_ttl u) - n"
  by (induction n) (simp_all add: unat_decrement_ttl)

lemma should_forward_iterate:
  "should_forward ((decrement_ttl ^^ n) u) \<longleftrightarrow> n < unat (tu_ttl u)"
  using decrement_ttl_iterate[of n u]
  by (auto simp: should_forward_def word_greater_zero_iff simp flip: unat_gt_0)

end
