(* ===== verification/Wire.thy ===== *)
theory Wire
  imports Topology_Msg
begin

text \<open>
  What the wire format of \<open>mesh-wire\<close> guarantees its clients: encoding and decoding are inverse to
  each other on streams, incomplete input waits, malformed input is an error and never a panic,
  metadata survives, chunked payloads are put together again, and sequence numbers are ordered.
\<close>

section \<open>Lemmas\<close>

lemma frame_decode_incomplete:
  assumes "frame_encode f m = Ok bs" and "encoded_size f - 4 \<le> m'" and "encoded_size f < 2 ^ 32"
    and "k < length bs"
  shows "frame_decode m' (take k bs) = (Ok None, take k bs)"
proof (cases "k < 4")
  case False
  let ?buf = "take k bs"
  obtain body where bs: "bs = put_u32 (word_of_nat (encoded_size f - 4)) @ body"
    using assms(1) by (auto simp: frame_encode_Ok)
  have "take 4 ?buf = put_u32 (word_of_nat (encoded_size f - 4))"
    using False by (simp add: bs min_def put_u32_def)
  moreover have "[?buf ! 0, ?buf ! 1, ?buf ! 2, ?buf ! 3] = take 4 ?buf"
    by (rule take4_nth) (use False assms(4) in simp)
  ultimately have "unat (be_dec [?buf ! 0, ?buf ! 1, ?buf ! 2, ?buf ! 3] :: u32) = encoded_size f - 4"
    using assms(3) be_dec_take4_put[of "word_of_nat (encoded_size f - 4)" "[]"]
    by (simp add: unat_word_of_nat_id put_u32_def)
  moreover have "length ?buf < 4 + (encoded_size f - 4)"
    using assms(4) length_frame_encode[OF assms(1)] by simp
  ultimately show ?thesis
    using assms(2) False by (auto simp: frame_decode_def Let_def)
qed (use assms(4) in \<open>auto simp: frame_decode_def\<close>)

section \<open>Properties\<close>

text \<open>
  C10: Framing round trip on a stream. A well-formed frame that was encoded is decoded from the front of the stream
  exactly, whatever follows it, and what follows is left in the buffer; while
  only a proper prefix of it has arrived, the decoder asks for more and leaves the buffer as it is.
\<close>

theorem frame_stream_roundtrip:
  assumes "frame_wf f" and "frame_encode f m = Ok bs" and "m \<le> HARD_MAX_FRAME_SIZE"
  shows "frame_decode m (bs @ rest) = (Ok (Some f), rest)
    \<and> (\<forall>k < length bs. frame_decode m (take k bs) = (Ok None, take k bs))"
proof -
  have "encoded_size f \<le> m" using assms(2) by (simp add: frame_encode_Ok)
  with assms(3) have "encoded_size f - 4 \<le> m" "encoded_size f < 2 ^ 32"
    by (simp_all add: HARD_MAX_FRAME_SIZE_def)
  then show ?thesis
    using frame_decode_encode[OF assms(1,2)] frame_decode_incomplete[OF assms(2)] by blast
qed

theorem frame_stream_roundtrip_witness:
  "\<exists>f bs. frame_encode f 4096 = Ok bs \<and> payload_or_cipher f = [1, 2, 3]
     \<and> frame_decode 4096 (bs @ [9]) = (Ok (Some f), [9]) \<and> frame_decode 4096 (take 20 bs) = (Ok None, take 20 bs)"
proof -
  let ?f = "frame_new (fast_header_new Data 1 2 3) [160] [1, 2, 3]"
  have wf: "frame_wf ?f"
    by (simp add: frame_wf_def frame_new_def fast_header_new_def header_wf_def MAX_META_SIZE_def)
  have size: "encoded_size ?f = 60" by (simp add: encoded_size_eq frame_new_def hint_bytes_def)
  then obtain bs where bs: "frame_encode ?f 4096 = Ok bs" by (auto simp: frame_encode_Ok)
  from frame_stream_roundtrip[OF wf bs, of "[9]"] length_frame_encode[OF bs] size
  have "frame_decode 4096 (bs @ [9]) = (Ok (Some ?f), [9])" "frame_decode 4096 (take 20 bs) = (Ok None, take 20 bs)"
    by (simp_all add: HARD_MAX_FRAME_SIZE_def)
  with bs show ?thesis by (intro exI[of _ ?f] exI[of _ bs]) (simp add: frame_new_def)
qed

text \<open>
  C11: The decoder is sound and never panics, on any bytes from the network: a frame it returns is
  well formed, no larger than the limit, and the bytes it consumed are its only encoding; when it asks for more bytes it has
  consumed none.
\<close>

theorem frame_decode_sound:
  "no_panic (fst (frame_decode m buf))
   \<and> (\<forall>f rest. frame_decode m buf = (Ok (Some f), rest) \<longrightarrow>
        frame_wf f \<and> encoded_size f \<le> m + 4 \<and> (\<exists>bs. frame_encode f (m + 4) = Ok bs \<and> buf = bs @ rest))
   \<and> (\<forall>rest. frame_decode m buf = (Ok None, rest) \<longrightarrow> rest = buf)"
  using frame_decode_no_panic frame_decode_Some frame_decode_wait by blast

theorem frame_decode_sound_witness:
  "no_panic (fst (frame_decode 16 [0, 0, 0, 2, 7, 7])) \<and> frame_decode 16 [0, 0] = (Ok None, [0, 0])"
  using frame_decode_sound[of 16 "[0, 0, 0, 2, 7, 7]"] frame_decode_sound[of 16 "[0, 0]"]
  by (simp add: frame_decode_def[of 16 "[0, 0]"])

text \<open>
  Header validation. Every 48-byte header is either returned unchanged or rejected, and the
  error names the first violated rule in the order in which the decoder checks them: version, undefined flag bits,
  reserved bits, exhausted time to live. Shorter input is incomplete.
\<close>

lemma fast_header_decode_cases:
  "fast_header_decode (fast_header_encode h @ rest) =
     (if fh_ver h \<noteq> WIRE_VERSION then Err (Version (fh_ver h))
      else if flags_from_bits (fh_flags h) = None then Err Reserved
      else if fh_reserved0 h \<noteq> 0 then Err Reserved
      else if fh_ttl h = 0 then Err Ttl
      else Ok (h, rest))
   \<and> fast_header_decode (take k (take 47 (fast_header_encode h))) = Err Incomplete"
proof -
  let ?bs = "take k (take 47 (fast_header_encode h))"
  have "length ?bs < FAST_HEADER_SIZE" by (simp add: FAST_HEADER_SIZE_def)
  then have "fast_header_decode ?bs = Err Incomplete"
    by (simp only: fast_header_decode_def if_P)
  with fast_header_decode_encode_any show ?thesis by (intro conjI) (simp_all only:)
qed

text \<open>
  The packed route word and its four components determine each other: unpacking and packing again
  gives back any 32-bit word, and packing and unpacking gives back any route that \<open>Route::new\<close> builds.
\<close>

lemma route_bits_bijective:
  "route_pack (route_unpack v) = v \<and> route_unpack (route_pack (route_new p c pt e)) = route_new p c pt e"
  using route_pack_unpack route_unpack_pack_new by simp

text \<open>
  C35: Metadata round trip. A frame made by the builder arrives with the header, hint and payload it was given, and
  parsing its metadata gives back exactly the keys that were inserted, provided the CBOR codec returns what it encoded and the metadata
  is within the decoder's limit.
\<close>

theorem built_frame_roundtrip:
  assumes "builder_wf b" and "frame_builder_build crc enc b DEFAULT_MAX_FRAME_SIZE = Ok bs"
    and "\<forall>v raw. enc v = Some raw \<longrightarrow> dec raw = Some v"
    and "enc (meta_value (built_meta crc b)) = Some raw" and "length raw \<le> MAX_META_SIZE"
  shows "\<exists>f. frame_decode decoder_new (bs @ rest) = (Ok (Some f), rest)
    \<and> fast f = fb_fast b \<and> hint f = fb_hint_tlv b \<and> payload_or_cipher f = fb_payload b
    \<and> parse_meta dec (meta_raw f) = Ok (built_meta crc b)"
proof -
  have wf: "bt_wf (built_meta crc b)"
    using assms(1) by (simp add: builder_wf_def built_meta_def split: option.split)
  show ?thesis
    using built_frame_decodes[OF assms(1,2,4,5), of decoder_new rest] parse_meta_built[where dec = dec, OF wf assms(3)[rule_format, OF assms(4)]]
    by (simp add: decoder_new_def DEFAULT_MAX_FRAME_SIZE_def)
qed

theorem built_frame_roundtrip_witness:
  "\<exists>bs f. frame_builder_build (\<lambda>_. 0) (\<lambda>v. if v = CMap [(CText ''k'', CText ''v'')] then Some [1] else None)
       (set_payload [5] (meta_insert_str ''k'' ''v'' (frame_builder_new (fast_header_new Data 1 2 3))))
       DEFAULT_MAX_FRAME_SIZE = Ok bs
     \<and> frame_decode decoder_new bs = (Ok (Some f), []) \<and> payload_or_cipher f = [5]
     \<and> parse_meta (\<lambda>_. Some (CMap [(CText ''k'', CText ''v'')])) (meta_raw f) = Ok [(''k'', CText ''v'')]"
proof -
  let ?v = "CMap [(CText ''k'', CText ''v'')]"
  let ?enc = "\<lambda>v. if v = ?v then Some [1 :: 8 word] else None" and ?dec = "\<lambda>_ :: bytes. Some ?v"
  let ?b = "set_payload [5] (meta_insert_str ''k'' ''v'' (frame_builder_new (fast_header_new Data 1 2 3)))"
  have wf: "builder_wf ?b"
    by (intro builder_wf_steps builder_wf_new) (simp_all add: fast_header_new_def header_wf_def)
  have m: "built_meta (\<lambda>_. 0) ?b = [(''k'', CText ''v'')]" "fb_payload ?b = [5]" "fb_hint_tlv ?b = None"
    by (simp_all add: built_meta_def set_payload_def meta_insert_str_def frame_builder_new_def
        meta_builder_new_def insert_str_def fast_header_new_def flags_contains_def HDR_CHECKSUM_def)
  have e: "?enc (meta_value (built_meta (\<lambda>_. 0) ?b)) = Some [1]" by (simp add: m meta_value_def)
  obtain bs where bs: "frame_builder_build (\<lambda>_. 0) ?enc ?b DEFAULT_MAX_FRAME_SIZE = Ok bs"
    using e by (auto simp: frame_builder_build_Ok frame_encode_Ok encoded_size_eq m hint_bytes_def
        DEFAULT_MAX_FRAME_SIZE_def)
  have "\<forall>v raw. ?enc v = Some raw \<longrightarrow> ?dec raw = Some v" by (auto split: if_splits)
  from built_frame_roundtrip[where enc = ?enc and dec = ?dec and rest = "[]", OF wf bs this e] show ?thesis
    using bs by (auto simp: m MAX_META_SIZE_def)
qed

text \<open>
  C36: Chunked messages. The frames the default chunker makes of a payload each fit into a frame of
  the default size, and fed to a reassembler, possibly with frames of other message identifiers in
  between, are answered by nothing until the last one and by exactly
  the payload then; nothing of the message stays behind.
\<close>

theorem chunked_message_reassembled:
  assumes "p \<noteq> []" and "\<not> flags_contains (fh_flags fh) CHUNK_END"
    and "hm_get r (fh_msg_id fh) = None"
    and "filter (\<lambda>f. fh_msg_id (fast f) = fh_msg_id fh) fs = chunk_message chunker_new fh p"
  shows "answers_for (fh_msg_id fh) r fs = replicate (chunk_count chunker_new p - 1) None @ [Some p]
    \<and> hm_get (snd (add_chunks r fs)) (fh_msg_id fh) = None
    \<and> (\<forall>f\<in>set (chunk_message chunker_new fh p). encoded_size f \<le> DEFAULT_MAX_FRAME_SIZE)"
proof -
  have cs: "0 < chunker_new" "58 + chunker_new \<le> DEFAULT_MAX_FRAME_SIZE"
    by (simp_all add: chunker_new_def DEFAULT_CHUNK_SIZE_def DEFAULT_MAX_FRAME_SIZE_def)
  have "length (chunk_slice c p k) \<le> c" for c k by (simp add: chunk_slice_def)
  then have "58 + length (chunk_slice chunker_new p k) \<le> DEFAULT_MAX_FRAME_SIZE" for k
    using cs(2) by (meson add_le_mono le_refl le_trans)
  then have "\<forall>f\<in>set (chunk_message chunker_new fh p). encoded_size f \<le> DEFAULT_MAX_FRAME_SIZE"
    by (auto simp: chunk_message_eq[OF assms(1)] chunk_frame_size)
  with reassemble_stream[OF cs(1) assms] show ?thesis by blast
qed

theorem chunked_message_reassembled_witness:
  "answers_for 3 [] (chunk_message chunker_new (fast_header_new Data 1 2 3) [7, 8]) = [Some [7, 8]]"
proof -
  let ?fh = "fast_header_new Data 1 2 3"
  have c: "chunk_count chunker_new [7, 8 :: 8 word] = 1"
    by (simp add: chunk_count_def chunker_new_def DEFAULT_CHUNK_SIZE_def DEFAULT_MAX_FRAME_SIZE_def)
  have "filter (\<lambda>f. fh_msg_id (fast f) = fh_msg_id ?fh) (chunk_message chunker_new ?fh [7, 8]) =
      chunk_message chunker_new ?fh [7, 8]"
    using chunk_message_chunked by (metis (mono_tags, lifting) filter_True)
  from chunked_message_reassembled[OF _ _ _ this, of "[]"] c show ?thesis
    by (simp add: fast_header_new_def flags_contains_def CHUNK_END_def)
qed

text \<open>
  Sequence numbers and hop limit of link-state updates. An update is newer than a known number exactly when it is
  ahead of it by less than half the 64-bit range, across the wrap-around, and never both ways; an update
  is forwarded along at most as many hops as its initial time to live, which never wraps below zero.
\<close>

lemma topology_update_order:
  "(is_newer_than u s \<longleftrightarrow> (\<exists>d. 0 < d \<and> d < 2 ^ 63 \<and> tu_sequence_number u = s + word_of_nat d))
   \<and> \<not> (is_newer_than u (tu_sequence_number v) \<and> is_newer_than v (tu_sequence_number u))
   \<and> (should_forward ((decrement_ttl ^^ n) u) \<longleftrightarrow> n < unat (tu_ttl u))
   \<and> unat (tu_ttl ((decrement_ttl ^^ n) u)) = unat (tu_ttl u) - n"
  using is_newer_than_iff is_newer_than_asym should_forward_iterate decrement_ttl_iterate by blast

end
