(* ===== verification/Topology_Dijkstra.thy ===== *)
theory Topology_Dijkstra
  imports Topology_DB
begin

text \<open>
  The correctness of \<open>compute_routes\<close>: the invariant of the main loop of Dijkstra's algorithm on
  saturating \<open>u32\<close> distances, the walk back along \<open>previous\<close>, and the routes that are built.
\<close>

section \<open>Lemmas on the algorithm\<close>

lemma unat_u32_MAX [simp]: "unat u32_MAX = 2 ^ 32 - 1"
  by (simp add: u32_MAX_def unsigned_minus_1_eq_mask mask_eq_exp_minus_1)

lemma u32_le_MAX: "unat (x :: u32) \<le> 2 ^ 32 - 1"
  using unsigned_less[of x, where ?'a = nat] by simp

lemma u32_MAX_iff: "x = u32_MAX \<longleftrightarrow> unat x = 2 ^ 32 - 1"
  by (metis unat_u32_MAX word_unat_eq_iff)

lemma pchain_keep:
  assumes "pchain p s x n" and "prev_ok nodes d p" and "unat (dist_of d x) < unat (dist_of d v)"
  shows "pchain (hm_insert v u p) s x n"
  using assms
proof (induction rule: pchain.induct)
  case (pchain_last x)
  then show ?case by (intro pchain.pchain_last) auto
next
  case (pchain_step x y n)
  then have "unat (dist_of d y) \<le> unat (dist_of d x)" by (fastforce simp: prev_ok_def)
  with pchain_step show ?case by (intro pchain.pchain_step[of _ _ y]) auto
qed

lemma pchain_redirect:
  assumes "pchain p s x n" and "pchain (hm_insert v u p) s v m"
  shows "\<exists>k. pchain (hm_insert v u p) s x k"
  using assms
proof (induction rule: pchain.induct)
  case (pchain_last x)
  then show ?case
    using pchain.pchain_last[of "hm_insert v u p" x s] by (cases "x = v") auto
next
  case (pchain_step x y n)
  then show ?case
    using pchain.pchain_step[of "hm_insert v u p" x y s] by (cases "x = v") auto
qed

lemma relax_step_inv:
  assumes inv: "sp_inv nodes s (d, p, h)" and e: "edge nodes u v w"
    and less: "nd < dist_of d v" and nd: "unat nd = unat (dist_of d u) + w"
  shows "sp_inv nodes s (hm_insert v nd d, hm_insert v u p, (nd, v) # h)"
proof -
  let ?d = "hm_insert v nd d" and ?p = "hm_insert v u p"
  have lt: "unat nd < unat (dist_of d v)" using less by (simp add: word_less_nat_alt)
  have uv: "u \<noteq> v" and u_lt: "unat (dist_of d u) < unat (dist_of d v)" using nd lt by auto
  have vs: "v \<noteq> s" using inv lt by (auto simp: sp_inv_def)
  have P: "prev_ok nodes d p" and L: "linked s d p" using inv by (auto simp: sp_inv_def)
  have fin: "dist_of d u \<noteq> u32_MAX" using u_lt u32_le_MAX[of "dist_of d v"] by (auto simp: u32_MAX_iff)
  obtain m where m: "pchain ?p s v m"
  proof (cases "u = s")
    case True
    then show thesis using that pchain_last[of ?p v s] by simp
  next
    case False
    then obtain n where "pchain p s u n" using L fin by (auto simp: linked_def)
    with P u_lt have "pchain ?p s u n" by (intro pchain_keep)
    with False that[of "Suc n"] pchain_step[of ?p v u s n] show thesis by simp
  qed
  have "prev_ok nodes ?d ?p"
    unfolding prev_ok_def
  proof (intro allI impI)
    fix x y assume "hm_get ?p x = Some y"
    then show "\<exists>w. edge nodes y x w \<and> unat (dist_of ?d y) + w \<le> unat (dist_of ?d x)"
      using P e nd uv lt by (auto simp: prev_ok_def dist_of_insert split: if_splits) fastforce+
  qed
  moreover have "linked s ?d ?p"
    using L m by (auto simp: linked_def dist_of_insert dest: pchain_redirect split: if_splits)
  ultimately show ?thesis
    using inv vs less by (auto simp: sp_inv_def dist_of_insert)
qed

lemma relax_step_relaxed:
  assumes A: "all_relaxed nodes E (d, p, h)" and uv: "u \<noteq> v" and less: "nd < dist_of d v"
    and nd: "unat nd = unat (dist_of d u) + w"
  shows "all_relaxed nodes (E - {(u, v, w)}) (hm_insert v nd d, hm_insert v u p, (nd, v) # h)"
proof -
  have lt: "unat nd < unat (dist_of d v)" using less by (simp add: word_less_nat_alt)
  show ?thesis
    using A uv nd lt u32_le_MAX[of nd]
    by (fastforce simp: all_relaxed_def relaxed_def dist_of_insert)
qed

lemma relax_inv:
  assumes "sp_inv nodes s (d, p, h)" and "all_relaxed nodes (pending u links) (d, p, h)"
    and "hm_get nodes u = Some info" and "set links \<subseteq> set (nd_neighbors info)"
    and "cd = dist_of d u"
  shows "sp_inv nodes s (relax cd u links (d, p, h)) \<and>
    all_relaxed nodes {} (relax cd u links (d, p, h))"
  using assms
proof (induction links arbitrary: d p h)
  case Nil
  then show ?case by (simp add: pending_def)
next
  case (Cons l links)
  obtain v li where l: "l = (v, li)" by (cases l)
  let ?w = "unat (li_cost li)" and ?nd = "sat_add cd (li_cost li)"
  have e: "edge nodes u v ?w"
    using Cons.prems(3,4) by (auto simp: edge_def l)
  have pend: "pending u (l # links) - {(u, v, ?w)} \<subseteq> pending u links"
    by (auto simp: pending_def l)
  have ndu: "unat ?nd = min (unat (dist_of d u) + ?w) (2 ^ 32 - 1)"
    using Cons.prems(5) by (simp add: unat_sat_add)
  show ?case
  proof (cases "?nd < dist_of d v")
    case True
    let ?st = "(hm_insert v ?nd d, hm_insert v u p, (?nd, v) # h)"
    have nd: "unat ?nd = unat (dist_of d u) + ?w"
      using True ndu u32_le_MAX[of "dist_of d v"] by (auto simp: word_less_nat_alt)
    have uv: "u \<noteq> v" using True nd by (auto simp: word_less_nat_alt)
    have "sp_inv nodes s ?st" by (rule relax_step_inv[OF Cons.prems(1) e True nd])
    moreover have "all_relaxed nodes (pending u links) ?st"
      using relax_step_relaxed[OF Cons.prems(2) uv True nd] pend by (auto simp: all_relaxed_def)
    ultimately show ?thesis
      using Cons.IH[of "hm_insert v ?nd d" "hm_insert v u p" "(?nd, v) # h"] Cons.prems(3-5) True uv
      by (simp add: l dist_of_insert Let_def)
  next
    case False
    then have "relaxed d u v ?w" using ndu by (simp only: relaxed_def word_less_nat_alt not_less)
    then have "all_relaxed nodes (pending u links) (d, p, h)"
      using Cons.prems(2) pend by (auto simp: all_relaxed_def)
    with Cons False show ?thesis by (simp add: l)
  qed
qed

lemma edge_src: "edge nodes u v w \<Longrightarrow> hm_get nodes u \<noteq> None"
  by (auto simp: edge_def)

lemma all_relaxed_pop:
  assumes "all_relaxed nodes {} (d, p, h)" and "heap_pop h = Some ((cd, u), h')"
    and "cd \<noteq> dist_of d u \<or> hm_get nodes u = None"
  shows "all_relaxed nodes {} (d, p, h')"
proof -
  have h: "set h = insert (cd, u) (set h')"
    using heap_pop_Some(3)[OF assms(2)] by (metis set_mset_add_mset_insert set_mset_mset)
  show ?thesis
    using assms(1,3) by (fastforce simp: all_relaxed_def h dest: edge_src)
qed

lemma dijkstra_loop_done: "dijkstra_loop nodes (d, p, []) = (d, p)"
  by (simp add: dijkstra_loop.simps)

lemma dijkstra_loop_skip:
  "heap_pop h = Some ((cd, u), h') \<Longrightarrow> dist_of d u < cd \<or> hm_get nodes u = None \<Longrightarrow>
   dijkstra_loop nodes (d, p, h) = dijkstra_loop nodes (d, p, h')"
  by (subst dijkstra_loop.simps) (auto split: option.splits)

lemma dijkstra_loop_visit:
  "heap_pop h = Some ((cd, u), h') \<Longrightarrow> \<not> dist_of d u < cd \<Longrightarrow> hm_get nodes u = Some info \<Longrightarrow>
   dijkstra_loop nodes (d, p, h) = dijkstra_loop nodes (relax cd u (nd_neighbors info) (d, p, h'))"
  by (subst dijkstra_loop.simps) simp

lemma dijkstra_loop_inv:
  assumes "sp_inv nodes s st" and "all_relaxed nodes {} st"
    and "dijkstra_loop nodes st = (d', p')"
  shows "sp_inv nodes s (d', p', []) \<and> all_relaxed nodes {} (d', p', [])"
  using assms
proof (induction nodes st rule: dijkstra_loop.induct)
  case (1 nodes d p h)
  show ?case
  proof (cases "heap_pop h")
    case None
    then show ?thesis using 1(4-6) by (simp add: dijkstra_loop_done)
  next
    case (Some x)
    obtain cd u h' where x: "x = ((cd, u), h')" by (metis prod.collapse)
    note pop = Some[unfolded x]
    have h: "set h = insert (cd, u) (set h')"
      using heap_pop_Some(3)[OF pop] by (metis set_mset_add_mset_insert set_mset_mset)
    have inv': "sp_inv nodes s (d, p, h')" and le: "dist_of d u \<le> cd"
      using 1(4) by (auto simp: sp_inv_def h)
    show ?thesis
    proof (cases "cd > dist_of d u \<or> hm_get nodes u = None")
      case True
      have rel: "all_relaxed nodes {} (d, p, h')"
        by (rule all_relaxed_pop[OF 1(5) pop]) (use True in auto)
      have eq: "dijkstra_loop nodes (d, p, h') = (d', p')"
        using dijkstra_loop_skip[OF pop True] 1(6) by simp
      show ?thesis
        using True 1(1)[OF pop refl refl _ inv' rel eq] 1(2)[OF pop refl refl _ _ inv' rel eq]
        by (cases "dist_of d u < cd") auto
    next
      case False
      then obtain info where info: "hm_get nodes u = Some info" and cd: "cd = dist_of d u"
        using le by auto
      have "all_relaxed nodes (pending u (nd_neighbors info)) (d, p, h')"
        using 1(5) info by (fastforce simp: all_relaxed_def h pending_def edge_def)
      from relax_inv[OF inv' this info order_refl cd] 1(3)[OF pop refl refl _ info]
        dijkstra_loop_visit[OF pop _ info] False 1(6)
      show ?thesis by simp
    qed
  qed
qed

lemma init_nodes_inv:
  assumes "hm_wf d" and "\<And>x. dist_of d x = (if x = s then 0 else u32_MAX)"
    and "(0, s) \<in> set h" and "\<forall>(c, x) \<in> set h. dist_of d x \<le> c"
    and "init_nodes s ns (d, h) = (d', h')"
  shows "sp_inv nodes s (d', [], h') \<and> all_relaxed nodes {} (d', [], h')"
  using assms
proof (induction ns arbitrary: d h)
  case Nil
  have "relaxed d u v w" if "u \<noteq> s" for u v w
    using that Nil.prems(2) u32_le_MAX[of "dist_of d v"] by (simp add: relaxed_def)
  then show ?case
    using Nil by (auto simp: sp_inv_def all_relaxed_def prev_ok_def linked_def)
next
  case (Cons n ns)
  show ?case
  proof (cases "n = s")
    case False
    let ?d = "hm_insert n u32_MAX d" and ?h = "(u32_MAX, n) # h"
    have "dist_of ?d = dist_of d" using False Cons.prems(2) by (auto simp: dist_of_insert)
    with Cons.IH[of ?d ?h] Cons.prems False show ?thesis by simp
  qed (use Cons in auto)
qed

text \<open>The end of the main loop: all edges relaxed, all reached nodes linked to the source.\<close>

definition sp_done :: "lsdb \<Rightarrow> node_id \<Rightarrow> distances \<Rightarrow> previous \<Rightarrow> bool" where
  "sp_done nodes s d p \<longleftrightarrow> sp_inv nodes s (d, p, []) \<and> all_relaxed nodes {} (d, p, [])"

lemma walk_append: "walk nodes v c' n' x \<Longrightarrow> walk nodes u c n v \<Longrightarrow> walk nodes u (c + c') (n + n') x"
proof (induction rule: walk.induct)
  case (walk_snoc v c' n' y x w)
  then have "walk nodes u (c + c' + w) (Suc (n + n')) x" by (blast intro: walk.walk_snoc)
  then show ?case by (simp add: ac_simps)
qed simp

lemma walk_edge: "edge nodes u v w \<Longrightarrow> walk nodes u w (Suc 0) v"
  using walk_snoc[OF walk_refl, of nodes u v w] by simp

lemma walk_bound:
  assumes "walk nodes s c n v" and "sp_done nodes s d p" and "c < 2 ^ 32 - 1"
  shows "unat (dist_of d v) \<le> c"
  using assms
proof (induction rule: walk.induct)
  case (walk_refl s)
  then show ?case by (simp add: sp_done_def sp_inv_def)
next
  case (walk_snoc s c n v x w)
  then have "relaxed d v x w" by (simp add: sp_done_def all_relaxed_def)
  with walk_snoc show ?case by (simp add: relaxed_def)
qed

lemma walk_back_chain:
  assumes "pchain p s x n" and "prev_ok nodes d p"
  shows "\<exists>h c. walk_back s p x k = Some (h, k + word_of_nat n) \<and> hm_get p h = Some s
    \<and> walk nodes h c (n - 1) x \<and> unat (dist_of d h) + c \<le> unat (dist_of d x)"
  using assms
proof (induction arbitrary: k rule: pchain.induct)
  case (pchain_last x)
  then show ?case
    by (intro exI[of _ x] exI[of _ 0]) (auto simp: walk_back.simps[of s p x] intro: walk_refl)
next
  case (pchain_step x y n)
  from pchain_step.IH[OF pchain_step.prems, of "k + 1"] obtain h c where
    h: "walk_back s p y (k + 1) = Some (h, k + 1 + word_of_nat n)" "hm_get p h = Some s"
    and c: "walk nodes h c (n - 1) y" "unat (dist_of d h) + c \<le> unat (dist_of d y)"
    by auto
  obtain w where w: "edge nodes y x w" "unat (dist_of d y) + w \<le> unat (dist_of d x)"
    using pchain_step.prems pchain_step.hyps(1) unfolding prev_ok_def by blast
  have "0 < n" using pchain_step.hyps(3) by (cases rule: pchain.cases) auto
  then have "walk nodes h (c + w) n x" using walk_snoc[OF c(1) w(1)] by simp
  moreover have "walk_back s p x k = Some (h, k + word_of_nat (Suc n))"
    using pchain_step.hyps h(1) by (simp add: walk_back.simps[of s p x] ac_simps)
  ultimately show ?case using h(2) c(2) w(2) by (intro exI[of _ h] exI[of _ "c + w"]) simp
qed

text \<open>The entry that the last loop makes for a destination, from what its walk back returns.\<close>

definition route_entry :: "node_id \<Rightarrow> (node_id \<Rightarrow> node_id \<times> u8) \<Rightarrow> distances \<Rightarrow> node_id
    \<Rightarrow> computed_route option" where
  "route_entry s f ds dst =
     (case hm_get ds dst of
        Some c \<Rightarrow> if dst \<noteq> s \<and> c \<noteq> u32_MAX
          then Some \<lparr>cr_dst_node = dst, cr_next_hop = fst (f dst), cr_total_cost = c,
                     cr_hop_count = snd (f dst)\<rparr>
          else None
      | None \<Rightarrow> None)"

lemma build_routes_get:
  assumes "\<forall>(x, c) \<in> set ds. x \<noteq> s \<and> c \<noteq> u32_MAX \<longrightarrow> walk_back s p x 0 = Some (f x)"
    and "hm_wf ds" and "hm_wf r"
  shows "\<exists>routes. build_routes s p ds r = Some routes \<and> hm_wf routes \<and>
    (\<forall>dst. hm_get routes dst =
       (case route_entry s f ds dst of Some e \<Rightarrow> Some e | None \<Rightarrow> hm_get r dst))"
  using assms
proof (induction ds arbitrary: r)
  case (Cons xc ds)
  obtain x c where xc: "xc = (x, c)" by (cases xc)
  define r' where "r' = (if x \<noteq> s \<and> c \<noteq> u32_MAX
    then hm_insert x \<lparr>cr_dst_node = x, cr_next_hop = fst (f x), cr_total_cost = c,
           cr_hop_count = snd (f x)\<rparr> r else r)"
  have ds: "hm_wf ds" "hm_get ds x = None"
    using Cons.prems(2) by (auto simp: xc hm_wf_def hm_get_None_iff)
  have "build_routes s p (xc # ds) r = build_routes s p ds r'"
    using Cons.prems(1) by (auto simp: xc r'_def split: prod.splits)
  moreover have "hm_wf r'" using Cons.prems(3) by (simp add: r'_def)
  moreover have "\<forall>(x, c) \<in> set ds. x \<noteq> s \<and> c \<noteq> u32_MAX \<longrightarrow> walk_back s p x 0 = Some (f x)"
    using Cons.prems(1) by simp
  ultimately obtain routes where routes: "build_routes s p (xc # ds) r = Some routes" "hm_wf routes"
    "\<And>dst. hm_get routes dst =
       (case route_entry s f ds dst of Some e \<Rightarrow> Some e | None \<Rightarrow> hm_get r' dst)"
    using Cons.IH[of r'] ds(1) by auto
  have r': "hm_get r' dst = hm_get r dst" if "dst \<noteq> x" for dst using that by (simp add: r'_def)
  have "hm_get routes dst =
      (case route_entry s f (xc # ds) dst of Some e \<Rightarrow> Some e | None \<Rightarrow> hm_get r dst)" for dst
    using ds(2) by (cases "dst = x") (simp_all add: routes(3) route_entry_def xc hm_get_Cons r'
        cong: option.case_cong, simp add: r'_def)
  with routes(1,2) show ?case by blast
qed (simp add: route_entry_def)

lemma sp_done_chain:
  assumes "sp_done nodes s d p" and "dist_of d x \<noteq> u32_MAX" and "x \<noteq> s"
  obtains h n c w where "walk_back s p x 0 = Some (h, word_of_nat (Suc n))"
    and "edge nodes s h w" and "walk nodes h c n x" and "unat (dist_of d x) = w + c"
proof -
  have P: "prev_ok nodes d p" and zero: "dist_of d s = 0"
    using assms(1) by (simp_all add: sp_done_def sp_inv_def)
  obtain n where n: "pchain p s x n"
    using assms by (auto simp: sp_done_def sp_inv_def linked_def)
  then have pos: "0 < n" by (cases rule: pchain.cases) auto
  obtain h c where h: "walk_back s p x 0 = Some (h, word_of_nat n)" "hm_get p h = Some s"
    "walk nodes h c (n - 1) x" "unat (dist_of d h) + c \<le> unat (dist_of d x)"
    using walk_back_chain[OF n P, of 0] by auto
  obtain w where w: "edge nodes s h w" "w \<le> unat (dist_of d h)"
    using P h(2) zero unfolding prev_ok_def by fastforce
  have "walk nodes s (w + c) (Suc 0 + (n - 1)) x"
    by (rule walk_append[OF h(3) walk_edge[OF w(1)]])
  then have "w + c < 2 ^ 32 - 1 \<longrightarrow> unat (dist_of d x) \<le> w + c"
    using walk_bound[OF _ assms(1)] by blast
  moreover have "unat (dist_of d x) < 2 ^ 32 - 1"
    using assms(2) u32_le_MAX[of "dist_of d x"] by (simp add: u32_MAX_iff)
  ultimately have "unat (dist_of d x) = w + c" using h(4) w(2) by linarith
  with that[of h "n - 1" w c] h(1,3) w(1) pos show thesis by simp
qed

lemma sp_done_min_cost:
  assumes "sp_done nodes s d p" and "dist_of d x \<noteq> u32_MAX" and "x \<noteq> s"
  shows "min_cost nodes s (unat (dist_of d x)) x"
proof -
  obtain h n c w where h: "edge nodes s h w" "walk nodes h c n x" "unat (dist_of d x) = w + c"
    by (rule sp_done_chain[OF assms])
  have "walk nodes s (w + c) (Suc 0 + n) x" by (rule walk_append[OF h(2) walk_edge[OF h(1)]])
  moreover have "unat (dist_of d x) \<le> c'" if "walk nodes s c' n' x" for c' n'
    using walk_bound[OF that assms(1)] u32_le_MAX[of "dist_of d x"] by linarith
  ultimately show ?thesis unfolding min_cost_def h(3) by blast
qed

lemma compute_routes_sp_done:
  "\<exists>d p. sp_done (db_nodes db) (db_local_node_id db) d p \<and>
     compute_routes db = map_option (\<lambda>routes. db\<lparr>db_routes := routes\<rparr>)
       (build_routes (db_local_node_id db) p d [])"
proof -
  let ?s = "db_local_node_id db"
  obtain d0 h0 where init: "init_nodes ?s (hm_keys (db_nodes db)) ([(?s, 0)], [(0, ?s)]) = (d0, h0)"
    by (metis surj_pair)
  have "sp_inv (db_nodes db) ?s (d0, [], h0) \<and> all_relaxed (db_nodes db) {} (d0, [], h0)"
    by (rule init_nodes_inv[OF _ _ _ _ init]) (auto simp: hm_wf_def dist_of_def hm_get_Cons)
  moreover obtain d p where dp: "dijkstra_loop (db_nodes db) (d0, [], h0) = (d, p)"
    by (metis surj_pair)
  ultimately have "sp_done (db_nodes db) ?s d p"
    unfolding sp_done_def by (intro dijkstra_loop_inv[OF _ _ dp]) auto
  then show ?thesis
    by (intro exI[of _ d] exI[of _ p]) (simp add: compute_routes_def init dp)
qed

lemma compute_routes_ok:
  obtains db' where "compute_routes db = Some db'" and "routes_ok db'"
    and "hm_wf (db_routes db')" and "db_nodes db' = db_nodes db"
    and "db_local_node_id db' = db_local_node_id db"
    and "db_local_sequence db' = db_local_sequence db"
proof -
  let ?s = "db_local_node_id db" and ?N = "db_nodes db"
  obtain d p where sp: "sp_done ?N ?s d p" and eq: "compute_routes db =
      map_option (\<lambda>routes. db\<lparr>db_routes := routes\<rparr>) (build_routes ?s p d [])"
    using compute_routes_sp_done[of db] by auto
  define f where "f x = the (walk_back ?s p x 0)" for x
  have wfd: "hm_wf d" using sp by (simp add: sp_done_def sp_inv_def)
  have "walk_back ?s p x 0 = Some (f x)" if "(x, c) \<in> set d" "x \<noteq> ?s" "c \<noteq> u32_MAX" for x c
  proof -
    have "dist_of d x \<noteq> u32_MAX" using that(3) hm_get_mem[OF wfd that(1)] by (simp add: dist_of_def)
    then show ?thesis by (rule sp_done_chain[OF sp _ that(2)]) (simp add: f_def)
  qed
  then have "\<forall>(x, c) \<in> set d. x \<noteq> ?s \<and> c \<noteq> u32_MAX \<longrightarrow> walk_back ?s p x 0 = Some (f x)" by auto
  moreover have "(case x of Some e \<Rightarrow> Some e | None \<Rightarrow> hm_get [] k) = x"
    for x :: "computed_route option" and k :: node_id
    by (cases x) auto
  ultimately obtain routes where routes: "build_routes ?s p d [] = Some routes" "hm_wf routes"
    "\<And>dst. hm_get routes dst = route_entry ?s f d dst"
    using build_routes_get[of d ?s p f "[]"] wfd by auto
  let ?db = "db\<lparr>db_routes := routes\<rparr>"
  have get: "get_route ?db dst = (if dst \<noteq> ?s \<and> dist_of d dst \<noteq> u32_MAX
      then Some \<lparr>cr_dst_node = dst, cr_next_hop = fst (f dst), cr_total_cost = dist_of d dst,
                 cr_hop_count = snd (f dst)\<rparr> else None)" for dst
    by (auto simp: get_route_def routes(3) route_entry_def dist_of_def split: option.splits)
  have r1: "route_ok ?N ?s dst r" if "get_route ?db dst = Some r" for dst r
  proof -
    from that have dst: "dst \<noteq> ?s" "dist_of d dst \<noteq> u32_MAX" by (auto simp: get split: if_splits)
    obtain h n c w where "walk_back ?s p dst 0 = Some (h, word_of_nat (Suc n))"
      "edge ?N ?s h w" "walk ?N h c n dst" "unat (dist_of d dst) = w + c"
      by (rule sp_done_chain[OF sp dst(2,1)])
    with that dst sp_done_min_cost[OF sp dst(2,1)] show ?thesis
      by (auto simp: get route_ok_def f_def) blast
  qed
  have r2: "dist_of d dst \<noteq> u32_MAX \<longleftrightarrow> (\<exists>c n. walk ?N ?s c n dst \<and> c < 2 ^ 32 - 1)"
    if "dst \<noteq> ?s" for dst
  proof
    assume fin: "dist_of d dst \<noteq> u32_MAX"
    then have "unat (dist_of d dst) < 2 ^ 32 - 1"
      using u32_le_MAX[of "dist_of d dst"] by (simp add: u32_MAX_iff)
    with sp_done_min_cost[OF sp fin that] show "\<exists>c n. walk ?N ?s c n dst \<and> c < 2 ^ 32 - 1"
      by (auto simp: min_cost_def)
  next
    assume "\<exists>c n. walk ?N ?s c n dst \<and> c < 2 ^ 32 - 1"
    then show "dist_of d dst \<noteq> u32_MAX" using walk_bound[OF _ sp] by (fastforce simp: u32_MAX_iff)
  qed
  have "routes_ok ?db"
    unfolding routes_ok_def
  proof (intro conjI allI impI)
    fix dst
    show "get_route ?db dst \<noteq> None \<longleftrightarrow> dst \<noteq> db_local_node_id ?db
        \<and> (\<exists>c n. walk (db_nodes ?db) (db_local_node_id ?db) c n dst \<and> c < 2 ^ 32 - 1)"
      using r2[of dst] by (cases "dst = ?s") (simp_all add: get)
  qed (use r1 in simp)
  then show thesis using that[of ?db] eq routes(1,2) by simp
qed

end
