(* ===== verification/Topology_Ops.thy ===== *)
theory Topology_Ops
  imports Topology_Dijkstra
begin

text \<open>
  What the operations of the link-state database keep and do: reachable databases, received updates
  and clean-ups, hop-by-hop forwarding in a converged network.
\<close>

section \<open>The operations keep the routes right\<close>

lemma hm_wf_links_of [simp]: "hm_wf m \<Longrightarrow> hm_wf (links_of now ns m)"
  by (induction now ns m rule: links_of.induct) auto

text \<open>What the operations keep: the maps are well formed and the routes are the shortest paths.\<close>

definition db_ok :: "topology_database \<Rightarrow> bool" where
  "db_ok db \<longleftrightarrow> db_wf db \<and> routes_ok db"

lemma set_hm_insert: "(x, y) \<in> set (hm_insert k v m) \<Longrightarrow> (x, y) = (k, v) \<or> (x, y) \<in> set m"
  by (induction k v m rule: hm_insert.induct) (auto split: if_splits)

lemma walk_empty: "walk [] u c n v \<Longrightarrow> u = v"
  by (induction rule: walk.induct) (auto simp: edge_def)

lemma db_ok_new: "db_ok (topology_database_new n)"
  by (auto simp: db_ok_def db_wf_def routes_ok_def topology_database_new_def get_route_def
      dest: walk_empty)

lemma compute_routes_db_ok:
  assumes "hm_wf N" and "\<forall>(n, info) \<in> set N. nd_node_id info = n \<and> hm_wf (nd_neighbors info)"
    and "compute_routes (db\<lparr>db_nodes := N\<rparr>) = Some db'"
  shows "db_ok db' \<and> db_nodes db' = N \<and> db_local_node_id db' = db_local_node_id db
    \<and> db_local_sequence db' = db_local_sequence db"
  by (rule compute_routes_ok[of "db\<lparr>db_nodes := N\<rparr>"])
    (use assms in \<open>auto simp: db_ok_def db_wf_def\<close>)

lemma compute_routes_total: "compute_routes db \<noteq> None"
  by (rule compute_routes_ok[of db]) simp

lemma db_wf_insert_node:
  assumes "db_wf db" and "nd_node_id info = n" and "hm_wf (nd_neighbors info)"
  shows "hm_wf (hm_insert n info (db_nodes db))"
    and "\<forall>(k, i) \<in> set (hm_insert n info (db_nodes db)). nd_node_id i = k \<and> hm_wf (nd_neighbors i)"
  using assms by (auto simp: db_wf_def dest!: set_hm_insert)

lemma update_local_neighbors_ok:
  assumes "db_wf db"
  obtains u db' where "update_local_neighbors now now' ns db = Some (u, db')" and "db_ok db'"
    and "u = topology_update_new now' (db_local_node_id db) (db_local_sequence db) ns
           DEFAULT_TOPOLOGY_TTL"
    and "db_local_node_id db' = db_local_node_id db"
    and "db_local_sequence db' = db_local_sequence db + 1"
    and "\<And>n. hm_get (db_nodes db') n =
          (if n = db_local_node_id db
           then Some \<lparr>nd_node_id = n, nd_sequence_number = db_local_sequence db,
                      nd_last_updated = now, nd_neighbors = links_of now ns []\<rparr>
           else hm_get (db_nodes db) n)"
proof -
  let ?info = "\<lparr>nd_node_id = db_local_node_id db, nd_sequence_number = db_local_sequence db,
                nd_last_updated = now, nd_neighbors = links_of now ns []\<rparr>"
  let ?N = "hm_insert (db_local_node_id db) ?info (db_nodes db)"
  let ?db = "db\<lparr>db_local_sequence := db_local_sequence db + 1\<rparr>"
  obtain db' where db': "compute_routes (?db\<lparr>db_nodes := ?N\<rparr>) = Some db'"
    using compute_routes_total[of "?db\<lparr>db_nodes := ?N\<rparr>"] by auto
  have "db_ok db' \<and> db_nodes db' = ?N \<and> db_local_node_id db' = db_local_node_id ?db
      \<and> db_local_sequence db' = db_local_sequence ?db"
    by (rule compute_routes_db_ok[OF _ _ db']; rule db_wf_insert_node[OF assms]) simp_all
  with db' that[of _ db'] show thesis
    by (simp add: update_local_neighbors_def next_sequence_number_def Let_def)
qed

text \<open>The condition under which an update is taken.\<close>

definition update_fresh :: "u64 \<Rightarrow> topology_update \<Rightarrow> topology_database \<Rightarrow> bool" where
  "update_fresh now u db \<longleftrightarrow>
     unat now \<le> unat (tu_timestamp u) + 300
     \<and> (\<forall>i. hm_get (db_nodes db) (tu_originator_node u) = Some i \<longrightarrow>
          is_newer_than u (nd_sequence_number i))"

lemma process_topology_update_stale:
  "\<not> update_fresh now u db \<Longrightarrow> process_topology_update now u db = Some (False, db)"
  by (auto simp: process_topology_update_def update_fresh_def MAX_TOPOLOGY_AGE_SECS_def
      word_less_nat_alt unat_sat_sub split: option.splits)

lemma process_topology_update_fresh:
  assumes "db_wf db" and "update_fresh now u db"
  obtains db' where "process_topology_update now u db = Some (True, db')" and "db_ok db'"
    and "db_local_node_id db' = db_local_node_id db"
    and "db_local_sequence db' = db_local_sequence db"
    and "\<And>n. hm_get (db_nodes db') n =
          (if n = tu_originator_node u
           then Some \<lparr>nd_node_id = n, nd_sequence_number = tu_sequence_number u,
                      nd_last_updated = now, nd_neighbors = links_of now (tu_neighbors u) []\<rparr>
           else hm_get (db_nodes db) n)"
proof -
  let ?info = "\<lparr>nd_node_id = tu_originator_node u, nd_sequence_number = tu_sequence_number u,
                nd_last_updated = now, nd_neighbors = links_of now (tu_neighbors u) []\<rparr>"
  let ?N = "hm_insert (tu_originator_node u) ?info (db_nodes db)"
  obtain db' where db': "compute_routes (db\<lparr>db_nodes := ?N\<rparr>) = Some db'"
    using compute_routes_total[of "db\<lparr>db_nodes := ?N\<rparr>"] by auto
  have "db_ok db' \<and> db_nodes db' = ?N \<and> db_local_node_id db' = db_local_node_id db
      \<and> db_local_sequence db' = db_local_sequence db"
    by (rule compute_routes_db_ok[OF _ _ db']; rule db_wf_insert_node[OF assms(1)]) simp_all
  moreover have "process_topology_update now u db = Some (True, db')"
    using assms(2) db'
    by (auto simp: process_topology_update_def update_fresh_def MAX_TOPOLOGY_AGE_SECS_def
        word_less_nat_alt unat_sat_sub Let_def split: option.splits)
  ultimately show thesis using that[of db'] by simp
qed

text \<open>What one update does to the link-state database, whether it is taken or not.\<close>

definition apply_update :: "u64 \<Rightarrow> topology_update \<Rightarrow> bool \<Rightarrow> (node_id \<Rightarrow> node_info option)
    \<Rightarrow> node_id \<Rightarrow> node_info option" where
  "apply_update now u b m n =
     (if b \<and> n = tu_originator_node u
      then Some \<lparr>nd_node_id = n, nd_sequence_number = tu_sequence_number u,
                 nd_last_updated = now, nd_neighbors = links_of now (tu_neighbors u) []\<rparr>
      else m n)"

lemma process_topology_update_effect:
  assumes "db_wf db"
  obtains db' where "process_topology_update now u db = Some (update_fresh now u db, db')"
    and "db_wf db'"
    and "\<And>n. hm_get (db_nodes db') n = apply_update now u (update_fresh now u db) (hm_get (db_nodes db)) n"
proof (cases "update_fresh now u db")
  case True
  show thesis
    by (rule process_topology_update_fresh[OF assms True])
      (use that True in \<open>auto simp: apply_update_def db_ok_def\<close>)
next
  case False
  with that[of db] assms process_topology_update_stale[OF False] show thesis
    by (simp add: apply_update_def)
qed

lemma update_fresh_cong:
  "hm_get (db_nodes db) (tu_originator_node u) = hm_get (db_nodes db') (tu_originator_node u) \<Longrightarrow>
   update_fresh now u db = update_fresh now u db'"
  by (simp add: update_fresh_def)

lemma fold_hm_remove_subset: "set (fold hm_remove ks m) \<subseteq> set m"
proof (induction ks arbitrary: m)
  case (Cons k ks)
  then show ?case by (fastforce simp: hm_remove_def)
qed simp

text \<open>An entry of another node that was not refreshed for more than five minutes.\<close>

definition expired :: "u64 \<Rightarrow> topology_database \<Rightarrow> node_id \<Rightarrow> bool" where
  "expired now db n \<longleftrightarrow> n \<noteq> db_local_node_id db \<and>
     (\<exists>i. hm_get (db_nodes db) n = Some i \<and> unat (nd_last_updated i) + 300 < unat now)"

lemma set_stale_nodes:
  assumes "db_wf db"
  shows "set (stale_nodes now db) = {n. expired now db n}"
proof -
  have mem: "(n, i) \<in> set (db_nodes db) \<longleftrightarrow> hm_get (db_nodes db) n = Some i" for n i
    using assms hm_get_mem[of "db_nodes db"] hm_get_Some_mem[of "db_nodes db"]
    unfolding db_wf_def by blast
  have age: "MAX_TOPOLOGY_AGE_SECS < sat_sub now t \<longleftrightarrow> unat t + 300 < unat now" for t
    by (auto simp: MAX_TOPOLOGY_AGE_SECS_def word_less_nat_alt unat_sat_sub)
  have "n \<in> set (stale_nodes now db) \<longleftrightarrow> (\<exists>i. (n, i) \<in> set (db_nodes db) \<and>
      n \<noteq> db_local_node_id db \<and> MAX_TOPOLOGY_AGE_SECS < sat_sub now (nd_last_updated i))" for n
    unfolding stale_nodes_def set_map set_filter image_iff by (auto split: prod.splits)
  then show ?thesis by (simp only: expired_def mem age set_eq_iff mem_Collect_eq) blast
qed

lemma cleanup_old_entries_ok:
  assumes "db_ok db"
  obtains db' where "cleanup_old_entries now db = Some db'" and "db_ok db'"
    and "\<And>n. hm_get (db_nodes db') n = (if expired now db n then None else hm_get (db_nodes db) n)"
    and "db_local_node_id db' = db_local_node_id db"
    and "db_local_sequence db' = db_local_sequence db"
proof -
  have wf: "db_wf db" using assms by (simp add: db_ok_def)
  let ?N = "fold hm_remove (stale_nodes now db) (db_nodes db)"
  show thesis
  proof (cases "stale_nodes now db = []")
    case True
    then have "\<not> expired now db n" for n using set_stale_nodes[OF wf, of now] by auto
    with True assms that[of db] show thesis by (simp add: cleanup_old_entries_def)
  next
    case False
    obtain db' where db': "compute_routes (db\<lparr>db_nodes := ?N\<rparr>) = Some db'"
      using compute_routes_total[of "db\<lparr>db_nodes := ?N\<rparr>"] by auto
    have "db_ok db' \<and> db_nodes db' = ?N \<and> db_local_node_id db' = db_local_node_id db
        \<and> db_local_sequence db' = db_local_sequence db"
      by (rule compute_routes_db_ok[OF _ _ db'])
        (use wf fold_hm_remove_subset[of "stale_nodes now db" "db_nodes db"] in
          \<open>auto simp: db_wf_def intro: hm_wf_fold_remove\<close>)
    with False db' that[of db'] show thesis
      by (simp add: cleanup_old_entries_def hm_get_fold_remove set_stale_nodes[OF wf])
  qed
qed

section \<open>Reachable databases\<close>

inductive topo_step :: "topology_database \<Rightarrow> topology_database \<Rightarrow> bool" where
  step_local: "update_local_neighbors now now' ns db = Some (u, db') \<Longrightarrow> topo_step db db'"
| step_receive: "process_topology_update now u db = Some (b, db') \<Longrightarrow> topo_step db db'"
| step_cleanup: "cleanup_old_entries now db = Some db' \<Longrightarrow> topo_step db db'"

inductive topo_reachable :: "node_id \<Rightarrow> topology_database \<Rightarrow> bool" for n where
  reach_new: "topo_reachable n (topology_database_new n)"
| reach_step: "topo_reachable n db \<Longrightarrow> topo_step db db' \<Longrightarrow> topo_reachable n db'"

inductive_cases topo_stepE: "topo_step db db'"

lemma topo_step_db_ok:
  assumes "topo_step db db'" and "db_ok db"
  shows "db_ok db' \<and> db_local_node_id db' = db_local_node_id db"
  using assms(1)
proof (cases rule: topo_step.cases)
  case (step_local now now' ns u)
  then show ?thesis
    by (rule_tac update_local_neighbors_ok[of db now now' ns]) (use assms(2) in \<open>auto simp: db_ok_def\<close>)
next
  case (step_receive now u b)
  show ?thesis
  proof (cases "update_fresh now u db")
    case True
    show ?thesis
      by (rule process_topology_update_fresh[OF _ True])
        (use assms(2) step_receive in \<open>auto simp: db_ok_def\<close>)
  qed (use process_topology_update_stale[of now u db] assms(2) step_receive in auto)
next
  case (step_cleanup now)
  then show ?thesis by (rule_tac cleanup_old_entries_ok[OF assms(2), of now]) auto
qed

lemma topo_reachable_ok: "topo_reachable n db \<Longrightarrow> db_ok db \<and> db_local_node_id db = n"
proof (induction rule: topo_reachable.induct)
  case reach_new
  show ?case by (simp add: db_ok_new) (simp add: topology_database_new_def)
qed (use topo_step_db_ok in blast)

lemma topo_ops_return:
  assumes "topo_reachable n db"
  shows "update_local_neighbors now now' ns db \<noteq> None"
    and "process_topology_update now u db \<noteq> None"
    and "cleanup_old_entries now db \<noteq> None"
proof -
  have ok: "db_ok db" "db_wf db" using topo_reachable_ok[OF assms] by (auto simp: db_ok_def)
  show "update_local_neighbors now now' ns db \<noteq> None"
    by (rule update_local_neighbors_ok[OF ok(2), of now now' ns]) simp
  show "process_topology_update now u db \<noteq> None"
    using process_topology_update_stale[of now u db]
    by (cases "update_fresh now u db") (rule process_topology_update_fresh[OF ok(2), of now u], auto)
  show "cleanup_old_entries now db \<noteq> None"
    by (rule cleanup_old_entries_ok[OF ok(1), of now]) simp
qed

section \<open>Forwarding\<close>

lemma min_cost_unique: "min_cost N u c v \<Longrightarrow> min_cost N u c' v \<Longrightarrow> c = c'"
  unfolding min_cost_def by (meson antisym)

lemma walk_same_links:
  assumes "same_links N N'" and "walk N u c n v"
  shows "walk N' u c n v"
  using assms(2)
proof (induction rule: walk.induct)
  case (walk_snoc u c n v x w)
  then show ?case using assms(1) by (auto simp: same_links_def intro: walk.walk_snoc)
qed (rule walk_refl)

lemma same_links_sym: "same_links N N' \<Longrightarrow> same_links N' N"
  by (simp add: same_links_def)

lemma routes_ok_same_links:
  assumes "routes_ok db" and "same_links (db_nodes db) N"
  shows "get_route db dst = Some r \<Longrightarrow> route_ok N (db_local_node_id db) dst r"
    and "get_route db dst \<noteq> None \<longleftrightarrow>
      dst \<noteq> db_local_node_id db \<and> (\<exists>c n. walk N (db_local_node_id db) c n dst \<and> c < 2 ^ 32 - 1)"
proof -
  have walk: "walk (db_nodes db) u c n v \<longleftrightarrow> walk N u c n v" for u c n v
    using walk_same_links[OF assms(2)] walk_same_links[OF same_links_sym[OF assms(2)]] by blast
  have edge: "edge (db_nodes db) u v w \<longleftrightarrow> edge N u v w" for u v w
    using assms(2) by (simp add: same_links_def)
  show "get_route db dst = Some r \<Longrightarrow> route_ok N (db_local_node_id db) dst r"
    using assms(1) by (simp add: routes_ok_def route_ok_def min_cost_def walk edge)
  show "get_route db dst \<noteq> None \<longleftrightarrow>
      dst \<noteq> db_local_node_id db \<and> (\<exists>c n. walk N (db_local_node_id db) c n dst \<and> c < 2 ^ 32 - 1)"
    using assms(1) unfolding routes_ok_def walk by metis
qed

lemma converged_routes:
  assumes "converged V N D" and "s \<in> V"
  shows "get_route (D s) dst = Some r \<Longrightarrow> route_ok N s dst r \<and> cr_next_hop r \<in> V"
    and "get_route (D s) dst \<noteq> None \<longleftrightarrow> dst \<noteq> s \<and> (\<exists>c n. walk N s c n dst \<and> c < 2 ^ 32 - 1)"
proof -
  have D: "routes_ok (D s)" "same_links (db_nodes (D s)) N" "db_local_node_id (D s) = s" "\<And>x w. edge N s x w \<Longrightarrow> x \<in> V"
    using assms by (auto simp: converged_def)
  note routes = routes_ok_same_links[OF D(1,2), unfolded D(3)]
  show "get_route (D s) dst = Some r \<Longrightarrow> route_ok N s dst r \<and> cr_next_hop r \<in> V"
    using routes(1)[of dst r] D(4) by (auto simp: route_ok_def)
  show "get_route (D s) dst \<noteq> None \<longleftrightarrow> dst \<noteq> s \<and> (\<exists>c n. walk N s c n dst \<and> c < 2 ^ 32 - 1)" by (rule routes(2))
qed

lemma converged_next_hop:
  assumes "converged V N D" and "positive_costs N" and "s \<in> V" and "get_route (D s) dst = Some r"
    and "cr_next_hop r \<noteq> dst"
  obtains r' where "get_route (D (cr_next_hop r)) dst = Some r'"
    and "unat (cr_total_cost r') < unat (cr_total_cost r)"
proof -
  let ?h = "cr_next_hop r"
  have s: "route_ok N s dst r" "?h \<in> V" using converged_routes(1)[OF assms(1,3,4)] by simp_all
  then obtain w c n where h: "edge N s ?h w" "walk N ?h c n dst" "unat (cr_total_cost r) = w + c"
    by (auto simp: route_ok_def)
  have w: "0 < w" using assms(2) h(1) by (auto simp: positive_costs_def)
  have "c < 2 ^ 32 - 1" using h(3) w u32_le_MAX[of "cr_total_cost r"] by linarith
  then have "get_route (D ?h) dst \<noteq> None"
    using converged_routes(2)[OF assms(1) s(2), of dst] h(2) assms(5) by metis
  then obtain r' where r': "get_route (D ?h) dst = Some r'" by auto
  then have "min_cost N ?h (unat (cr_total_cost r')) dst"
    using converged_routes(1)[OF assms(1) s(2)] by (auto simp: route_ok_def)
  then have "unat (cr_total_cost r') \<le> c" using h(2) by (auto simp: min_cost_def)
  with that[OF r'] h(3) w show thesis by simp
qed

text \<open>Every node visited after the first is the destination or strictly cheaper to go from.\<close>

lemma forward_path_reaches:
  assumes "converged V N D" and "positive_costs N" and "s \<in> V" and "get_route (D s) dst = Some r"
    and "unat (cr_total_cost r) \<le> k"
  shows "\<exists>path. forward_path D k s dst = Some (s # path) \<and> distinct (s # path)
    \<and> last (s # path) = dst
    \<and> (\<forall>v\<in>set path. v = dst \<or> (\<exists>r'. get_route (D v) dst = Some r'
          \<and> unat (cr_total_cost r') < unat (cr_total_cost r)))"
  using assms(3-5)
proof (induction k arbitrary: s r)
  case 0
  then obtain w c n where "edge N s (cr_next_hop r) w" "unat (cr_total_cost r) = w + c"
    using converged_routes(1)[OF assms(1) 0(1,2)] by (auto simp: route_ok_def)
  with 0(3) assms(2) show ?case by (auto simp: positive_costs_def)
next
  case (Suc k)
  let ?h = "cr_next_hop r"
  have h: "?h \<in> V" using converged_routes(1)[OF assms(1) Suc.prems(1,2)] by simp
  have sd: "s \<noteq> dst" using converged_routes(2)[OF assms(1) Suc.prems(1), of dst] Suc.prems(2) by auto
  show ?case
  proof (cases "?h = dst")
    case True
    then have "forward_path D k ?h dst = Some [dst]" by (cases k) auto
    then show ?thesis using Suc.prems(2) sd by simp
  next
    case False
    obtain r' where r': "get_route (D ?h) dst = Some r'"
      "unat (cr_total_cost r') < unat (cr_total_cost r)"
      by (rule converged_next_hop[OF assms(1,2) Suc.prems(1,2) False])
    from Suc.IH[OF h r'(1)] r'(2) Suc.prems(3) obtain path where
      path: "forward_path D k ?h dst = Some (?h # path)" "distinct (?h # path)"
        "last (?h # path) = dst"
      and less: "\<forall>v\<in>set path. v = dst \<or> (\<exists>r''. get_route (D v) dst = Some r''
          \<and> unat (cr_total_cost r'') < unat (cr_total_cost r'))"
      by auto
    have all: "v = dst \<or> (\<exists>r''. get_route (D v) dst = Some r''
        \<and> unat (cr_total_cost r'') < unat (cr_total_cost r))" if "v \<in> set (?h # path)" for v
      using that r' less by fastforce
    have "s \<notin> set (?h # path)" using all[of s] sd Suc.prems(2) by auto
    then have "forward_path D (Suc k) s dst = Some (s # ?h # path) \<and> distinct (s # ?h # path)
        \<and> last (s # ?h # path) = dst"
      using path sd Suc.prems(2) by simp
    with all show ?thesis by (intro exI[of _ "?h # path"]) simp
  qed
qed

section \<open>A three-node network\<close>

lemmas topo_eval = update_local_neighbors_def process_topology_update_def next_sequence_number_def
  compute_routes_def dijkstra_loop.simps walk_back.simps topology_database_new_def dist_of_def
  sat_add_def sat_sub_def u32_MAX_def hm_get_def hm_keys_def MAX_TOPOLOGY_AGE_SECS_def
  DEFAULT_TOPOLOGY_TTL_def topology_update_new_def get_route_def is_newer_than_def

definition ex_links :: "neighbor_info list" where
  "ex_links = [\<lparr>ni_node_id = 2, ni_cost = 5, ni_addr = None\<rparr>, \<lparr>ni_node_id = 3, ni_cost = 20, ni_addr = None\<rparr>]"

definition ex_update :: topology_update where
  "ex_update = topology_update_new 11 2 1 [\<lparr>ni_node_id = 3, ni_cost = 4, ni_addr = None\<rparr>] 8"

lemma ex_run:
  obtains u db db' where "update_local_neighbors 10 10 ex_links (topology_database_new 1) = Some (u, db)"
    and "process_topology_update 12 ex_update db = Some (True, db')"
    and "get_route db 3 = Some \<lparr>cr_dst_node = 3, cr_next_hop = 3, cr_total_cost = 20, cr_hop_count = 1\<rparr>"
    and "get_route db' 3 = Some \<lparr>cr_dst_node = 3, cr_next_hop = 2, cr_total_cost = 9, cr_hop_count = 2\<rparr>"
  by (simp add: topo_eval ex_links_def ex_update_def)


definition ex_lsdb :: lsdb where
  "ex_lsdb =
     [(1, \<lparr>nd_node_id = 1, nd_sequence_number = 1, nd_last_updated = 10,
           nd_neighbors = links_of 10 ex_links []\<rparr>),
      (2, \<lparr>nd_node_id = 2, nd_sequence_number = 1, nd_last_updated = 12,
           nd_neighbors = links_of 12 (tu_neighbors ex_update) []\<rparr>)]"

definition ex_net :: "node_id \<Rightarrow> topology_database" where
  "ex_net v = the (compute_routes
     \<lparr>db_local_node_id = v, db_nodes = ex_lsdb, db_routes = [], db_local_sequence = 2\<rparr>)"

lemma ex_lsdb_positive: "positive_costs ex_lsdb"
  by (auto simp: positive_costs_def edge_def ex_lsdb_def ex_links_def ex_update_def
      topology_update_new_def hm_get_def split: if_splits)

section \<open>Properties\<close>

text \<open>
  C7: In every database that can arise from the empty one, whatever the order of local changes,
  received updates and clean-ups, the routes are exactly the minimum-cost walks of the advertised
  graph that cost less than \<open>u32::MAX\<close>: a destination has a route if and only if such a walk
  exists, the route has its cost, and its next hop begins one.
\<close>

theorem reachable_routes_shortest:
  assumes "topo_reachable n db"
  shows "db_local_node_id db = n
    \<and> (get_route db dst \<noteq> None \<longleftrightarrow>
         dst \<noteq> n \<and> (\<exists>c k. walk (db_nodes db) n c k dst \<and> c < 2 ^ 32 - 1))
    \<and> (\<forall>r. get_route db dst = Some r \<longrightarrow>
         min_cost (db_nodes db) n (unat (cr_total_cost r)) dst
         \<and> (\<exists>w c k. edge (db_nodes db) n (cr_next_hop r) w
              \<and> walk (db_nodes db) (cr_next_hop r) c k dst
              \<and> unat (cr_total_cost r) = w + c \<and> cr_hop_count r = word_of_nat (Suc k)))"
  using topo_reachable_ok[OF assms] by (auto simp: db_ok_def routes_ok_def route_ok_def)

theorem reachable_routes_shortest_witness:
  "\<exists>db. topo_reachable 1 db \<and> min_cost (db_nodes db) 1 9 3"
proof -
  obtain u db db' where "update_local_neighbors 10 10 ex_links (topology_database_new 1) = Some (u, db)"
    and "process_topology_update 12 ex_update db = Some (True, db')"
    and r: "get_route db' 3 =
      Some \<lparr>cr_dst_node = 3, cr_next_hop = 2, cr_total_cost = 9, cr_hop_count = 2\<rparr>"
    by (rule ex_run)
  then have "topo_reachable 1 db'"
    by (blast intro: reach_new reach_step step_local step_receive)
  with reachable_routes_shortest[of 1 db' 3] r show ?thesis by (intro exI[of _ db']) simp
qed

text \<open>
  The operations on a reachable database always return: neither the main loop nor the walk
  back along \<open>previous\<close> can run forever, for any topology, any costs and any clock.
\<close>

lemma topology_ops_terminate:
  assumes "topo_reachable n db"
  shows "(\<exists>u db'. update_local_neighbors now now' ns db = Some (u, db'))
    \<and> (\<exists>b db'. process_topology_update now u db = Some (b, db'))
    \<and> (\<exists>db'. cleanup_old_entries now db = Some db')"
  using topo_ops_return(1)[OF assms, of now now' ns] topo_ops_return(2)[OF assms, of now u]
    topo_ops_return(3)[OF assms, of now] by auto

text \<open>
  C14: When the nodes of a mesh compute their routes from the same links, however each of them came to know them, no link leads out of the mesh and every
  cost is positive, then forwarding hop by hop along the computed next hops has no loop and arrives: a destination to which links lead
  at a cost of \<open>c\<close> below \<open>u32::MAX\<close> is reached within \<open>c\<close> hops, over a path that visits no node twice.
\<close>

theorem forwarding_loop_free:
  assumes "\<forall>v\<in>V. \<exists>db. compute_routes db = Some (D v) \<and> db_local_node_id db = v \<and> same_links (db_nodes db) N"
    and "\<forall>v\<in>V. \<forall>x w. edge N v x w \<longrightarrow> x \<in> V" and "positive_costs N"
    and "s \<in> V" and "walk N s c k dst" and "c < 2 ^ 32 - 1"
  shows "\<exists>path. forward_path D c s dst = Some path \<and> distinct path \<and> hd path = s \<and> last path = dst"
proof -
  have conv: "converged V N D" unfolding converged_def
  proof
    fix v assume v: "v \<in> V"
    with assms(1) obtain db where db: "compute_routes db = Some (D v)" "db_local_node_id db = v" "same_links (db_nodes db) N" by blast
    from compute_routes_ok[of db] db assms(2) v
    show "db_local_node_id (D v) = v \<and> same_links (db_nodes (D v)) N \<and> routes_ok (D v) \<and> (\<forall>x w. edge N v x w \<longrightarrow> x \<in> V)"
      by (metis option.inject)
  qed
  show ?thesis
  proof (cases "s = dst")
    case True
    then have "forward_path D c s dst = Some [s]" by (cases c) simp_all
    with True show ?thesis by simp
  next
    case False
    with converged_routes(2)[OF conv assms(4), of dst] assms(5,6) obtain r where r: "get_route (D s) dst = Some r" by auto
    from converged_routes(1)[OF conv assms(4) r] assms(5) have "unat (cr_total_cost r) \<le> c"
      by (auto simp: route_ok_def min_cost_def)
    from forward_path_reaches[OF conv assms(3,4) r this] show ?thesis by auto
  qed
qed

text \<open>The direct link from 1 to 3 costs twenty; the path that is taken leads over 2.\<close>

theorem forwarding_loop_free_witness:
  "\<exists>path. forward_path ex_net 20 1 3 = Some path \<and> distinct path \<and> hd path = 1 \<and> last path = 3"
proof -
  have D: "\<forall>v\<in>UNIV. \<exists>db. compute_routes db = Some (ex_net v) \<and> db_local_node_id db = v \<and> same_links (db_nodes db) ex_lsdb"
  proof
    fix v :: node_id
    let ?db = "\<lparr>db_local_node_id = v, db_nodes = ex_lsdb, db_routes = [], db_local_sequence = 2\<rparr>"
    obtain db' where "compute_routes ?db = Some db'" by (rule compute_routes_ok)
    then have "compute_routes ?db = Some (ex_net v)" by (simp add: ex_net_def)
    then show "\<exists>db. compute_routes db = Some (ex_net v) \<and> db_local_node_id db = v \<and> same_links (db_nodes db) ex_lsdb"
      by (intro exI[of _ ?db]) (simp add: same_links_def)
  qed
  have "edge ex_lsdb 1 3 20" by (simp add: edge_def ex_lsdb_def ex_links_def hm_get_def)
  then have "walk ex_lsdb 1 (0 + 20) (Suc 0) 3" by (rule walk_snoc[OF walk_refl])
  then have w: "walk ex_lsdb 1 20 (Suc 0) 3" by simp
  show ?thesis by (rule forwarding_loop_free[OF D _ ex_lsdb_positive UNIV_I w]) simp_all
qed

text \<open>
  C33: An update is taken exactly when it is at most five minutes old and newer than what is known
  of its originator. A refused update changes nothing. One that is taken replaces the entry of its
  originator and no other, and from then on the same update, with whatever hop limit it comes back,
  is refused: flooding it again stops here.
\<close>

theorem process_topology_update_spec:
  assumes "db_wf db"
  shows "(\<not> update_fresh now u db \<longrightarrow> process_topology_update now u db = Some (False, db))
    \<and> (update_fresh now u db \<longrightarrow>
        (\<exists>db'. process_topology_update now u db = Some (True, db')
          \<and> (\<forall>n. n \<noteq> tu_originator_node u \<longrightarrow> hm_get (db_nodes db') n = hm_get (db_nodes db) n)
          \<and> (\<exists>i. hm_get (db_nodes db') (tu_originator_node u) = Some i
               \<and> nd_sequence_number i = tu_sequence_number u
               \<and> nd_neighbors i = links_of now (tu_neighbors u) [])
          \<and> process_topology_update later (u\<lparr>tu_ttl := t\<rparr>) db' = Some (False, db')))"
proof (cases "update_fresh now u db")
  case True
  obtain db' where db': "process_topology_update now u db = Some (True, db')" "db_ok db'"
    and nodes: "\<And>n. hm_get (db_nodes db') n =
          (if n = tu_originator_node u
           then Some \<lparr>nd_node_id = n, nd_sequence_number = tu_sequence_number u,
                      nd_last_updated = now, nd_neighbors = links_of now (tu_neighbors u) []\<rparr>
           else hm_get (db_nodes db) n)"
    by (rule process_topology_update_fresh[OF assms True]) blast
  have "\<not> update_fresh later (u\<lparr>tu_ttl := t\<rparr>) db'"
    by (auto simp: update_fresh_def nodes is_newer_than_def)
  then have "process_topology_update later (u\<lparr>tu_ttl := t\<rparr>) db' = Some (False, db')"
    by (rule process_topology_update_stale)
  with True db'(1) nodes show ?thesis by auto
qed (simp add: process_topology_update_stale)

theorem process_topology_update_spec_witness:
  "\<exists>db'. process_topology_update 12 ex_update (topology_database_new 1) = Some (True, db')
    \<and> process_topology_update 13 (ex_update\<lparr>tu_ttl := 7\<rparr>) db' = Some (False, db')"
proof -
  have "db_wf (topology_database_new 1)" using db_ok_new by (simp add: db_ok_def)
  moreover have "update_fresh 12 ex_update (topology_database_new 1)"
    by (simp add: update_fresh_def ex_update_def topology_update_new_def topology_database_new_def)
  ultimately show ?thesis using process_topology_update_spec by blast
qed

text \<open>
  C34: Updates of different originators may be taken in either order: the verdicts and the
  link-state database are the same.
\<close>

theorem process_topology_update_commute:
  assumes "db_wf db" and "tu_originator_node u \<noteq> tu_originator_node v"
    and "process_topology_update now u db = Some (b1, db1)"
    and "process_topology_update now v db1 = Some (b2, db2)"
  shows "\<exists>db1' db2'. process_topology_update now v db = Some (b2, db1')
    \<and> process_topology_update now u db1' = Some (b1, db2')
    \<and> (\<forall>n. hm_get (db_nodes db2') n = hm_get (db_nodes db2) n)"
proof -
  obtain e1 where e1: "process_topology_update now v db = Some (update_fresh now v db, e1)" "db_wf e1"
    "\<And>n. hm_get (db_nodes e1) n = apply_update now v (update_fresh now v db) (hm_get (db_nodes db)) n"
    using process_topology_update_effect[OF assms(1)] by blast
  obtain e2 where e2: "process_topology_update now u e1 = Some (update_fresh now u e1, e2)"
    "\<And>n. hm_get (db_nodes e2) n = apply_update now u (update_fresh now u e1) (hm_get (db_nodes e1)) n"
    using process_topology_update_effect[OF e1(2)] by blast
  have d1: "b1 = update_fresh now u db" "db_wf db1"
    "\<And>n. hm_get (db_nodes db1) n = apply_update now u b1 (hm_get (db_nodes db)) n"
    using process_topology_update_effect[OF assms(1), of now u] assms(3) by auto
  have d2: "b2 = update_fresh now v db1"
    "\<And>n. hm_get (db_nodes db2) n = apply_update now v b2 (hm_get (db_nodes db1)) n"
    using process_topology_update_effect[OF d1(2), of now v] assms(4) by auto
  have "b2 = update_fresh now v db" "update_fresh now u e1 = b1"
    unfolding d1(1) d2(1)
    by (rule update_fresh_cong, use assms(2) in \<open>simp add: d1(3) e1(3) apply_update_def\<close>)+
  with e1 e2 d1 d2 assms(2) show ?thesis
    by (intro exI[of _ e1] exI[of _ e2]) (auto simp: apply_update_def)
qed

theorem process_topology_update_commute_witness:
  "\<exists>b1 b2 db1 db2. process_topology_update 12 (ex_update\<lparr>tu_originator_node := 3\<rparr>)
      (topology_database_new 1) = Some (b2, db1)
    \<and> process_topology_update 12 ex_update db1 = Some (b1, db2)"
proof -
  have wf: "db_wf (topology_database_new 1)" using db_ok_new by (simp add: db_ok_def)
  let ?v = "ex_update\<lparr>tu_originator_node := 3\<rparr>"
  obtain b1 db1 where d1: "process_topology_update 12 ex_update (topology_database_new 1) = Some (b1, db1)"
    "db_wf db1"
    using process_topology_update_effect[OF wf] by metis
  obtain b2 db2 where d2: "process_topology_update 12 ?v db1 = Some (b2, db2)"
    using process_topology_update_effect[OF d1(2)] by metis
  have "tu_originator_node ex_update \<noteq> tu_originator_node ?v"
    by (simp add: ex_update_def topology_update_new_def)
  from process_topology_update_commute[OF wf this d1(1) d2] show ?thesis by blast
qed

text \<open>
  Cleaning up removes exactly the entries of other nodes that are more than five minutes old,
  and afterwards no remaining entry is stale.
\<close>

lemma cleanup_old_entries_spec:
  assumes "db_ok db"
  shows "\<exists>db'. cleanup_old_entries now db = Some db' \<and> routes_ok db'
    \<and> (\<forall>n. hm_get (db_nodes db') n = (if expired now db n then None else hm_get (db_nodes db) n))
    \<and> stale_nodes now db' = []"
proof -
  obtain db' where db': "cleanup_old_entries now db = Some db'" "db_ok db'"
    "\<And>n. hm_get (db_nodes db') n = (if expired now db n then None else hm_get (db_nodes db) n)"
    "db_local_node_id db' = db_local_node_id db"
    by (rule cleanup_old_entries_ok[OF assms, of now]) blast
  have "set (stale_nodes now db') = {}"
    using db' set_stale_nodes[of db' now] by (auto simp: db_ok_def expired_def split: if_splits)
  with db' show ?thesis by (auto simp: db_ok_def)
qed

end
