(* ===== verification/Routing.thy ===== *)
theory Routing
  imports Topology_Ops
begin

text \<open>
  Routing decisions: \<open>mesh-routing/src\<close> (\<open>next_hop.rs\<close>, \<open>ecmp.rs\<close>, \<open>router.rs\<close>,
  \<open>table.rs\<close>). A hop set is a set of equal-cost next hops, the selector picks one of them by a hash
  of the flow, and the routing table decides to deliver, forward or drop and counts what it
  decided. The hasher of the standard library, whose values are not specified, is the parameter
  \<open>hash\<close>, applied to the sequence of integers it is fed.
\<close>

section \<open>Next hops and hop sets\<close>

record next_hop =
  nh_node_id :: node_id
  nh_cost :: u32
  nh_interface :: "string option"

definition next_hop_new :: "node_id \<Rightarrow> u32 \<Rightarrow> next_hop" where
  "next_hop_new n c = \<lparr>nh_node_id = n, nh_cost = c, nh_interface = None\<rparr>"

definition with_interface :: "node_id \<Rightarrow> u32 \<Rightarrow> string \<Rightarrow> next_hop" where
  "with_interface n c i = \<lparr>nh_node_id = n, nh_cost = c, nh_interface = Some i\<rparr>"

text \<open>The \<open>HashSet\<close> of hops is the list of its elements in iteration order.\<close>

record hop_set =
  hs_hops :: "next_hop list"
  hs_cost :: u32

definition set_insert :: "'a \<Rightarrow> 'a list \<Rightarrow> 'a list" where
  "set_insert x xs = (if x \<in> set xs then xs else xs @ [x])"

definition hop_set_new :: "u32 \<Rightarrow> hop_set" where
  "hop_set_new c = \<lparr>hs_hops = [], hs_cost = c\<rparr>"

definition single :: "next_hop \<Rightarrow> hop_set" where
  "single hop = \<lparr>hs_hops = set_insert hop [], hs_cost = nh_cost hop\<rparr>"

definition add_hop :: "next_hop \<Rightarrow> hop_set \<Rightarrow> bool \<times> hop_set" where
  "add_hop hop hs =
     (if nh_cost hop = hs_cost hs then (True, hs\<lparr>hs_hops := set_insert hop (hs_hops hs)\<rparr>)
      else (False, hs))"

definition remove_hop :: "node_id \<Rightarrow> hop_set \<Rightarrow> bool \<times> hop_set" where
  "remove_hop n hs =
     (let hs = hs\<lparr>hs_hops := filter (\<lambda>hop. nh_node_id hop \<noteq> n) (hs_hops hs)\<rparr>
      in (hs_hops hs \<noteq> [], hs))"

definition hop_set_is_empty :: "hop_set \<Rightarrow> bool" where
  "hop_set_is_empty hs = (hs_hops hs = [])"

definition hop_set_len :: "hop_set \<Rightarrow> nat" where
  "hop_set_len hs = length (hs_hops hs)"

definition node_ids :: "hop_set \<Rightarrow> node_id list" where
  "node_ids hs = map nh_node_id (hs_hops hs)"

definition contains_node :: "hop_set \<Rightarrow> node_id \<Rightarrow> bool" where
  "contains_node hs n = list_ex (\<lambda>hop. nh_node_id hop = n) (hs_hops hs)"

text \<open>\<open>iter().map(..).min().unwrap_or(0)\<close>\<close>

definition min_or :: "'a::linorder \<Rightarrow> 'a list \<Rightarrow> 'a" where
  "min_or d xs = (case xs of [] \<Rightarrow> d | x # xs \<Rightarrow> fold min xs x)"

definition hop_set_from_iter :: "next_hop list \<Rightarrow> hop_set" where
  "hop_set_from_iter iter =
     (let hops = fold set_insert iter [];
          cost = min_or 0 (map nh_cost hops)
      in \<lparr>hs_hops = filter (\<lambda>h. nh_cost h = cost) hops, hs_cost = cost\<rparr>)"

section \<open>The ECMP selector\<close>

record ecmp_selector =
  hash_seed :: u64

definition ecmp_selector_new :: ecmp_selector where
  "ecmp_selector_new = \<lparr>hash_seed = 0x517cc1b727220a95\<rparr>"

definition with_seed :: "u64 \<Rightarrow> ecmp_selector" where
  "with_seed s = \<lparr>hash_seed = s\<rparr>"

definition select_hop ::
  "(u64 list \<Rightarrow> u64) \<Rightarrow> ecmp_selector \<Rightarrow> hop_set \<Rightarrow> node_id \<Rightarrow> u64 \<Rightarrow> next_hop option" where
  "select_hop hash sel hs dst corr =
     (if hop_set_is_empty hs then None
      else let h = hash [hash_seed sel, dst, corr];
               hops = sort_key nh_node_id (hs_hops hs);
               index = unat h mod length hops
           in Some (hops ! index))"

definition select_hop_simple ::
  "(u64 list \<Rightarrow> u64) \<Rightarrow> ecmp_selector \<Rightarrow> hop_set \<Rightarrow> node_id \<Rightarrow> next_hop option" where
  "select_hop_simple hash sel hs dst = select_hop hash sel hs dst 0"

record ecmp_decision =
  ed_next_hop :: next_hop
  ed_total_hops :: nat
  ed_cost :: u32

definition ecmp_decision_new :: "next_hop \<Rightarrow> nat \<Rightarrow> u32 \<Rightarrow> ecmp_decision" where
  "ecmp_decision_new h n c = \<lparr>ed_next_hop = h, ed_total_hops = n, ed_cost = c\<rparr>"

section \<open>Decisions\<close>

datatype drop_reason = NoRoute | TtlExpired | InvalidDestination | RoutingLoop | AdminProhibited

datatype routing_decision = Forward ecmp_decision | Local | Drop drop_reason

primrec drop_reason_to_string :: "drop_reason \<Rightarrow> string" where
  "drop_reason_to_string NoRoute = ''no route to destination''"
| "drop_reason_to_string TtlExpired = ''TTL expired''"
| "drop_reason_to_string InvalidDestination = ''invalid destination''"
| "drop_reason_to_string RoutingLoop = ''routing loop detected''"
| "drop_reason_to_string AdminProhibited = ''administratively prohibited''"

record routing_context =
  rc_src_node :: node_id
  rc_dst_node :: node_id
  rc_ttl :: u8
  rc_corr_id :: u64
  rc_route_class :: u32
  rc_partition :: u32
  rc_epoch :: u32

definition routing_context_new :: "node_id \<Rightarrow> node_id \<Rightarrow> u8 \<Rightarrow> u64 \<Rightarrow> routing_context" where
  "routing_context_new src dst ttl corr =
     \<lparr>rc_src_node = src, rc_dst_node = dst, rc_ttl = ttl, rc_corr_id = corr, rc_route_class = 0,
      rc_partition = 0, rc_epoch = 0\<rparr>"

definition context_decrement_ttl :: "routing_context \<Rightarrow> routing_context option" where
  "context_decrement_ttl ctx =
     (if rc_ttl ctx > 0 then Some (ctx\<lparr>rc_ttl := rc_ttl ctx - 1\<rparr>) else None)"

definition is_ttl_expired :: "routing_context \<Rightarrow> bool" where
  "is_ttl_expired ctx = (rc_ttl ctx = 0)"

record router_stats =
  rs_local_node_id :: node_id
  rs_total_routes :: nat
  rs_decisions_made :: u64
  rs_packets_forwarded :: u64
  rs_packets_local :: u64
  rs_packets_dropped :: u64
  rs_drop_reasons :: "(string, u64) hmap"

definition router_stats_new :: "node_id \<Rightarrow> router_stats" where
  "router_stats_new n =
     \<lparr>rs_local_node_id = n, rs_total_routes = 0, rs_decisions_made = 0, rs_packets_forwarded = 0,
      rs_packets_local = 0, rs_packets_dropped = 0, rs_drop_reasons = []\<rparr>"

record route_update =
  ru_destination :: node_id
  ru_hop_set :: "hop_set option"
  ru_epoch :: u32

definition route_update_new :: "node_id \<Rightarrow> hop_set \<Rightarrow> u32 \<Rightarrow> route_update" where
  "route_update_new d hs e = \<lparr>ru_destination = d, ru_hop_set = Some hs, ru_epoch = e\<rparr>"

definition route_update_remove :: "node_id \<Rightarrow> u32 \<Rightarrow> route_update" where
  "route_update_remove d e = \<lparr>ru_destination = d, ru_hop_set = None, ru_epoch = e\<rparr>"

section \<open>The routing table\<close>

record routing_table =
  rt_local_node_id :: node_id
  rt_routes :: "(node_id, hop_set) hmap"
  rt_ecmp_selector :: ecmp_selector
  rt_current_epoch :: u32
  rt_stats :: router_stats
  rt_decisions_counter :: u64
  rt_forwards_counter :: u64
  rt_local_counter :: u64
  rt_drops_counter :: u64

definition routing_table_new :: "node_id \<Rightarrow> routing_table" where
  "routing_table_new n =
     \<lparr>rt_local_node_id = n, rt_routes = [], rt_ecmp_selector = ecmp_selector_new,
      rt_current_epoch = 0, rt_stats = router_stats_new n, rt_decisions_counter = 0,
      rt_forwards_counter = 0, rt_local_counter = 0, rt_drops_counter = 0\<rparr>"

fun insert_computed :: "(node_id \<times> computed_route) list \<Rightarrow> (node_id, hop_set) hmap
    \<Rightarrow> (node_id, hop_set) hmap" where
  "insert_computed [] m = m"
| "insert_computed ((dst, cr) # crs) m =
     insert_computed crs
       (hm_insert dst (single (next_hop_new (cr_next_hop cr) (cr_total_cost cr))) m)"

definition update_routes_from_topology ::
  "(node_id, computed_route) hmap \<Rightarrow> routing_table \<Rightarrow> routing_table" where
  "update_routes_from_topology computed_routes t =
     (let routes = hm_retain (\<lambda>dst _. dst = rt_local_node_id t) (rt_routes t)
      in t\<lparr>rt_routes := insert_computed computed_routes routes,
           rt_current_epoch := rt_current_epoch t + 1\<rparr>)"

definition set_total_routes :: "nat \<Rightarrow> routing_table \<Rightarrow> routing_table" where
  "set_total_routes n t = t\<lparr>rt_stats := (rt_stats t)\<lparr>rs_total_routes := n\<rparr>\<rparr>"

definition add_route :: "node_id \<Rightarrow> hop_set \<Rightarrow> routing_table \<Rightarrow> routing_table" where
  "add_route dst hs t =
     (let t = t\<lparr>rt_routes := hm_insert dst hs (rt_routes t)\<rparr>
      in set_total_routes (length (rt_routes t)) t)"

definition remove_route :: "node_id \<Rightarrow> routing_table \<Rightarrow> routing_table" where
  "remove_route dst t =
     (if hm_contains (rt_routes t) dst
      then let t = t\<lparr>rt_routes := hm_remove dst (rt_routes t)\<rparr>
           in set_total_routes (length (rt_routes t)) t
      else t)"

definition table_get_route :: "routing_table \<Rightarrow> node_id \<Rightarrow> hop_set option" where
  "table_get_route t dst = hm_get (rt_routes t) dst"

definition get_all_routes :: "routing_table \<Rightarrow> (node_id \<times> hop_set) list" where
  "get_all_routes t = rt_routes t"

definition clear_routes :: "routing_table \<Rightarrow> routing_table" where
  "clear_routes t = set_total_routes 0 (t\<lparr>rt_routes := []\<rparr>)"

definition get_epoch :: "routing_table \<Rightarrow> u32" where
  "get_epoch t = rt_current_epoch t"

definition set_epoch :: "u32 \<Rightarrow> routing_table \<Rightarrow> routing_table" where
  "set_epoch e t = t\<lparr>rt_current_epoch := e\<rparr>"

definition increment_epoch :: "routing_table \<Rightarrow> u32 \<times> routing_table" where
  "increment_epoch t = (let e = rt_current_epoch t + 1 in (e, t\<lparr>rt_current_epoch := e\<rparr>))"

definition update_stats :: "routing_decision \<Rightarrow> routing_table \<Rightarrow> routing_table" where
  "update_stats decision t =
     (let t = t\<lparr>rt_decisions_counter := rt_decisions_counter t + 1\<rparr>
      in case decision of
           Forward _ \<Rightarrow> t\<lparr>rt_forwards_counter := rt_forwards_counter t + 1\<rparr>
         | Local \<Rightarrow> t\<lparr>rt_local_counter := rt_local_counter t + 1\<rparr>
         | Drop reason \<Rightarrow>
             let t = t\<lparr>rt_drops_counter := rt_drops_counter t + 1\<rparr>;
                 reasons = rs_drop_reasons (rt_stats t);
                 reason_str = drop_reason_to_string reason
             in t\<lparr>rt_stats := (rt_stats t)
                   \<lparr>rs_drop_reasons :=
                      hm_insert reason_str (get_or 0 (hm_get reasons reason_str) + 1) reasons\<rparr>\<rparr>)"

definition decide ::
  "(u64 list \<Rightarrow> u64) \<Rightarrow> routing_table \<Rightarrow> routing_context \<Rightarrow> routing_decision \<times> routing_table" where
  "decide hash t ctx =
     (if rc_dst_node ctx = rt_local_node_id t then (Local, update_stats Local t)
      else if is_ttl_expired ctx then (Drop TtlExpired, update_stats (Drop TtlExpired) t)
      else case table_get_route t (rc_dst_node ctx) of
             Some hs \<Rightarrow>
               (case select_hop hash (rt_ecmp_selector t) hs (rc_dst_node ctx) (rc_corr_id ctx) of
                  Some next_hop \<Rightarrow>
                    let decision = Forward (ecmp_decision_new next_hop (hop_set_len hs) (hs_cost hs))
                    in (decision, update_stats decision t)
                | None \<Rightarrow> (Drop NoRoute, update_stats (Drop NoRoute) t))
           | None \<Rightarrow> (Drop NoRoute, update_stats (Drop NoRoute) t))"

definition is_reachable :: "routing_table \<Rightarrow> node_id \<Rightarrow> bool" where
  "is_reachable t dst = (if dst = rt_local_node_id t then True else hm_contains (rt_routes t) dst)"

definition router_get_stats :: "routing_table \<Rightarrow> router_stats \<times> routing_table" where
  "router_get_stats t =
     (let stats = (rt_stats t)
            \<lparr>rs_decisions_made := rt_decisions_counter t,
             rs_packets_forwarded := rt_forwards_counter t,
             rs_packets_local := rt_local_counter t,
             rs_packets_dropped := rt_drops_counter t,
             rs_total_routes := length (rt_routes t)\<rparr>
      in (stats, t\<lparr>rt_stats := stats\<rparr>))"

text \<open>The loop of \<open>update_routes\<close>; \<open>current_epoch\<close> is read once, before it.\<close>

fun update_routes_loop :: "u32 \<Rightarrow> route_update list \<Rightarrow> routing_table \<Rightarrow> routing_table" where
  "update_routes_loop current_epoch [] t = t"
| "update_routes_loop current_epoch (u # us) t =
     update_routes_loop current_epoch us
       (if ru_epoch u \<ge> current_epoch
        then let t = (if ru_epoch u > current_epoch then set_epoch (ru_epoch u) t else t)
             in case ru_hop_set u of
                  Some hs \<Rightarrow> add_route (ru_destination u) hs t
                | None \<Rightarrow> remove_route (ru_destination u) t
        else t)"

definition update_routes :: "route_update list \<Rightarrow> routing_table \<Rightarrow> routing_table" where
  "update_routes updates t = update_routes_loop (get_epoch t) updates t"

section \<open>Specification\<close>

text \<open>A table whose maps have one entry per key and whose counters add up.\<close>

definition reason_total :: "(string, u64) hmap \<Rightarrow> u64" where
  "reason_total m = sum_list (map snd m)"

definition table_ok :: "routing_table \<Rightarrow> bool" where
  "table_ok t \<longleftrightarrow>
     hm_wf (rt_routes t) \<and> hm_wf (rs_drop_reasons (rt_stats t))
     \<and> rt_decisions_counter t = rt_forwards_counter t + rt_local_counter t + rt_drops_counter t
     \<and> reason_total (rs_drop_reasons (rt_stats t)) = rt_drops_counter t"

text \<open>The updates of a batch that are not stale.\<close>

definition applicable :: "u32 \<Rightarrow> route_update list \<Rightarrow> route_update list" where
  "applicable e us = filter (\<lambda>u. e \<le> ru_epoch u) us"

text \<open>The last update of a list for a destination.\<close>

definition last_for :: "node_id \<Rightarrow> route_update list \<Rightarrow> route_update option" where
  "last_for dst us = find (\<lambda>u. ru_destination u = dst) (rev us)"

section \<open>The router interface\<close>

text \<open>
  The trait \<open>Router\<close>: deciding depends on the routes only, and changes no route. A client that makes
  many decisions may make them in any order.
\<close>

locale router =
  fixes dec :: "'s \<Rightarrow> routing_context \<Rightarrow> routing_decision \<times> 's"
    and local_id :: "'s \<Rightarrow> node_id"
    and reachable :: "'s \<Rightarrow> node_id \<Rightarrow> bool"
    and same_routes :: "'s \<Rightarrow> 's \<Rightarrow> bool"
  assumes dec_local: "rc_dst_node c = local_id s \<longleftrightarrow> fst (dec s c) = Local"
    and dec_ttl: "rc_dst_node c \<noteq> local_id s \<Longrightarrow> rc_ttl c = 0 \<Longrightarrow> fst (dec s c) = Drop TtlExpired"
    and dec_forward: "fst (dec s c) = Forward d \<Longrightarrow> reachable s (rc_dst_node c)"
    and dec_same: "same_routes s (snd (dec s c))"
    and same_dec: "same_routes s s' \<Longrightarrow> fst (dec s' c) = fst (dec s c)"
    and same_trans: "same_routes s s' \<Longrightarrow> same_routes s' s'' \<Longrightarrow> same_routes s s''"
    and same_refl: "same_routes s s"
begin

primrec dec_all :: "'s \<Rightarrow> routing_context list \<Rightarrow> routing_decision list \<times> 's" where
  "dec_all s [] = ([], s)"
| "dec_all s (c # cs) =
     (let (d, s') = dec s c; (ds, s'') = dec_all s' cs in (d # ds, s''))"

lemma dec_all_fst: "fst (dec_all s cs) = map (\<lambda>c. fst (dec s c)) cs \<and> same_routes s (snd (dec_all s cs))"
proof (induction cs arbitrary: s)
  case (Cons c cs)
  let ?s = "snd (dec s c)"
  have "map (\<lambda>c. fst (dec ?s c)) cs = map (\<lambda>c. fst (dec s c)) cs"
    by (simp only: same_dec[OF dec_same])
  with Cons[of ?s] same_trans[OF dec_same, of s c "snd (dec_all ?s cs)"] show ?case
    by (simp only: dec_all.simps split_def Let_def fst_conv snd_conv list.map simp_thms)
qed (simp add: same_refl)

lemma unreachable_dropped:
  assumes "\<not> reachable s (rc_dst_node c)"
  shows "fst (dec s c) = Local \<or> (\<exists>r. fst (dec s c) = Drop r)"
proof (cases "fst (dec s c)")
  case (Forward d)
  with assms dec_forward show ?thesis by metis
qed simp_all

end

section \<open>Lemmas on hop sets and the selector\<close>

lemma set_set_insert [simp]: "set (set_insert x xs) = insert x (set xs)"
  by (auto simp: set_insert_def)

lemma distinct_set_insert [simp]: "distinct xs \<Longrightarrow> distinct (set_insert x xs)"
  by (auto simp: set_insert_def)

lemma set_fold_set_insert: "set (fold set_insert ys xs) = set xs \<union> set ys"
  by (induction ys arbitrary: xs) auto

lemma distinct_fold_set_insert: "distinct xs \<Longrightarrow> distinct (fold set_insert ys xs)"
  by (induction ys arbitrary: xs) auto

lemma min_or_Min: "xs \<noteq> [] \<Longrightarrow> min_or d xs = Min (set xs)"
proof (cases xs)
  case (Cons y ys)
  then have "min_or d xs \<in> set xs" "\<forall>z\<in>set xs. min_or d xs \<le> z"
    using fold_min_mem[of ys y] fold_min_le[of _ y ys] by (auto simp: min_or_def)
  then show ?thesis by (intro Min_eqI[symmetric]) auto
qed simp

lemma hop_set_from_iter_hops:
  "set (hs_hops (hop_set_from_iter iter)) =
     {h \<in> set iter. nh_cost h = (if iter = [] then 0 else Min (nh_cost ` set iter))}
   \<and> distinct (hs_hops (hop_set_from_iter iter))"
proof (cases "iter = []")
  case False
  let ?hops = "fold set_insert iter []"
  have s: "set ?hops = set iter" by (simp add: set_fold_set_insert)
  with False have "map nh_cost ?hops \<noteq> []" by (metis list.map_disc_iff set_empty)
  then have "min_or 0 (map nh_cost ?hops) = Min (nh_cost ` set iter)"
    using s by (simp add: min_or_Min)
  with False show ?thesis
    by (simp add: hop_set_from_iter_def Let_def distinct_fold_set_insert s)
qed (simp add: hop_set_from_iter_def)

lemma select_hop_mem: "select_hop hash sel hs dst corr = Some h \<Longrightarrow> h \<in> set (hs_hops hs)"
  using nth_mem[of "unat (hash [hash_seed sel, dst, corr]) mod length (hs_hops hs)"
      "sort_key nh_node_id (hs_hops hs)"]
  by (cases "hs_hops hs = []") (simp_all add: select_hop_def hop_set_is_empty_def Let_def)

lemma select_hop_None: "select_hop hash sel hs dst corr = None \<longleftrightarrow> hs_hops hs = []"
  by (simp add: select_hop_def hop_set_is_empty_def Let_def)

lemma select_hop_order:
  assumes "mset (hs_hops hs) = mset (hs_hops hs')" and "inj_on nh_node_id (set (hs_hops hs))"
  shows "select_hop hash sel hs dst corr = select_hop hash sel hs' dst corr"
proof -
  have "sort_key nh_node_id (hs_hops hs) = sort_key nh_node_id (hs_hops hs')"
    by (rule sort_key_inj_key_eq) (use assms in simp_all)
  moreover have "hs_hops hs = [] \<longleftrightarrow> hs_hops hs' = []"
    using assms(1) by (metis mset_zero_iff)
  ultimately show ?thesis by (simp add: select_hop_def hop_set_is_empty_def)
qed

section \<open>Lemmas on the table\<close>

lemma reason_total_insert:
  "hm_wf m \<Longrightarrow> reason_total (hm_insert k (get_or 0 (hm_get m k) + 1) m) = reason_total m + 1"
proof (induction m)
  case (Cons kv m)
  obtain k' v where "kv = (k', v)" by (cases kv)
  with Cons show ?case
    by (cases "k' = k") (auto simp: reason_total_def hm_get_Cons hm_wf_def)
qed (simp add: reason_total_def)

lemma table_ok_new: "table_ok (routing_table_new n)"
  by (simp add: table_ok_def routing_table_new_def router_stats_new_def reason_total_def)

lemma table_ok_update_stats: "table_ok t \<Longrightarrow> table_ok (update_stats d t)"
  by (cases d) (auto simp: table_ok_def update_stats_def Let_def reason_total_insert)

lemma snd_decide: "snd (decide hash t ctx) = update_stats (fst (decide hash t ctx)) t"
  by (simp add: decide_def Let_def split: option.split)

lemma table_ok_decide: "table_ok t \<Longrightarrow> table_ok (snd (decide hash t ctx))"
  by (simp add: snd_decide table_ok_update_stats)

lemma hm_wf_insert_computed: "hm_wf m \<Longrightarrow> hm_wf (insert_computed crs m)"
  by (induction crs m rule: insert_computed.induct) auto

lemma table_ok_ops:
  assumes "table_ok t"
  shows "table_ok (add_route d hs t)" "table_ok (remove_route d t)" "table_ok (clear_routes t)"
    "table_ok (set_epoch e t)" "table_ok (snd (increment_epoch t))"
    "table_ok (snd (router_get_stats t))" "table_ok (update_routes_from_topology crs t)"
  using assms
  by (simp_all add: table_ok_def add_route_def remove_route_def clear_routes_def set_epoch_def
      increment_epoch_def router_get_stats_def set_total_routes_def update_routes_from_topology_def
      Let_def hm_wf_insert_computed)

lemma table_ok_update_routes_loop: "table_ok t \<Longrightarrow> table_ok (update_routes_loop e us t)"
  by (induction e us t rule: update_routes_loop.induct)
    (auto simp: Let_def table_ok_ops split: option.splits)

lemma update_stats_routes [simp]:
  "rt_routes (update_stats d t) = rt_routes t"
  "rt_local_node_id (update_stats d t) = rt_local_node_id t"
  "rt_ecmp_selector (update_stats d t) = rt_ecmp_selector t"
  "rt_current_epoch (update_stats d t) = rt_current_epoch t"
  by (simp_all add: update_stats_def Let_def split: routing_decision.split)

lemma decide_routes [simp]:
  "rt_routes (snd (decide hash t ctx)) = rt_routes t"
  "rt_local_node_id (snd (decide hash t ctx)) = rt_local_node_id t"
  "rt_ecmp_selector (snd (decide hash t ctx)) = rt_ecmp_selector t"
  "rt_current_epoch (snd (decide hash t ctx)) = rt_current_epoch t"
  by (simp_all add: snd_decide)

definition same_table :: "routing_table \<Rightarrow> routing_table \<Rightarrow> bool" where
  "same_table t t' \<longleftrightarrow> rt_routes t' = rt_routes t \<and> rt_local_node_id t' = rt_local_node_id t
     \<and> rt_ecmp_selector t' = rt_ecmp_selector t"

lemma fst_decide:
  "fst (decide hash t ctx) =
     (if rc_dst_node ctx = rt_local_node_id t then Local
      else if rc_ttl ctx = 0 then Drop TtlExpired
      else case hm_get (rt_routes t) (rc_dst_node ctx) of
             None \<Rightarrow> Drop NoRoute
           | Some hs \<Rightarrow>
               (case select_hop hash (rt_ecmp_selector t) hs (rc_dst_node ctx) (rc_corr_id ctx) of
                  None \<Rightarrow> Drop NoRoute
                | Some h \<Rightarrow> Forward (ecmp_decision_new h (hop_set_len hs) (hs_cost hs))))"
  by (simp add: decide_def is_ttl_expired_def table_get_route_def Let_def split: option.split)

interpretation rt: router "decide hash" rt_local_node_id is_reachable same_table for hash
proof
  fix s c
  show "rc_dst_node c = rt_local_node_id s \<longleftrightarrow> fst (decide hash s c) = Local"
    by (simp add: fst_decide split: option.split)
  show "is_reachable s (rc_dst_node c)" if "fst (decide hash s c) = Forward d" for d
    using that by (simp add: fst_decide is_reachable_def hm_contains_def split: option.splits if_splits)
qed (simp_all add: same_table_def fst_decide cong: option.case_cong)

lemma table_get_route_ops [simp]:
  "table_get_route (add_route d hs t) x = (if x = d then Some hs else table_get_route t x)"
  "table_get_route (remove_route d t) x = (if x = d then None else table_get_route t x)"
  "table_get_route (set_epoch e t) x = table_get_route t x"
  by (auto simp: table_get_route_def add_route_def remove_route_def set_epoch_def
      set_total_routes_def Let_def hm_contains_def)

lemma rt_epoch_ops [simp]:
  "rt_current_epoch (add_route d hs t) = rt_current_epoch t"
  "rt_current_epoch (remove_route d t) = rt_current_epoch t"
  "rt_current_epoch (set_epoch e t) = e"
  by (auto simp: add_route_def remove_route_def set_epoch_def set_total_routes_def Let_def)

lemma find_append: "find p (xs @ ys) = (case find p xs of None \<Rightarrow> find p ys | Some x \<Rightarrow> Some x)"
  by (induction xs) auto

lemma last_for_Cons:
  "last_for dst (u # us) = (case last_for dst us of
     None \<Rightarrow> if ru_destination u = dst then Some u else None | Some v \<Rightarrow> Some v)"
  by (simp add: last_for_def find_append split: option.split)

lemma update_routes_loop_get:
  "table_get_route (update_routes_loop e us t) dst =
     (case last_for dst (applicable e us) of
        None \<Rightarrow> table_get_route t dst
      | Some u \<Rightarrow> ru_hop_set u)"
proof (induction us arbitrary: t)
  case (Cons u us)
  show ?case
  proof (cases "last_for dst (applicable e us)")
    case None
    then show ?thesis
      by (cases "e \<le> ru_epoch u"; cases "ru_hop_set u"; cases "ru_destination u = dst")
        (simp_all add: Cons.IH applicable_def last_for_Cons Let_def)
  next
    case (Some v)
    then show ?thesis by (simp add: Cons.IH applicable_def last_for_Cons)
  qed
qed (simp add: last_for_def applicable_def)

lemma update_routes_loop_epoch:
  "rt_current_epoch (update_routes_loop e us t) =
     last (rt_current_epoch t # filter (\<lambda>x. e < x) (map ru_epoch us))"
proof (induction us arbitrary: t)
  case (Cons u us)
  then show ?case
    by (cases "e < ru_epoch u"; cases "e \<le> ru_epoch u"; cases "ru_hop_set u") (simp_all add: Let_def)
qed simp

lemma insert_computed_get:
  "hm_wf crs \<Longrightarrow> hm_get (insert_computed crs m) dst =
     (case hm_get crs dst of
        None \<Rightarrow> hm_get m dst
      | Some cr \<Rightarrow> Some (single (next_hop_new (cr_next_hop cr) (cr_total_cost cr))))"
proof (induction crs m rule: insert_computed.induct)
  case (2 d cr crs m)
  then have "hm_wf crs" "hm_get crs d = None" by (auto simp: hm_wf_def hm_get_None_iff)
  with 2 show ?case by (auto simp: hm_get_Cons split: option.splits)
qed simp

lemma update_routes_from_topology_get:
  assumes "hm_wf crs" and "hm_wf (rt_routes t)" and "dst \<noteq> rt_local_node_id t"
  shows "table_get_route (update_routes_from_topology crs t) dst =
    map_option (\<lambda>cr. single (next_hop_new (cr_next_hop cr) (cr_total_cost cr))) (hm_get crs dst)"
  using assms
  by (auto simp: update_routes_from_topology_def table_get_route_def insert_computed_get Let_def
      hm_get_retain split: option.splits)

section \<open>Reachable tables\<close>

inductive table_upkeep :: "routing_table \<Rightarrow> routing_table \<Rightarrow> bool" where
  "table_upkeep t (update_routes us t)"
| "table_upkeep t (update_routes_from_topology crs t)"
| "table_upkeep t (add_route d hs t)"
| "table_upkeep t (remove_route d t)"
| "table_upkeep t (clear_routes t)"
| "table_upkeep t (set_epoch e t)"
| "table_upkeep t (snd (increment_epoch t))"
| "table_upkeep t (snd (router_get_stats t))"

inductive table_step :: "routing_table \<Rightarrow> routing_table \<Rightarrow> bool" where
  table_decides: "table_step t (snd (decide hash t ctx))"
| table_kept: "table_upkeep t t' \<Longrightarrow> table_step t t'"

inductive table_reachable :: "node_id \<Rightarrow> routing_table \<Rightarrow> bool" for n where
  table_new: "table_reachable n (routing_table_new n)"
| table_next: "table_reachable n t \<Longrightarrow> table_step t t' \<Longrightarrow> table_reachable n t'"

lemma table_upkeep_ok: "table_upkeep t t' \<Longrightarrow> table_ok t \<Longrightarrow> table_ok t'"
  by (induction rule: table_upkeep.induct)
    (simp_all add: table_ok_ops update_routes_def table_ok_update_routes_loop)

lemma table_step_ok: "table_step t t' \<Longrightarrow> table_ok t \<Longrightarrow> table_ok t'"
  by (induction rule: table_step.induct) (simp_all add: table_ok_decide table_upkeep_ok)

lemma table_reachable_ok: "table_reachable n t \<Longrightarrow> table_ok t"
  by (induction rule: table_reachable.induct) (auto simp: table_ok_new intro: table_step_ok)

text \<open>The epoch can go back within a batch: the comparison is with the epoch before the batch.\<close>

lemma update_routes_epoch_regress:
  "let t = set_epoch 1 (routing_table_new 7);
       us = [route_update_remove 2 5, route_update_remove 3 3]
   in get_epoch (update_routes (take 1 us) t) = 5 \<and> get_epoch (update_routes us t) = 3"
  by (simp add: update_routes_def get_epoch_def update_routes_loop_epoch route_update_remove_def)

text \<open>Taking routes from the topology leaves the counter \<open>total_routes\<close> behind.\<close>

lemma topology_routes_not_counted:
  "let t = update_routes_from_topology
         [(2, \<lparr>cr_dst_node = 2, cr_next_hop = 2, cr_total_cost = 5, cr_hop_count = 1\<rparr>)]
         (routing_table_new 1)
   in length (rt_routes t) = 1 \<and> rs_total_routes (rt_stats t) = 0"
  by (simp add: update_routes_from_topology_def routing_table_new_def hm_retain_def
      router_stats_new_def)

section \<open>Properties\<close>

text \<open>
  The selector returns a hop exactly when there is one, and it is a member of the set. When the
  members have different node identifiers, the choice depends only on the set and the flow, not on
  the order in which the hash set is iterated: a flow keeps its path.
\<close>

lemma select_hop_spec:
  "(select_hop hash sel hs dst corr = None \<longleftrightarrow> hop_set_is_empty hs)
   \<and> (\<forall>h. select_hop hash sel hs dst corr = Some h \<longrightarrow> h \<in> set (hs_hops hs))
   \<and> (\<forall>hs'. set (hs_hops hs') = set (hs_hops hs) \<and> distinct (hs_hops hs) \<and> distinct (hs_hops hs')
        \<and> inj_on nh_node_id (set (hs_hops hs))
        \<longrightarrow> select_hop hash sel hs' dst corr = select_hop hash sel hs dst corr)"
proof (intro conjI allI impI)
  fix hs' :: hop_set
  assume "set (hs_hops hs') = set (hs_hops hs) \<and> distinct (hs_hops hs) \<and> distinct (hs_hops hs')
    \<and> inj_on nh_node_id (set (hs_hops hs))"
  then show "select_hop hash sel hs' dst corr = select_hop hash sel hs dst corr"
    by (intro select_hop_order) (simp_all flip: set_eq_iff_mset_eq_distinct)
qed (simp_all add: select_hop_None hop_set_is_empty_def select_hop_mem)

text \<open>
  Collecting hops keeps exactly the cheapest ones, each once, and records their cost.
\<close>

lemma hop_set_from_iter_spec:
  "set (hs_hops (hop_set_from_iter iter)) = {h \<in> set iter. \<forall>h' \<in> set iter. nh_cost h \<le> nh_cost h'}
   \<and> distinct (hs_hops (hop_set_from_iter iter))
   \<and> (\<forall>h \<in> set (hs_hops (hop_set_from_iter iter)). nh_cost h = hs_cost (hop_set_from_iter iter))"
proof (cases "iter = []")
  case False
  have "nh_cost h = Min (nh_cost ` set iter) \<longleftrightarrow> (\<forall>h' \<in> set iter. nh_cost h \<le> nh_cost h')"
    if "h \<in> set iter" for h
  proof
    assume "\<forall>h' \<in> set iter. nh_cost h \<le> nh_cost h'"
    then have "Min (nh_cost ` set iter) = nh_cost h" using that by (intro Min_eqI) auto
    then show "nh_cost h = Min (nh_cost ` set iter)" by simp
  qed simp
  then have "{h \<in> set iter. nh_cost h = Min (nh_cost ` set iter)} =
      {h \<in> set iter. \<forall>h' \<in> set iter. nh_cost h \<le> nh_cost h'}" by blast
  with hop_set_from_iter_hops[of iter] False
  have "set (hs_hops (hop_set_from_iter iter)) = {h \<in> set iter. \<forall>h' \<in> set iter. nh_cost h \<le> nh_cost h'}
      \<and> distinct (hs_hops (hop_set_from_iter iter))"
    by (simp only: if_False simp_thms)
  moreover have "nh_cost h = hs_cost (hop_set_from_iter iter)"
    if "h \<in> set (hs_hops (hop_set_from_iter iter))" for h
    using that by (simp add: hop_set_from_iter_def Let_def)
  ultimately show ?thesis by blast
qed (simp add: hop_set_from_iter_def)

text \<open>A table with the decisions that were taken on it so far, whatever else was done to it in between.\<close>

inductive table_decided :: "node_id \<Rightarrow> routing_decision list \<Rightarrow> routing_table \<Rightarrow> bool" for n where
  decided_new: "table_decided n [] (routing_table_new n)"
| decided_next: "table_decided n ds t \<Longrightarrow> decide hash t ctx = (d, t') \<Longrightarrow> table_decided n (ds @ [d]) t'"
| decided_kept: "table_decided n ds t \<Longrightarrow> table_upkeep t t' \<Longrightarrow> table_decided n ds t'"

definition times :: "('a \<Rightarrow> bool) \<Rightarrow> 'a list \<Rightarrow> u64" where
  "times P xs = word_of_nat (length (filter P xs))"

lemma times_simps [simp]: "times P [] = 0" "times P (xs @ [x]) = times P xs + (if P x then 1 else 0)"
  by (simp_all add: times_def)

definition reason_count :: "routing_table \<Rightarrow> drop_reason \<Rightarrow> u64" where
  "reason_count t reason = get_or 0 (hm_get (rs_drop_reasons (rt_stats t)) (drop_reason_to_string reason))"

definition counts :: "routing_decision list \<Rightarrow> routing_table \<Rightarrow> bool" where
  "counts ds t \<longleftrightarrow> rt_decisions_counter t = times (\<lambda>_. True) ds
     \<and> rt_forwards_counter t = times (\<lambda>d. \<exists>e. d = Forward e) ds
     \<and> rt_local_counter t = times (\<lambda>d. d = Local) ds
     \<and> rt_drops_counter t = times (\<lambda>d. \<exists>reason. d = Drop reason) ds
     \<and> (\<forall>reason. reason_count t reason = times (\<lambda>d. d = Drop reason) ds)"

lemma drop_reason_to_string_inject [simp]: "drop_reason_to_string x = drop_reason_to_string y \<longleftrightarrow> x = y"
  by (cases x; cases y) simp_all

lemma counts_update_stats: "counts ds t \<Longrightarrow> counts (ds @ [d]) (update_stats d t)"
  by (cases d) (auto simp: counts_def update_stats_def reason_count_def Let_def get_or_def)

lemma counts_update_routes_loop: "counts ds (update_routes_loop e us t) = counts ds t"
  by (induction e us t rule: update_routes_loop.induct)
    (auto simp: counts_def reason_count_def add_route_def remove_route_def set_epoch_def set_total_routes_def Let_def split: option.split)

lemma counts_upkeep: "table_upkeep t t' \<Longrightarrow> counts ds t \<Longrightarrow> counts ds t'"
  by (induction rule: table_upkeep.induct)
    (simp_all add: update_routes_def counts_update_routes_loop, simp_all add: counts_def reason_count_def add_route_def
      remove_route_def clear_routes_def set_epoch_def increment_epoch_def router_get_stats_def set_total_routes_def
      update_routes_from_topology_def Let_def)

lemma table_decided_counts: "table_decided n ds t \<Longrightarrow> counts ds t \<and> table_ok t"
proof (induction rule: table_decided.induct)
  case decided_new
  then show ?case by (simp add: table_ok_new) (simp add: counts_def reason_count_def routing_table_new_def router_stats_new_def get_or_def)
next
  case (decided_next ds t hash ctx d t')
  from decided_next(2) have "d = fst (decide hash t ctx)" "t' = update_stats d t" using snd_decide[of hash t ctx] by simp_all
  with decided_next(3) show ?case by (simp add: counts_update_stats table_ok_update_stats)
qed (simp add: counts_upkeep table_upkeep_ok)

text \<open>
  C40: Every decision of a routing table is counted, once and under what was decided. Whatever was done with a table, its statistics report
  as many decisions as were taken, as many forwarded, delivered locally and dropped as there were decisions to forward, to deliver
  and to drop, and for each reason as many as were dropped for it, all as 64-bit numbers that wrap around; and as many routes as it has.
\<close>

theorem router_counters_add_up:
  assumes "table_decided n ds t"
  shows "\<exists>stats t'. router_get_stats t = (stats, t')
    \<and> rs_decisions_made stats = word_of_nat (length ds)
    \<and> rs_packets_forwarded stats = word_of_nat (length (filter (\<lambda>d. \<exists>e. d = Forward e) ds))
    \<and> rs_packets_local stats = word_of_nat (length (filter (\<lambda>d. d = Local) ds))
    \<and> rs_packets_dropped stats = word_of_nat (length (filter (\<lambda>d. \<exists>reason. d = Drop reason) ds))
    \<and> (\<forall>reason. get_or 0 (hm_get (rs_drop_reasons stats) (drop_reason_to_string reason))
         = word_of_nat (length (filter (\<lambda>d. d = Drop reason) ds)))
    \<and> rs_total_routes stats = card (set (hm_keys (rt_routes t)))"
proof -
  have "counts ds t" and ok: "table_ok t" using table_decided_counts[OF assms] by simp_all
  moreover have "card (set (hm_keys (rt_routes t))) = length (rt_routes t)"
    using ok by (simp add: table_ok_def hm_wf_def distinct_card) (simp add: hm_keys_def)
  ultimately show ?thesis by (simp add: counts_def router_get_stats_def reason_count_def times_def Let_def)
qed

text \<open>A packet for the node itself, one whose time to live is over, and one for an unknown node.\<close>

theorem router_counters_add_up_witness:
  "\<exists>t stats t'. table_decided 7 [Local, Drop TtlExpired, Drop NoRoute] t \<and> router_get_stats t = (stats, t')
     \<and> rs_decisions_made stats = 3 \<and> rs_packets_local stats = 1 \<and> rs_packets_dropped stats = 2
     \<and> hm_get (rs_drop_reasons stats) ''TTL expired'' = Some 1"
proof -
  let ?t0 = "routing_table_new 7"
  let ?t1 = "update_stats Local ?t0"
  let ?t2 = "update_stats (Drop TtlExpired) ?t1"
  let ?t3 = "update_stats (Drop NoRoute) ?t2"
  have d: "decide (\<lambda>_. 0) ?t0 (routing_context_new 1 7 5 0) = (Local, ?t1)"
    "decide (\<lambda>_. 0) ?t1 (routing_context_new 1 2 0 0) = (Drop TtlExpired, ?t2)"
    "decide (\<lambda>_. 0) ?t2 (routing_context_new 1 2 5 0) = (Drop NoRoute, ?t3)"
    by (simp_all add: decide_def update_stats_def routing_context_new_def routing_table_new_def table_get_route_def
        is_ttl_expired_def Let_def)
  have t: "table_decided 7 [Local, Drop TtlExpired, Drop NoRoute] ?t3"
    using decided_next[OF decided_next[OF decided_next[OF decided_new d(1)] d(2)] d(3)] by simp
  obtain stats t' where s: "router_get_stats ?t3 = (stats, t')" "rs_decisions_made stats = 3" "rs_packets_local stats = 1"
      "rs_packets_dropped stats = 2"
    using router_counters_add_up[OF t] by auto
  have "hm_get (rs_drop_reasons stats) ''TTL expired'' = Some 1"
    using s(1) by (auto simp: router_get_stats_def update_stats_def routing_table_new_def router_stats_new_def get_or_def hm_get_Cons Let_def)
  with t s show ?thesis by blast
qed

text \<open>
  A batch of route updates leaves at every destination what the last update for it says, among
  those that are not older than the epoch before the batch, and leaves other destinations alone. The
  new epoch is that of the last update newer than the epoch before the batch.
\<close>

lemma update_routes_spec:
  "table_get_route (update_routes us t) dst =
     (case last_for dst (applicable (get_epoch t) us) of
        None \<Rightarrow> table_get_route t dst
      | Some u \<Rightarrow> ru_hop_set u)
   \<and> get_epoch (update_routes us t) =
       last (get_epoch t # filter (\<lambda>e. get_epoch t < e) (map ru_epoch us))
   \<and> get_epoch t \<le> get_epoch (update_routes us t)"
proof -
  let ?es = "filter (\<lambda>e. get_epoch t < e) (map ru_epoch us)"
  have "last (get_epoch t # ?es) \<in> set (get_epoch t # ?es)" by (rule last_in_set) simp
  then have "get_epoch t \<le> last (get_epoch t # ?es)" by auto
  then show ?thesis
    using update_routes_loop_get[of "get_epoch t" us t dst] update_routes_loop_epoch[of "get_epoch t" us t]
    by (simp only: update_routes_def get_epoch_def)
qed

text \<open>
  C15: After the routes of a reachable topology database are taken over, a packet for another node
  whose hop limit is not used up is forwarded to the next hop on a cheapest path when there is one,
  at its cost, and dropped for want of a route otherwise.
\<close>

theorem decide_follows_shortest_path:
  assumes "topo_reachable n db" and "table_reachable n t" and "rt_local_node_id t = n"
    and "rc_dst_node ctx \<noteq> n" and "rc_ttl ctx \<noteq> 0"
  shows "case fst (decide hash (update_routes_from_topology (get_routes db) t) ctx) of
      Forward d \<Rightarrow>
        min_cost (db_nodes db) n (unat (ed_cost d)) (rc_dst_node ctx)
        \<and> (\<exists>w c k. edge (db_nodes db) n (nh_node_id (ed_next_hop d)) w
             \<and> walk (db_nodes db) (nh_node_id (ed_next_hop d)) c k (rc_dst_node ctx)
             \<and> unat (ed_cost d) = w + c)
    | Drop r \<Rightarrow> r = NoRoute \<and> \<not> (\<exists>c k. walk (db_nodes db) n c k (rc_dst_node ctx) \<and> c < 2 ^ 32 - 1)
    | Local \<Rightarrow> False"
proof -
  let ?dst = "rc_dst_node ctx" and ?t = "update_routes_from_topology (get_routes db) t"
  have ok: "db_ok db" "db_local_node_id db = n" using topo_reachable_ok[OF assms(1)] by auto
  have lookup: "hm_get (rt_routes ?t) ?dst =
      map_option (\<lambda>cr. single (next_hop_new (cr_next_hop cr) (cr_total_cost cr))) (get_route db ?dst)"
    using update_routes_from_topology_get[of "get_routes db" t ?dst] ok table_reachable_ok[OF assms(2)] assms(3,4)
    by (simp add: get_routes_def get_route_def table_get_route_def db_ok_def db_wf_def table_ok_def)
  have loc: "rt_local_node_id ?t = n"
    using assms(3) by (simp add: update_routes_from_topology_def Let_def)
  show ?thesis
  proof (cases "get_route db ?dst")
    case None
    then have "\<not> (\<exists>c k. walk (db_nodes db) n c k ?dst \<and> c < 2 ^ 32 - 1)"
      using ok assms(4) unfolding db_ok_def routes_ok_def by metis
    with None show ?thesis using assms(4,5) lookup loc by (simp add: fst_decide)
  next
    case (Some cr)
    then have "route_ok (db_nodes db) n ?dst cr" using ok by (auto simp: db_ok_def routes_ok_def)
    then show ?thesis
      using assms(4,5) lookup loc Some
      by (auto simp: fst_decide select_hop_def hop_set_is_empty_def single_def set_insert_def
          next_hop_new_def ecmp_decision_new_def route_ok_def)
  qed
qed

theorem decide_follows_shortest_path_witness:
  "fst (decide (\<lambda>_. 0) (update_routes_from_topology (get_routes (topology_database_new 1))
      (routing_table_new 1)) (routing_context_new 1 2 16 0)) = Drop NoRoute"
proof -
  let ?d = "fst (decide (\<lambda>_. 0) (update_routes_from_topology (get_routes (topology_database_new 1))
      (routing_table_new 1)) (routing_context_new 1 2 16 0))"
  have "case ?d of
      Forward d \<Rightarrow>
        min_cost (db_nodes (topology_database_new 1)) 1 (unat (ed_cost d)) (rc_dst_node (routing_context_new 1 2 16 0))
        \<and> (\<exists>w c k. edge (db_nodes (topology_database_new 1)) 1 (nh_node_id (ed_next_hop d)) w
             \<and> walk (db_nodes (topology_database_new 1)) (nh_node_id (ed_next_hop d)) c k
                 (rc_dst_node (routing_context_new 1 2 16 0))
             \<and> unat (ed_cost d) = w + c)
    | Drop r \<Rightarrow> r = NoRoute \<and> \<not> (\<exists>c k. walk (db_nodes (topology_database_new 1)) 1 c k
        (rc_dst_node (routing_context_new 1 2 16 0)) \<and> c < 2 ^ 32 - 1)
    | Local \<Rightarrow> False"
    by (rule decide_follows_shortest_path[OF reach_new table_new])
      (simp_all add: routing_table_new_def routing_context_new_def)
  then show ?thesis
    by (auto simp: edge_def topology_database_new_def split: routing_decision.splits)
qed

end
