(* ===== verification/Storage.thy ===== *)
theory Storage
  imports Routing
begin

text \<open>
  The storage traits of \<open>mesh-storage/src/lib.rs\<close>: the write-ahead log of a sender and the
  deduplication of a receiver. Each trait is a locale with the laws its clients rely on; what the
  session layer needs (a replay returns exactly what was appended, a message is handed over once)
  is proved here from the laws. The backends interpret the locales in their own theories.
\<close>

section \<open>Data\<close>

type_synonym peer = u64

text \<open>A frame to append; the cached length is used for accounting only.\<close>

record wal_frame =
  wf_msg_id :: u64
  wf_bytes :: bytes
  wf_approx_len :: nat

record ack_state =
  cum_acked :: u64

definition ack_state_default :: ack_state where
  "ack_state_default = \<lparr>cum_acked = 0\<rparr>"

datatype storage_error =
    Io | Corruption string | NotFound | Invalid string | Backend string | Serialization

record wal_entry =
  we_msg_id :: u64
  we_bytes :: bytes

section \<open>The write-ahead log\<close>

text \<open>
  \<open>range\<close> takes the identifier to start after and an optional limit. \<open>inv\<close> is the invariant of
  the backend and \<open>fits\<close> the frames it can store.
\<close>

locale wal =
  fixes inv :: "'s \<Rightarrow> bool"
    and fits :: "wal_frame \<Rightarrow> bool"
    and append :: "peer \<Rightarrow> wal_frame \<Rightarrow> 's \<Rightarrow> (storage_error, unit) outcome \<times> 's"
    and range :: "'s \<Rightarrow> peer \<Rightarrow> u64 \<Rightarrow> nat option \<Rightarrow> (storage_error, wal_entry list) outcome"
    and truncate :: "peer \<Rightarrow> u64 \<Rightarrow> 's \<Rightarrow> (storage_error, unit) outcome \<times> 's"
    and last_appended :: "'s \<Rightarrow> peer \<Rightarrow> (storage_error, u64) outcome"
    and load_ack :: "'s \<Rightarrow> peer \<Rightarrow> (storage_error, ack_state) outcome"
    and store_ack :: "peer \<Rightarrow> ack_state \<Rightarrow> 's \<Rightarrow> (storage_error, unit) outcome \<times> 's"
  assumes append_ok: "inv s \<Longrightarrow> fits f \<Longrightarrow> fst (append p f s) = Ok () \<and> inv (snd (append p f s))"
    and truncate_ok: "inv s \<Longrightarrow> fst (truncate p n s) = Ok () \<and> inv (snd (truncate p n s))"
    and store_ok: "inv s \<Longrightarrow> fst (store_ack p a s) = Ok () \<and> inv (snd (store_ack p a s))"
    and range_ok: "inv s \<Longrightarrow> \<exists>xs. range s p n None = Ok xs"
    and range_append: "inv s \<Longrightarrow> fits f \<Longrightarrow> range s q n None = Ok xs \<Longrightarrow>
      range (snd (append p f s)) q n None =
        Ok (xs @ (if q = p \<and> n < wf_msg_id f
                  then [\<lparr>we_msg_id = wf_msg_id f, we_bytes = wf_bytes f\<rparr>] else []))"
    and range_truncate: "inv s \<Longrightarrow> m \<le> n \<or> q \<noteq> p \<Longrightarrow>
      range (snd (truncate p m s)) q n None = range s q n None"
    and range_store: "inv s \<Longrightarrow> range (snd (store_ack p a s)) q n None = range s q n None"
    and range_limit: "inv s \<Longrightarrow> range s p n None = Ok xs \<Longrightarrow>
      range s p n (Some l) = Ok (take (max 1 l) xs)"
    and last_ok: "inv s \<Longrightarrow> \<exists>i. last_appended s p = Ok i"
    and load_ok: "inv s \<Longrightarrow> \<exists>a. load_ack s p = Ok a"
    and last_append: "inv s \<Longrightarrow> fits f \<Longrightarrow>
      last_appended (snd (append p f s)) q = (if q = p then Ok (wf_msg_id f) else last_appended s q)"
    and load_store: "inv s \<Longrightarrow>
      load_ack (snd (store_ack p a s)) q = (if q = p then Ok a else load_ack s q)"
    and load_append: "inv s \<Longrightarrow> fits f \<Longrightarrow> load_ack (snd (append p f s)) q = load_ack s q"
begin

text \<open>What a sender does to its log: the appends, truncations and acknowledgements, in order.\<close>

primrec run :: "(peer \<times> wal_frame + peer \<times> u64 + peer \<times> ack_state) list \<Rightarrow> 's \<Rightarrow> 's" where
  "run [] s = s"
| "run (op # ops) s = run ops
     (case op of
        Inl (p, f) \<Rightarrow> snd (append p f s)
      | Inr (Inl (p, n)) \<Rightarrow> snd (truncate p n s)
      | Inr (Inr (p, a)) \<Rightarrow> snd (store_ack p a s))"

end

text \<open>The frames a sequence of operations appends for a peer above an identifier, in order.\<close>

fun appended :: "peer \<Rightarrow> u64 \<Rightarrow> (peer \<times> wal_frame + peer \<times> u64 + peer \<times> ack_state) list
    \<Rightarrow> wal_entry list" where
  "appended p n [] = []"
| "appended p n (Inl (q, f) # ops) =
     (if q = p \<and> n < wf_msg_id f then [\<lparr>we_msg_id = wf_msg_id f, we_bytes = wf_bytes f\<rparr>] else [])
     @ appended p n ops"
| "appended p n (Inr x # ops) = appended p n ops"

text \<open>The operations store only frames that fit and truncate only what lies at or below \<open>n\<close>.\<close>

fun replayable :: "(wal_frame \<Rightarrow> bool) \<Rightarrow> peer \<Rightarrow> u64
    \<Rightarrow> (peer \<times> wal_frame + peer \<times> u64 + peer \<times> ack_state) list \<Rightarrow> bool" where
  "replayable fits p n [] = True"
| "replayable fits p n (Inl (q, f) # ops) = (fits f \<and> replayable fits p n ops)"
| "replayable fits p n (Inr (Inl (q, m)) # ops) = ((m \<le> n \<or> q \<noteq> p) \<and> replayable fits p n ops)"
| "replayable fits p n (Inr (Inr x) # ops) = replayable fits p n ops"

context wal
begin

lemma run_replay:
  "inv s \<Longrightarrow> range s p n None = Ok xs \<Longrightarrow> replayable fits p n ops \<Longrightarrow>
     inv (run ops s) \<and> range (run ops s) p n None = Ok (xs @ appended p n ops)"
proof (induction ops arbitrary: s xs)
  case (Cons op ops)
  show ?case
  proof (cases op)
    case (Inl qf)
    obtain q f where qf: "qf = (q, f)" by (cases qf)
    let ?s = "snd (append q f s)"
    have "fits f" using Cons.prems(3) by (simp add: Inl qf)
    then have "inv ?s" using append_ok[OF Cons.prems(1)] by simp
    moreover have "range ?s p n None = Ok (xs @ appended p n [op])"
      using range_append[OF Cons.prems(1) \<open>fits f\<close> Cons.prems(2), of q] by (auto simp: Inl qf)
    ultimately show ?thesis
      using Cons.IH[of ?s "xs @ appended p n [op]"] Cons.prems(3) by (simp add: Inl qf)
  next
    case (Inr x)
    show ?thesis
    proof (cases x)
      case tr: (Inl qm)
      obtain q m where qm: "qm = (q, m)" by (cases qm)
      have "m \<le> n \<or> p \<noteq> q" using Cons.prems(3) by (auto simp: Inr tr qm)
      from range_truncate[OF Cons.prems(1) this] truncate_ok[OF Cons.prems(1)] Cons
      show ?thesis by (simp add: Inr tr qm)
    next
      case st: (Inr qa)
      obtain q a where qa: "qa = (q, a)" by (cases qa)
      from range_store[OF Cons.prems(1)] store_ok[OF Cons.prems(1)] Cons
      show ?thesis by (simp add: Inr st qa)
    qed
  qed
qed simp

lemma replay_limit:
  assumes "inv s" and "range s p n None = Ok xs"
  shows "range s p n (Some l) = Ok (take (max 1 l) xs)"
  using range_limit[OF assms] .

end

section \<open>Deduplication\<close>

text \<open>
  \<open>room m\<close>: the identifier is far enough from the end of its range for the window arithmetic.
\<close>

locale dedup =
  fixes inv :: "'s \<Rightarrow> bool"
    and room :: "u64 \<Rightarrow> bool"
    and window :: nat
    and is_processed :: "'s \<Rightarrow> peer \<Rightarrow> u64 \<Rightarrow> bool"
    and mark :: "peer \<Rightarrow> u64 \<Rightarrow> 's \<Rightarrow> 's"
    and cum :: "'s \<Rightarrow> peer \<Rightarrow> u64"
  assumes inv_mark: "inv s \<Longrightarrow> room m \<Longrightarrow> inv (mark p m s)"
    and cum_processed: "inv s \<Longrightarrow> m \<le> cum s p \<Longrightarrow> is_processed s p m"
    and cum_maximal: "inv s \<Longrightarrow> \<not> is_processed s p (cum s p + 1)"
    and cum_mono: "inv s \<Longrightarrow> room m \<Longrightarrow> cum s q \<le> cum (mark p m s) q"
    and mark_other: "p \<noteq> q \<Longrightarrow>
      is_processed (mark p m s) q x = is_processed s q x \<and> cum (mark p m s) q = cum s q"
    and mark_sound: "inv s \<Longrightarrow> room m \<Longrightarrow> is_processed (mark p m s) p x \<Longrightarrow>
      is_processed s p x \<or> x = m"
    and mark_keeps: "inv s \<Longrightarrow> room m \<Longrightarrow> is_processed s p x \<Longrightarrow> is_processed (mark p m s) p x"
    and mark_marks: "inv s \<Longrightarrow> room m \<Longrightarrow> unat m \<le> unat (cum s p) + window \<Longrightarrow>
      is_processed (mark p m s) p m"
begin

text \<open>What a receiver does with the identifiers it gets: hand over the new ones and mark them.\<close>

primrec deliver_all :: "peer \<Rightarrow> u64 list \<Rightarrow> 's \<Rightarrow> u64 list \<times> 's" where
  "deliver_all p [] s = ([], s)"
| "deliver_all p (m # ms) s =
     (if is_processed s p m then deliver_all p ms s
      else let (ds, s') = deliver_all p ms (mark p m s) in (m # ds, s'))"

lemma mark_window:
  assumes "inv s" and "room m" and "unat x \<le> unat (cum s p) + window"
  shows "unat x \<le> unat (cum (mark p m s) p) + window"
  using assms cum_mono[OF assms(1,2), of p p] by (simp add: word_le_nat_alt)

lemma deliver_all_once:
  assumes "inv s" and "\<forall>m\<in>set ms. room m \<and> unat m \<le> unat (cum s p) + window"
  shows "inv (snd (deliver_all p ms s))
    \<and> distinct (fst (deliver_all p ms s))
    \<and> set (fst (deliver_all p ms s)) = {m \<in> set ms. \<not> is_processed s p m}
    \<and> (\<forall>x. is_processed (snd (deliver_all p ms s)) p x \<longleftrightarrow> is_processed s p x \<or> x \<in> set ms)"
  using assms
proof (induction ms arbitrary: s)
  case (Cons m ms)
  show ?case
  proof (cases "is_processed s p m")
    case False
    let ?s = "mark p m s"
    have m: "room m" "unat m \<le> unat (cum s p) + window" using Cons.prems(2) by auto
    have proc: "is_processed ?s p x \<longleftrightarrow> is_processed s p x \<or> x = m" for x
      using mark_sound[OF Cons.prems(1) m(1)] mark_keeps[OF Cons.prems(1) m(1)]
        mark_marks[OF Cons.prems(1) m] by blast
    have win: "\<forall>x\<in>set ms. room x \<and> unat x \<le> unat (cum ?s p) + window"
      using Cons.prems(2) mark_window[OF Cons.prems(1) m(1)] by auto
    have eq: "deliver_all p (m # ms) s =
        (m # fst (deliver_all p ms ?s), snd (deliver_all p ms ?s))"
      using False by (simp add: split_def Let_def)
    note IH = Cons.IH[OF inv_mark[OF Cons.prems(1) m(1)] win, unfolded proc]
    have "m \<notin> set (fst (deliver_all p ms ?s))" using IH by simp
    moreover have "set (m # fst (deliver_all p ms ?s)) = {x \<in> set (m # ms). \<not> is_processed s p x}"
      using IH False by auto
    ultimately show ?thesis unfolding eq using IH by simp
  qed (use Cons in auto)
qed simp

end

end
