(* ===== verification/Storage_Mem.thy ===== *)
theory Storage_Mem
  imports Storage
begin

text \<open>
  The in-memory backend: \<open>mesh-storage/src/backend/mem.rs\<close>. Both halves are shown to be
  implementations of the traits, and the deduplication is shown to remember exactly the set of
  identifiers it was given, within its window.
\<close>

section \<open>The write-ahead log\<close>

record memory_wal =
  mw_entries :: "(peer, (u64 \<times> bytes) list) hmap"
  mw_ack_state :: "(peer, ack_state) hmap"
  mw_last_appended :: "(peer, u64) hmap"

definition memory_wal_new :: memory_wal where
  "memory_wal_new = \<lparr>mw_entries = [], mw_ack_state = [], mw_last_appended = []\<rparr>"

definition mem_append ::
  "peer \<Rightarrow> wal_frame \<Rightarrow> memory_wal \<Rightarrow> (storage_error, unit) outcome \<times> memory_wal" where
  "mem_append p f w =
     (let entries = get_or [] (hm_get (mw_entries w) p) @ [(wf_msg_id f, wf_bytes f)]
      in (Ok (), w\<lparr>mw_entries := hm_insert p entries (mw_entries w),
                   mw_last_appended := hm_insert p (wf_msg_id f) (mw_last_appended w)\<rparr>))"

text \<open>The loop of \<open>range\<close>: the limit is tested after an entry was pushed.\<close>

fun mem_range_loop :: "u64 \<Rightarrow> nat option \<Rightarrow> (u64 \<times> bytes) list \<Rightarrow> wal_entry list \<Rightarrow> wal_entry list" where
  "mem_range_loop n limit [] results = results"
| "mem_range_loop n limit ((m, bs) # entries) results =
     (if m > n
      then let results = results @ [\<lparr>we_msg_id = m, we_bytes = bs\<rparr>]
           in case limit of
                Some l \<Rightarrow> if length results \<ge> l then results
                          else mem_range_loop n limit entries results
              | None \<Rightarrow> mem_range_loop n limit entries results
      else mem_range_loop n limit entries results)"

definition mem_range ::
  "memory_wal \<Rightarrow> peer \<Rightarrow> u64 \<Rightarrow> nat option \<Rightarrow> (storage_error, wal_entry list) outcome" where
  "mem_range w p n limit =
     Ok (case hm_get (mw_entries w) p of
           Some entries \<Rightarrow> mem_range_loop n limit entries []
         | None \<Rightarrow> [])"

definition mem_truncate_through ::
  "peer \<Rightarrow> u64 \<Rightarrow> memory_wal \<Rightarrow> (storage_error, unit) outcome \<times> memory_wal" where
  "mem_truncate_through p n w =
     (Ok (), case hm_get (mw_entries w) p of
               Some entries \<Rightarrow>
                 w\<lparr>mw_entries := hm_insert p (filter (\<lambda>(m, _). m > n) entries) (mw_entries w)\<rparr>
             | None \<Rightarrow> w)"

definition mem_last_appended :: "memory_wal \<Rightarrow> peer \<Rightarrow> (storage_error, u64) outcome" where
  "mem_last_appended w p = Ok (get_or 0 (hm_get (mw_last_appended w) p))"

definition mem_load_ack :: "memory_wal \<Rightarrow> peer \<Rightarrow> (storage_error, ack_state) outcome" where
  "mem_load_ack w p = Ok (get_or ack_state_default (hm_get (mw_ack_state w) p))"

definition mem_store_ack ::
  "peer \<Rightarrow> ack_state \<Rightarrow> memory_wal \<Rightarrow> (storage_error, unit) outcome \<times> memory_wal" where
  "mem_store_ack p a w = (Ok (), w\<lparr>mw_ack_state := hm_insert p a (mw_ack_state w)\<rparr>)"

section \<open>Deduplication\<close>

text \<open>The \<open>HashSet\<close> of out-of-order identifiers is the list of its elements.\<close>

record memory_dedup =
  md_cum_processed :: "(peer, u64) hmap"
  md_gap_window :: "(peer, u64 list) hmap"
  md_window_size :: u64

definition memory_dedup_new :: "u64 \<Rightarrow> memory_dedup" where
  "memory_dedup_new n = \<lparr>md_cum_processed = [], md_gap_window = [], md_window_size = n\<rparr>"

definition with_default_window :: memory_dedup where
  "with_default_window = memory_dedup_new 65536"

definition mem_cum :: "memory_dedup \<Rightarrow> peer \<Rightarrow> u64" where
  "mem_cum d p = get_or 0 (hm_get (md_cum_processed d) p)"

definition mem_is_processed :: "memory_dedup \<Rightarrow> peer \<Rightarrow> u64 \<Rightarrow> bool" where
  "mem_is_processed d p m =
     (if m \<le> mem_cum d p then True
      else case hm_get (md_gap_window d) p of
             Some gaps \<Rightarrow> m \<in> set gaps
           | None \<Rightarrow> False)"

text \<open>\<open>while gaps.remove(&(cum + 1)) { cum += 1; }\<close>\<close>

function close_gaps :: "u64 \<Rightarrow> u64 list \<Rightarrow> u64 \<times> u64 list" where
  "close_gaps cum gaps =
     (if cum + 1 \<in> set gaps then close_gaps (cum + 1) (removeAll (cum + 1) gaps)
      else (cum, gaps))"
  by pat_completeness auto
termination
  by (relation "measure (\<lambda>(cum, gaps). length gaps)") (auto simp: length_removeAll_less)

definition gap_insert :: "u64 \<Rightarrow> u64 list \<Rightarrow> u64 list" where
  "gap_insert m gaps = (if m \<in> set gaps then gaps else gaps @ [m])"

definition mem_mark_processed :: "peer \<Rightarrow> u64 \<Rightarrow> memory_dedup \<Rightarrow> memory_dedup" where
  "mem_mark_processed p m d =
     (let cum = mem_cum d p
      in if m \<le> cum then d
         else let gaps = get_or [] (hm_get (md_gap_window d) p)
              in if m = cum + 1
                 then let d = d\<lparr>md_cum_processed := hm_insert p m (md_cum_processed d)\<rparr>;
                          (cum, gaps) = close_gaps m gaps;
                          d = (if cum > m
                               then d\<lparr>md_cum_processed := hm_insert p cum (md_cum_processed d)\<rparr> else d);
                          gaps = filter (\<lambda>i. i > cum \<and> i \<le> cum + md_window_size d) gaps
                      in d\<lparr>md_gap_window := hm_insert p gaps (md_gap_window d)\<rparr>
                 else let gaps = (if m \<le> cum + md_window_size d then gap_insert m gaps else gaps)
                      in d\<lparr>md_gap_window := hm_insert p gaps (md_gap_window d)\<rparr>)"

definition mem_advance_cum :: "peer \<Rightarrow> u64 \<Rightarrow> memory_dedup \<Rightarrow> memory_dedup" where
  "mem_advance_cum p i d =
     (if i > mem_cum d p
      then let d = d\<lparr>md_cum_processed := hm_insert p i (md_cum_processed d)\<rparr>
           in case hm_get (md_gap_window d) p of
                Some gaps \<Rightarrow>
                  d\<lparr>md_gap_window := hm_insert p (filter (\<lambda>g. g > i) gaps) (md_gap_window d)\<rparr>
              | None \<Rightarrow> d
      else d)"

section \<open>Specification\<close>

definition mem_gaps :: "memory_dedup \<Rightarrow> peer \<Rightarrow> u64 set" where
  "mem_gaps d p = set (get_or [] (hm_get (md_gap_window d) p))"

text \<open>The identifiers a dedup holds for processed.\<close>

definition processed_set :: "u64 \<Rightarrow> u64 set \<Rightarrow> u64 set" where
  "processed_set c G = {x. x \<le> c} \<union> G"

definition dedup_room :: "u64 \<Rightarrow> u64 \<Rightarrow> bool" where
  "dedup_room w m \<longleftrightarrow> unat m + unat w + 1 < 2 ^ 64"

text \<open>
  The invariant of one peer: the watermark is maximal (its successor is not in the gap window), and
  the gap window lies above it and within the window.
\<close>

definition gaps_ok :: "u64 \<Rightarrow> u64 \<Rightarrow> u64 set \<Rightarrow> bool" where
  "gaps_ok w c G \<longleftrightarrow> dedup_room w c \<and> c + 1 \<notin> G
     \<and> (\<forall>g\<in>G. c < g \<and> unat g \<le> unat c + unat w \<and> dedup_room w g)"

definition mem_dedup_ok :: "u64 \<Rightarrow> memory_dedup \<Rightarrow> bool" where
  "mem_dedup_ok w d \<longleftrightarrow> md_window_size d = w \<and> (\<forall>p. gaps_ok w (mem_cum d p) (mem_gaps d p))"

text \<open>What marking does to the watermark and the gaps of one peer.\<close>

definition dedup_step :: "u64 \<Rightarrow> u64 \<Rightarrow> u64 \<times> u64 list \<Rightarrow> u64 \<times> u64 list" where
  "dedup_step w m st = (case st of (c, gaps) \<Rightarrow>
     if m \<le> c then (c, gaps)
     else if m = c + 1
     then let (c', gaps') = close_gaps m gaps
          in (c', filter (\<lambda>i. i > c' \<and> i \<le> c' + w) gaps')
     else (c, if m \<le> c + w then gap_insert m gaps else gaps))"

declare close_gaps.simps [simp del]

section \<open>Lemmas on the log\<close>

lemma mem_range_loop_None:
  "mem_range_loop n None es rs = rs @ map (\<lambda>(m, bs). \<lparr>we_msg_id = m, we_bytes = bs\<rparr>)
     (filter (\<lambda>(m, bs). n < m) es)"
  by (induction n "None :: nat option" es rs rule: mem_range_loop.induct) (auto simp: Let_def)

lemma mem_range_loop_Some:
  "length rs < max 1 l \<Longrightarrow> mem_range_loop n (Some l) es rs = take (max 1 l) (mem_range_loop n None es rs)"
proof (induction es arbitrary: rs)
  case (Cons e es)
  obtain m bs where e: "e = (m, bs)" by (cases e)
  let ?rs = "rs @ [\<lparr>we_msg_id = m, we_bytes = bs\<rparr>]"
  show ?case
  proof (cases "n < m \<and> l \<le> length ?rs")
    case True
    then have "max 1 l = length ?rs" using Cons.prems by auto
    then have "take (max 1 l) (mem_range_loop n None es ?rs) = ?rs"
      by (simp add: mem_range_loop_None)
    with True show ?thesis by (simp add: e)
  next
    case False
    then show ?thesis using Cons by (auto simp: e Let_def)
  qed
qed simp

lemma mem_range_eq:
  "mem_range w p n None = Ok (map (\<lambda>(m, bs). \<lparr>we_msg_id = m, we_bytes = bs\<rparr>)
     (filter (\<lambda>(m, bs). n < m) (get_or [] (hm_get (mw_entries w) p))))"
  by (simp add: mem_range_def mem_range_loop_None split: option.split)

lemma mem_range_limit: "mem_range w p n None = Ok xs \<Longrightarrow> mem_range w p n (Some l) = Ok (take (max 1 l) xs)"
  by (auto simp: mem_range_def mem_range_loop_Some split: option.splits)

lemma filter_above: "m \<le> n \<Longrightarrow> filter (\<lambda>(x, bs). n < x) (filter (\<lambda>(x, _). m < x) es) = filter (\<lambda>(x, bs). n < x) es"
  for m n :: u64
  by (induction es) auto

interpretation mem_wal: wal "\<lambda>w. True" "\<lambda>f. True" mem_append mem_range mem_truncate_through
  mem_last_appended mem_load_ack mem_store_ack
proof
  show "mem_range (snd (mem_truncate_through p m s)) q n None = mem_range s q n None"
    if "m \<le> n \<or> q \<noteq> p" for s p m q n
    using that
    by (cases "q = p"; cases "hm_get (mw_entries s) p")
      (simp_all add: mem_range_eq mem_truncate_through_def filter_above del: filter_filter)
qed (auto simp: mem_append_def mem_range_eq mem_truncate_through_def mem_store_ack_def
    mem_last_appended_def mem_load_ack_def Let_def mem_range_limit)

section \<open>Lemmas on deduplication\<close>

lemma unat_Suc_less:
  fixes c g :: u64
  assumes "c < g"
  shows "unat (c + 1) = Suc (unat c)"
proof -
  have "unat c < unat g" using assms by (simp add: word_less_nat_alt)
  then have "unat c + 1 < 2 ^ 64" using unsigned_less[of g, where ?'a = nat] by simp
  then show ?thesis by (simp add: unat_word_ariths)
qed

lemma less_succ_iff: "c < g \<Longrightarrow> c < x \<longleftrightarrow> x = c + 1 \<or> c + 1 < x" for c g x :: u64
  using unat_Suc_less[of c g] by (auto simp: word_less_nat_alt word_unat_eq_iff)

lemma close_gaps_spec:
  assumes "\<forall>g\<in>set G. c < g" and "close_gaps c G = (c', G')"
  shows "c \<le> c' \<and> c' + 1 \<notin> set G' \<and> set G' = {g \<in> set G. c' < g}
    \<and> (\<forall>x. c < x \<and> x \<le> c' \<longrightarrow> x \<in> set G) \<and> (c' = c \<or> c' \<in> set G)"
  using assms
proof (induction c G rule: close_gaps.induct)
  case (1 c G)
  show ?case
  proof (cases "c + 1 \<in> set G")
    case True
    then have c: "c < c + 1" using 1(2) by blast
    note succ = less_succ_iff[OF c]
    have "\<forall>g\<in>set (removeAll (c + 1) G). c + 1 < g"
      using 1(2) succ by auto
    moreover have "close_gaps (c + 1) (removeAll (c + 1) G) = (c', G')"
      using 1(3) True by (simp add: close_gaps.simps[of c])
    ultimately have IH: "c + 1 \<le> c'" "c' + 1 \<notin> set G'" "set G' = {g \<in> set (removeAll (c + 1) G). c' < g}"
      "\<forall>x. c + 1 < x \<and> x \<le> c' \<longrightarrow> x \<in> set (removeAll (c + 1) G)"
      "c' = c + 1 \<or> c' \<in> set (removeAll (c + 1) G)"
      using 1(1)[OF True] by blast+
    have "c \<le> c'" using c IH(1) by (meson le_less_trans less_imp_le order.trans)
    moreover have "x \<in> set G" if "c < x" "x \<le> c'" for x
      using that IH(4) succ True by auto
    moreover have "\<not> c' < c + 1" using IH(1) by simp
    then have "set G' = {g \<in> set G. c' < g}" unfolding IH(3) by auto
    moreover have "c' \<in> set G" using IH(5) True by auto
    ultimately show ?thesis using IH(2) by blast
  next
    case False
    with 1(3) have "c' = c" "G' = G" by (auto simp: close_gaps.simps[of c])
    with False 1(2) show ?thesis by auto
  qed
qed

lemma room_add: "dedup_room w m \<Longrightarrow> unat (m + w) = unat m + unat w"
  by (simp add: dedup_room_def unat_word_ariths)

lemma dedup_step_contiguous:
  assumes ok: "gaps_ok w c (set G)" and room: "dedup_room w m" and m: "m = c + 1" "c < m"
    and cl: "close_gaps m G = (c', G1)"
  shows "filter (\<lambda>i. i > c' \<and> i \<le> c' + w) G1 = G1" and "gaps_ok w c' (set G1)" and "c \<le> c'" and "m \<le> c'"
    and "processed_set c' (set G1) = insert m (processed_set c (set G))"
proof -
  have "m < g" if "g \<in> set G" for g
  proof -
    have "c < g" "g \<noteq> m" using that ok m(1) by (auto simp: gaps_ok_def)
    with less_succ_iff[OF m(2), of g] m(1) show ?thesis by simp
  qed
  then have "\<forall>g\<in>set G. m < g" by simp
  from close_gaps_spec[OF this cl]
  have c': "m \<le> c'" "c' + 1 \<notin> set G1" "set G1 = {g \<in> set G. c' < g}"
    "\<forall>x. m < x \<and> x \<le> c' \<longrightarrow> x \<in> set G" "c' = m \<or> c' \<in> set G" by blast+
  show "m \<le> c'" by (rule c'(1))
  show cc: "c \<le> c'" using c'(1) m(2) by simp
  have r: "dedup_room w c'" using c'(5) ok room by (auto simp: gaps_ok_def)
  have g: "unat g \<le> unat c' + unat w" if "g \<in> set G" for g
    using that ok cc by (fastforce simp: gaps_ok_def word_le_nat_alt)
  show "filter (\<lambda>i. i > c' \<and> i \<le> c' + w) G1 = G1"
    using c'(3) g room_add[OF r] by (auto simp: filter_id_conv word_le_nat_alt)
  show "gaps_ok w c' (set G1)"
    using r c'(2,3) g ok by (auto simp: gaps_ok_def)
  show "processed_set c' (set G1) = insert m (processed_set c (set G))"
  proof (intro set_eqI)
    fix x
    have "x \<le> c' \<longleftrightarrow> x \<le> c \<or> x = m \<or> (m < x \<and> x \<le> c')"
      using m less_succ_iff[OF m(2), of x] c'(1) cc by (auto simp: not_le[symmetric])
    then show "x \<in> processed_set c' (set G1) \<longleftrightarrow> x \<in> insert m (processed_set c (set G))"
      using c'(3,4) by (auto simp: processed_set_def not_le)
  qed
qed

text \<open>The identifiers that marking does remember.\<close>

definition in_window :: "u64 \<Rightarrow> u64 \<Rightarrow> u64 \<Rightarrow> bool" where
  "in_window w c m \<longleftrightarrow> unat m \<le> unat c + max 1 (unat w)"

lemma dedup_step_spec:
  assumes ok: "gaps_ok w c (set G)" and room: "dedup_room w m"
    and st: "dedup_step w m (c, G) = (c', G')"
  shows "gaps_ok w c' (set G') \<and> c \<le> c'
    \<and> processed_set c' (set G') = processed_set c (set G) \<union> (if in_window w c m then {m} else {})"
proof -
  consider (old) "m \<le> c" | (succ) "m = c + 1" "c < m" | (gap) "c < m" "m \<noteq> c + 1" by force
  then show ?thesis
  proof cases
    case old
    then show ?thesis using st ok by (auto simp: dedup_step_def processed_set_def)
  next
    case succ
    obtain c1 G1 where cl: "close_gaps m G = (c1, G1)" by (metis surj_pair)
    note facts = dedup_step_contiguous[OF ok room succ cl]
    have "\<not> m \<le> c" using succ(2) by simp
    then have "(c', G') = (c1, G1)"
      unfolding st[symmetric]
      by (simp only: dedup_step_def prod.case if_False if_P[OF succ(1)] cl Let_def facts(1))
    moreover have "in_window w c m"
      using unat_Suc_less[OF succ(2)] succ(1) by (simp add: in_window_def)
    ultimately show ?thesis using facts(2,3,5) by auto
  next
    case gap
    have rc: "dedup_room w c" using ok by (simp add: gaps_ok_def)
    have "unat m \<noteq> Suc (unat c)" "unat c < unat m"
      using gap unat_Suc_less[OF gap(1)] by (auto simp: word_unat_eq_iff word_less_nat_alt)
    then have win: "in_window w c m \<longleftrightarrow> m \<le> c + w"
      by (auto simp: in_window_def word_le_nat_alt room_add[OF rc])
    have "\<not> m \<le> c" using gap(1) by simp
    with st gap(2) have "(c', G') = (c, if m \<le> c + w then gap_insert m G else G)"
      by (auto simp: dedup_step_def)
    then have eq: "c' = c" "set G' = set G \<union> (if in_window w c m then {m} else {})"
      using win by (auto simp: gap_insert_def)
    have "gaps_ok w c (set G')"
      using ok gap room win eq(2) room_add[OF rc] by (auto simp: gaps_ok_def word_le_nat_alt)
    then show ?thesis by (auto simp: eq processed_set_def)
  qed
qed

lemma mem_mark_succ:
  assumes "\<not> m \<le> mem_cum d p" and "m = mem_cum d p + 1"
    and "close_gaps m (get_or [] (hm_get (md_gap_window d) p)) = (c1, G1)" and "m \<le> c1"
  shows "mem_cum (mem_mark_processed p m d) p = c1"
    and "mem_gaps (mem_mark_processed p m d) p =
      set (filter (\<lambda>i. i > c1 \<and> i \<le> c1 + md_window_size d) G1)"
proof -
  have "mem_mark_processed p m d =
      (let d' = d\<lparr>md_cum_processed := hm_insert p m (md_cum_processed d)\<rparr>;
           d' = (if c1 > m then d'\<lparr>md_cum_processed := hm_insert p c1 (md_cum_processed d')\<rparr> else d')
       in d'\<lparr>md_gap_window := hm_insert p (filter (\<lambda>i. i > c1 \<and> i \<le> c1 + md_window_size d') G1)
            (md_gap_window d')\<rparr>)"
    unfolding mem_mark_processed_def Let_def using assms(1,3)
    by (simp only: if_False if_P[OF assms(2)] prod.case)
  then show "mem_cum (mem_mark_processed p m d) p = c1"
    and "mem_gaps (mem_mark_processed p m d) p =
      set (filter (\<lambda>i. i > c1 \<and> i \<le> c1 + md_window_size d) G1)"
    using assms(4) by (auto simp: mem_cum_def mem_gaps_def Let_def)
qed

lemma mem_mark_step:
  assumes "gaps_ok (md_window_size d) (mem_cum d p) (mem_gaps d p)" and "dedup_room (md_window_size d) m"
    and st: "dedup_step (md_window_size d) m (mem_cum d p, get_or [] (hm_get (md_gap_window d) p)) = (c', G')"
  shows "mem_cum (mem_mark_processed p m d) p = c' \<and> mem_gaps (mem_mark_processed p m d) p = set G'"
proof -
  let ?c = "mem_cum d p" and ?G = "get_or [] (hm_get (md_gap_window d) p)"
  have ok: "gaps_ok (md_window_size d) ?c (set ?G)" using assms(1) by (simp add: mem_gaps_def)
  consider (old) "m \<le> ?c" | (succ) "\<not> m \<le> ?c" "m = ?c + 1" | (gap) "\<not> m \<le> ?c" "m \<noteq> ?c + 1" by blast
  then show ?thesis
  proof cases
    case old
    with st show ?thesis by (auto simp: dedup_step_def mem_mark_processed_def mem_gaps_def Let_def)
  next
    case succ
    obtain c1 G1 where cl: "close_gaps m ?G = (c1, G1)" by (metis surj_pair)
    have "?c < m" using succ(1) by simp
    then have "m \<le> c1" by (rule dedup_step_contiguous(4)[OF ok assms(2) succ(2) _ cl])
    moreover have "(c', G') = (c1, filter (\<lambda>i. i > c1 \<and> i \<le> c1 + md_window_size d) G1)"
      unfolding st[symmetric] using succ(1)
      by (simp only: dedup_step_def prod.case if_False if_P[OF succ(2)] cl Let_def)
    ultimately show ?thesis using mem_mark_succ[OF succ cl] by blast
  next
    case gap
    with st have "(c', G') = (?c, if m \<le> ?c + md_window_size d then gap_insert m ?G else ?G)"
      by (auto simp: dedup_step_def)
    moreover have "mem_mark_processed p m d = d\<lparr>md_gap_window :=
        hm_insert p (if m \<le> ?c + md_window_size d then gap_insert m ?G else ?G) (md_gap_window d)\<rparr>"
      unfolding mem_mark_processed_def Let_def using gap by (simp only: if_False)
    ultimately show ?thesis by (auto simp: mem_cum_def mem_gaps_def)
  qed
qed

lemma mem_mark_other:
  "q \<noteq> p \<Longrightarrow> mem_cum (mem_mark_processed p m d) q = mem_cum d q"
  "q \<noteq> p \<Longrightarrow> mem_gaps (mem_mark_processed p m d) q = mem_gaps d q"
  "md_window_size (mem_mark_processed p m d) = md_window_size d"
  by (simp_all add: mem_mark_processed_def mem_cum_def mem_gaps_def Let_def split_def)

lemma mem_is_processed_iff: "mem_is_processed d p m \<longleftrightarrow> m \<in> processed_set (mem_cum d p) (mem_gaps d p)"
  by (simp add: mem_is_processed_def processed_set_def mem_gaps_def split: option.split)

lemma mem_mark_spec:
  assumes "mem_dedup_ok w d" and "dedup_room w m"
  shows "mem_dedup_ok w (mem_mark_processed p m d)"
    and "mem_cum d q \<le> mem_cum (mem_mark_processed p m d) q"
    and "mem_is_processed (mem_mark_processed p m d) q x \<longleftrightarrow>
      mem_is_processed d q x \<or> (q = p \<and> x = m \<and> in_window w (mem_cum d p) m)"
proof -
  let ?G = "get_or [] (hm_get (md_gap_window d) p)"
  obtain c' G' where st: "dedup_step w m (mem_cum d p, ?G) = (c', G')" by (metis surj_pair)
  have w: "md_window_size d = w" and ok: "gaps_ok w (mem_cum d p) (set ?G)"
    using assms(1) by (auto simp: mem_dedup_ok_def mem_gaps_def)
  note spec = dedup_step_spec[OF ok assms(2) st]
  have eqs: "mem_cum (mem_mark_processed p m d) p = c'" "mem_gaps (mem_mark_processed p m d) p = set G'"
    using mem_mark_step[of d p m c' G'] w ok assms(2) st by (simp_all add: mem_gaps_def)
  have "gaps_ok w (mem_cum (mem_mark_processed p m d) q) (mem_gaps (mem_mark_processed p m d) q)" for q
    using assms(1) spec by (cases "q = p") (simp_all add: mem_dedup_ok_def eqs mem_mark_other)
  then show "mem_dedup_ok w (mem_mark_processed p m d)"
    by (simp add: mem_dedup_ok_def mem_mark_other w)
  show "mem_cum d q \<le> mem_cum (mem_mark_processed p m d) q"
    using spec by (cases "q = p") (simp_all add: eqs mem_mark_other)
  have "mem_gaps d p = set ?G" by (simp add: mem_gaps_def)
  then show "mem_is_processed (mem_mark_processed p m d) q x \<longleftrightarrow>
      mem_is_processed d q x \<or> (q = p \<and> x = m \<and> in_window w (mem_cum d p) m)"
    using spec by (cases "q = p") (simp_all add: mem_is_processed_iff eqs mem_mark_other)
qed

interpretation mem_dedup: dedup "mem_dedup_ok w" "dedup_room w" "max 1 (unat w)" mem_is_processed
  mem_mark_processed mem_cum for w
proof
  fix s p
  assume "mem_dedup_ok w s"
  then have ok: "gaps_ok w (mem_cum s p) (mem_gaps s p)" by (simp add: mem_dedup_ok_def)
  then have "unat (mem_cum s p) + 1 < 2 ^ 64" by (simp add: gaps_ok_def dedup_room_def)
  then have "unat (mem_cum s p + 1) = unat (mem_cum s p) + 1" by (simp add: unat_word_ariths)
  then show "\<not> mem_is_processed s p (mem_cum s p + 1)"
    using ok by (simp add: mem_is_processed_iff processed_set_def gaps_ok_def word_le_nat_alt)
next
  fix s p m
  assume "mem_dedup_ok w s" and "m \<le> mem_cum s p"
  then show "mem_is_processed s p m" by (simp add: mem_is_processed_iff processed_set_def)
next
  fix p q m s x
  assume "(p :: peer) \<noteq> q"
  then show "mem_is_processed (mem_mark_processed p m s) q x = mem_is_processed s q x
      \<and> mem_cum (mem_mark_processed p m s) q = mem_cum s q"
    by (simp add: mem_is_processed_iff mem_mark_other)
qed (auto simp: mem_mark_spec in_window_def)

lemma mem_dedup_ok_new: "unat w + 1 < 2 ^ 64 \<Longrightarrow> mem_dedup_ok w (memory_dedup_new w)"
  by (simp add: mem_dedup_ok_def memory_dedup_new_def mem_cum_def mem_gaps_def gaps_ok_def dedup_room_def)

lemma mem_is_processed_new: "mem_is_processed (memory_dedup_new w) p m \<longleftrightarrow> m = 0"
  by (simp add: mem_is_processed_def memory_dedup_new_def mem_cum_def)

lemma mem_advance_cum_processed:
  "mem_is_processed (mem_advance_cum p i d) q x \<longleftrightarrow> mem_is_processed d q x \<or> (q = p \<and> x \<le> i)"
proof (cases "q = p \<and> mem_cum d p < i")
  case True
  then show ?thesis
    by (auto simp: mem_is_processed_iff mem_advance_cum_def processed_set_def mem_cum_def mem_gaps_def
        Let_def not_le split: option.splits)
next
  case False
  then show ?thesis
    by (auto simp: mem_is_processed_iff mem_advance_cum_def processed_set_def mem_cum_def mem_gaps_def
        Let_def not_less split: option.splits intro: order_trans)
qed

text \<open>Advancing the watermark does not take up the gap that follows it.\<close>

lemma mem_advance_cum_not_maximal:
  "let d = mem_advance_cum 1 2 (mem_mark_processed 1 3 with_default_window)
   in mem_cum d 1 = 2 \<and> mem_is_processed d 1 3"
  by (simp add: mem_advance_cum_def mem_mark_processed_def with_default_window_def
      memory_dedup_new_def mem_cum_def mem_is_processed_def hm_get_def gap_insert_def Let_def)

text \<open>An identifier beyond the window is not remembered: it is handed over again.\<close>

lemma mem_dedup_forgets:
  "mem_is_processed (mem_mark_processed 1 65537 with_default_window) 1 65537 = False"
  by (simp add: mem_mark_processed_def with_default_window_def
      memory_dedup_new_def mem_cum_def mem_is_processed_def hm_get_def gap_insert_def Let_def)

section \<open>Properties\<close>

text \<open>
  Whatever is appended, truncated and acknowledged for whichever peers, reading the log of a
  peer above \<open>n\<close> returns exactly the frames appended for it with a larger identifier, byte for
  byte and in the order of the appends, provided it was never truncated above \<open>n\<close>; a limit cuts
  this list off after the limit, but never before one entry.
\<close>

lemma mem_wal_replay:
  assumes "replayable (\<lambda>f. True) p n ops"
  shows "mem_range (mem_wal.run ops memory_wal_new) p n None = Ok (appended p n ops)
    \<and> mem_range (mem_wal.run ops memory_wal_new) p n (Some l) = Ok (take (max 1 l) (appended p n ops))"
proof -
  have "mem_range memory_wal_new p n None = Ok []" by (simp add: mem_range_eq memory_wal_new_def)
  from mem_wal.run_replay[OF TrueI this assms] have
    "mem_range (mem_wal.run ops memory_wal_new) p n None = Ok (appended p n ops)" by simp
  with mem_wal.replay_limit[OF TrueI this] show ?thesis by blast
qed

text \<open>
  C16: The deduplication holds for processed exactly what was processed before and, when it is at
  most a window ahead of the contiguous watermark, the identifier that is marked; identifiers of
  other peers are not affected. The watermark never goes down and is always the largest
  identifier up to which all are processed.
\<close>

theorem mem_mark_processed_spec:
  assumes "mem_dedup_ok w d" and "dedup_room w m"
  shows "(mem_is_processed (mem_mark_processed p m d) q x \<longleftrightarrow>
      mem_is_processed d q x
      \<or> (q = p \<and> x = m \<and> unat m \<le> unat (mem_cum d p) + max 1 (unat w)))
    \<and> mem_cum d q \<le> mem_cum (mem_mark_processed p m d) q
    \<and> (\<forall>y \<le> mem_cum (mem_mark_processed p m d) q. mem_is_processed (mem_mark_processed p m d) q y)
    \<and> \<not> mem_is_processed (mem_mark_processed p m d) q (mem_cum (mem_mark_processed p m d) q + 1)"
  using mem_mark_spec[OF assms] mem_dedup.cum_processed[OF mem_mark_spec(1)[OF assms]]
    mem_dedup.cum_maximal[OF mem_mark_spec(1)[OF assms]]
  by (simp add: in_window_def)

theorem mem_mark_processed_spec_witness:
  "mem_is_processed (mem_mark_processed 4 3 with_default_window) 4 3
   \<and> \<not> mem_is_processed (mem_mark_processed 4 3 with_default_window) 4 2"
proof -
  have "mem_dedup_ok 65536 with_default_window"
    unfolding with_default_window_def by (rule mem_dedup_ok_new) simp
  from mem_mark_processed_spec[OF this, of 3 4 4 3] mem_mark_processed_spec[OF this, of 3 4 4 2]
  show ?thesis by (simp add: dedup_room_def mem_is_processed_new with_default_window_def)
qed

text \<open>
  A receiver that asks before it hands over and marks what it handed over hands over every
  identifier of a stream once, as long as they stay within the
  window of the watermark: duplicates are suppressed and nothing is lost.
\<close>

lemma mem_dedup_exactly_once:
  assumes "\<forall>m\<in>set ms. 0 < m \<and> unat m \<le> 65536"
  shows "distinct (fst (mem_dedup.deliver_all p ms with_default_window))
    \<and> set (fst (mem_dedup.deliver_all p ms with_default_window)) = set ms
    \<and> (\<forall>x. mem_is_processed (snd (mem_dedup.deliver_all p ms with_default_window)) p x \<longleftrightarrow>
         x = 0 \<or> x \<in> set ms)"
proof -
  have ok: "mem_dedup_ok 65536 with_default_window"
    unfolding with_default_window_def by (rule mem_dedup_ok_new) simp
  have "mem_cum with_default_window p = 0"
    by (simp add: mem_cum_def with_default_window_def memory_dedup_new_def)
  with assms have "\<forall>m\<in>set ms. dedup_room 65536 m
      \<and> unat m \<le> unat (mem_cum with_default_window p) + max 1 (unat (65536 :: u64))"
    by (auto simp: dedup_room_def)
  from mem_dedup.deliver_all_once[OF ok this] assms show ?thesis
    by (auto simp: with_default_window_def mem_is_processed_new)
qed

end
