(* ===== verification/Storage_File.thy ===== *)
theory Storage_File
  imports Storage_Mem
begin

text \<open>
  The file backend: \<open>mesh-storage/src/backend/file.rs\<close>. The disk is modelled by what is in the
  files: for every peer the numbered segment files of its log and its state file. Input and output
  succeed. The checksum (\<open>crc32fast\<close>) and the JSON text of a state (\<open>serde_json\<close>) are
  parameters. The lemmas show that segments read back what was appended, that a corrupted record
  is reported, that the log implements the trait, and that the deduplication behaves as the
  in-memory one and what it remembers over a restart.
\<close>

section \<open>Configuration and disk\<close>

record file_wal_config =
  segment_bytes :: nat
  fsync_every :: u32

definition file_wal_config_default :: file_wal_config where
  "file_wal_config_default = \<lparr>segment_bytes = 128 * 1024 * 1024, fsync_every = 1\<rparr>"

record peer_state =
  ps_last_appended :: u64
  ps_cum_acked :: u64
  ps_cum_processed :: u64

definition peer_state_default :: peer_state where
  "peer_state_default = \<lparr>ps_last_appended = 0, ps_cum_acked = 0, ps_cum_processed = 0\<rparr>"

text \<open>
  \<open>dk_wal\<close>: the directory \<open>peers/<peer>/wal\<close>, from segment numbers to contents; \<open>dk_state\<close>: the
  text of \<open>peers/<peer>/state.json\<close>.
\<close>

record disk =
  dk_wal :: "(peer, (u64, bytes) hmap) hmap"
  dk_state :: "(peer, bytes) hmap"

definition empty_disk :: disk where
  "empty_disk = \<lparr>dk_wal = [], dk_state = []\<rparr>"

section \<open>Segment records\<close>

record segment_header =
  sh_len :: u32
  sh_msg_id :: u64
  sh_crc32c :: u32

definition SEGMENT_HEADER_SIZE :: nat where "SEGMENT_HEADER_SIZE = 4 + 8 + 4"

definition segment_header_encode :: "segment_header \<Rightarrow> bytes" where
  "segment_header_encode h =
     put_u32_le (sh_len h) @ put_u64_le (sh_msg_id h) @ put_u32_le (sh_crc32c h)"

definition segment_header_decode :: "bytes \<Rightarrow> (storage_error, segment_header \<times> bytes) outcome" where
  "segment_header_decode buf =
     (if length buf < SEGMENT_HEADER_SIZE then Err (Corruption ''Incomplete segment header'')
      else obind (or_panic (get_u32_le buf)) (\<lambda>(len, buf).
           obind (or_panic (get_u64_le buf)) (\<lambda>(msg_id, buf).
           obind (or_panic (get_u32_le buf)) (\<lambda>(c, buf).
           Ok (\<lparr>sh_len = len, sh_msg_id = msg_id, sh_crc32c = c\<rparr>, buf)))))"

definition compute_crc :: "(bytes \<Rightarrow> u32) \<Rightarrow> u64 \<Rightarrow> bytes \<Rightarrow> u32" where
  "compute_crc crc msg_id frame_bytes = crc (put_u64_le msg_id @ frame_bytes)"

text \<open>The bytes \<open>append\<close> writes: header and frame.\<close>

definition segment_record :: "(bytes \<Rightarrow> u32) \<Rightarrow> u64 \<Rightarrow> bytes \<Rightarrow> bytes" where
  "segment_record crc msg_id frame_bytes =
     segment_header_encode
       \<lparr>sh_len = word_of_nat (length frame_bytes), sh_msg_id = msg_id,
        sh_crc32c = compute_crc crc msg_id frame_bytes\<rparr>
     @ frame_bytes"

section \<open>The write-ahead log\<close>

record file_wal =
  fw_config :: file_wal_config
  fw_peer_states :: "(peer, peer_state) hmap"
  fw_active_segments :: "(peer, u64) hmap"
  fw_write_counter :: "(peer, u32) hmap"

text \<open>A state file that cannot be parsed is skipped with a warning.\<close>

fun load_peer_states :: "(bytes \<Rightarrow> peer_state option) \<Rightarrow> (peer \<times> bytes) list
    \<Rightarrow> (peer, peer_state) hmap \<Rightarrow> (peer, peer_state) hmap" where
  "load_peer_states de [] m = m"
| "load_peer_states de ((p, content) # files) m =
     load_peer_states de files
       (case de content of Some st \<Rightarrow> hm_insert p st m | None \<Rightarrow> m)"

definition file_wal_new :: "(bytes \<Rightarrow> peer_state option) \<Rightarrow> file_wal_config \<Rightarrow> disk \<Rightarrow> file_wal" where
  "file_wal_new de config d =
     \<lparr>fw_config = config, fw_peer_states = load_peer_states de (dk_state d) [],
      fw_active_segments = [], fw_write_counter = []\<rparr>"

definition save_peer_state ::
  "(peer_state \<Rightarrow> bytes option) \<Rightarrow> peer \<Rightarrow> peer_state \<Rightarrow> disk \<Rightarrow> (storage_error, unit) outcome \<times> disk" where
  "save_peer_state ser p st d =
     (case ser st of
        None \<Rightarrow> (Err Serialization, d)
      | Some content \<Rightarrow> (Ok (), d\<lparr>dk_state := hm_insert p content (dk_state d)\<rparr>))"

text \<open>The segment files of a peer in the order of their numbers.\<close>

definition segment_files :: "(u64, bytes) hmap \<Rightarrow> (u64 \<times> bytes) list" where
  "segment_files dir = sort_key fst dir"

text \<open>The number of the segment that is opened when none is active.\<close>

definition pick_segment :: "nat \<Rightarrow> (u64, bytes) hmap \<Rightarrow> u64" where
  "pick_segment max_bytes dir =
     (case segment_files dir of
        [] \<Rightarrow> 1
      | fs \<Rightarrow> (case last fs of (latest_num, content) \<Rightarrow>
                if length content \<ge> max_bytes then latest_num + 1 else latest_num))"

text \<open>Opening with \<open>create\<close> and \<open>append\<close> makes an empty file when there is none.\<close>

definition get_or_create_active_segment :: "peer \<Rightarrow> file_wal \<times> disk \<Rightarrow> file_wal \<times> disk" where
  "get_or_create_active_segment p st = (case st of (w, d) \<Rightarrow>
     if hm_contains (fw_active_segments w) p then (w, d)
     else let dir = get_or [] (hm_get (dk_wal d) p);
              n = pick_segment (segment_bytes (fw_config w)) dir;
              dir = hm_insert n (get_or [] (hm_get dir n)) dir
          in (w\<lparr>fw_active_segments := hm_insert p n (fw_active_segments w)\<rparr>,
              d\<lparr>dk_wal := hm_insert p dir (dk_wal d)\<rparr>))"

text \<open>\<open>write_all\<close> on a file opened for appending.\<close>

definition write_segment :: "peer \<Rightarrow> u64 \<Rightarrow> bytes \<Rightarrow> disk \<Rightarrow> disk" where
  "write_segment p n buf d =
     (let dir = get_or [] (hm_get (dk_wal d) p)
      in d\<lparr>dk_wal := hm_insert p (hm_insert n (get_or [] (hm_get dir n) @ buf) dir) (dk_wal d)\<rparr>)"

definition file_append :: "(bytes \<Rightarrow> u32) \<Rightarrow> (peer_state \<Rightarrow> bytes option) \<Rightarrow> peer \<Rightarrow> wal_frame
    \<Rightarrow> file_wal \<times> disk \<Rightarrow> (storage_error, unit) outcome \<times> file_wal \<times> disk" where
  "file_append crc ser p f st =
     (let (w, d) = get_or_create_active_segment p st;
          buf = segment_record crc (wf_msg_id f) (wf_bytes f);
          (w, d) = (case hm_get (fw_active_segments w) p of
                      None \<Rightarrow> (w, d)
                    | Some n \<Rightarrow>
                        let counter = get_or 0 (hm_get (fw_write_counter w) p) + 1;
                            counter = (if counter \<ge> fsync_every (fw_config w) then 0 else counter)
                        in (w\<lparr>fw_write_counter := hm_insert p counter (fw_write_counter w)\<rparr>,
                            write_segment p n buf d));
          state = (get_or peer_state_default (hm_get (fw_peer_states w) p))
                    \<lparr>ps_last_appended := wf_msg_id f\<rparr>;
          w = w\<lparr>fw_peer_states := hm_insert p state (fw_peer_states w)\<rparr>
      in if wf_msg_id f mod 100 = 0
         then (case save_peer_state ser p state d of (r, d) \<Rightarrow> (r, w, d))
         else (Ok (), w, d))"

text \<open>
  The loop over the records of one segment; the flag tells that the limit was reached and the
  function returned.
\<close>

function read_segment :: "(bytes \<Rightarrow> u32) \<Rightarrow> u64 \<Rightarrow> nat option \<Rightarrow> bytes \<Rightarrow> wal_entry list
    \<Rightarrow> (storage_error, bool \<times> wal_entry list) outcome" where
  "read_segment crc n limit buf results =
     (if length buf \<ge> SEGMENT_HEADER_SIZE
      then (case segment_header_decode buf of
              Err e \<Rightarrow> Err e
            | Panic \<Rightarrow> Panic
            | Ok (header, buf) \<Rightarrow>
                if length buf < unat (sh_len header) then Ok (False, results)
                else let frame_bytes = take (unat (sh_len header)) buf;
                         buf = drop (unat (sh_len header)) buf
                     in if sh_crc32c header \<noteq> compute_crc crc (sh_msg_id header) frame_bytes
                        then Err (Corruption ''CRC mismatch'')
                        else if sh_msg_id header > n
                        then let results = results @ [\<lparr>we_msg_id = sh_msg_id header,
                                                       we_bytes = frame_bytes\<rparr>]
                             in if (case limit of Some l \<Rightarrow> length results \<ge> l | None \<Rightarrow> False)
                                then Ok (True, results)
                                else read_segment crc n limit buf results
                        else read_segment crc n limit buf results)
      else Ok (False, results))"
  by pat_completeness auto

lemma segment_header_decode_length:
  "segment_header_decode buf = Ok (h, rest) \<Longrightarrow> length buf = 16 + length rest"
  by (auto simp: segment_header_decode_def obind_eq_Ok split: if_splits dest!: get_lengths)

termination read_segment
  by (relation "measure (\<lambda>(crc, n, limit, buf, results). length buf)")
    (auto dest: segment_header_decode_length)

fun read_segments :: "(bytes \<Rightarrow> u32) \<Rightarrow> u64 \<Rightarrow> nat option \<Rightarrow> (u64 \<times> bytes) list \<Rightarrow> wal_entry list
    \<Rightarrow> (storage_error, wal_entry list) outcome" where
  "read_segments crc n limit [] results = Ok results"
| "read_segments crc n limit ((_, content) # files) results =
     obind (read_segment crc n limit content results) (\<lambda>(finished, results).
       if finished then Ok results else read_segments crc n limit files results)"

definition file_range :: "(bytes \<Rightarrow> u32) \<Rightarrow> file_wal \<times> disk \<Rightarrow> peer \<Rightarrow> u64 \<Rightarrow> nat option
    \<Rightarrow> (storage_error, wal_entry list) outcome" where
  "file_range crc st p n limit =
     (case hm_get (dk_wal (snd st)) p of
        None \<Rightarrow> Ok []
      | Some dir \<Rightarrow> read_segments crc n limit (segment_files dir) [])"

definition file_truncate_through :: "(peer_state \<Rightarrow> bytes option) \<Rightarrow> peer \<Rightarrow> u64
    \<Rightarrow> file_wal \<times> disk \<Rightarrow> (storage_error, unit) outcome \<times> file_wal \<times> disk" where
  "file_truncate_through ser p n st = (case st of (w, d) \<Rightarrow>
     if \<not> hm_contains (dk_wal d) p then (Ok (), w, d)
     else let state = get_or peer_state_default (hm_get (fw_peer_states w) p);
              changed = n > ps_cum_acked state;
              state = (if changed then state\<lparr>ps_cum_acked := n\<rparr> else state);
              w = w\<lparr>fw_peer_states := hm_insert p state (fw_peer_states w)\<rparr>
          in if changed then (case save_peer_state ser p state d of (r, d) \<Rightarrow> (r, w, d))
             else (Ok (), w, d))"

definition file_last_appended :: "file_wal \<times> disk \<Rightarrow> peer \<Rightarrow> (storage_error, u64) outcome" where
  "file_last_appended st p =
     Ok (get_or 0 (map_option ps_last_appended (hm_get (fw_peer_states (fst st)) p)))"

definition file_load_ack :: "file_wal \<times> disk \<Rightarrow> peer \<Rightarrow> (storage_error, ack_state) outcome" where
  "file_load_ack st p =
     Ok \<lparr>cum_acked = get_or 0 (map_option ps_cum_acked (hm_get (fw_peer_states (fst st)) p))\<rparr>"

definition file_store_ack :: "(peer_state \<Rightarrow> bytes option) \<Rightarrow> peer \<Rightarrow> ack_state
    \<Rightarrow> file_wal \<times> disk \<Rightarrow> (storage_error, unit) outcome \<times> file_wal \<times> disk" where
  "file_store_ack ser p a st = (case st of (w, d) \<Rightarrow>
     let state = (get_or peer_state_default (hm_get (fw_peer_states w) p))
                   \<lparr>ps_cum_acked := cum_acked a\<rparr>;
         w = w\<lparr>fw_peer_states := hm_insert p state (fw_peer_states w)\<rparr>
     in case save_peer_state ser p state d of (r, d) \<Rightarrow> (r, w, d))"

section \<open>Deduplication\<close>

record file_dedup =
  fd_cum_processed :: "(peer, u64) hmap"
  fd_gap_window :: "(peer, u64 list) hmap"
  fd_window_size :: u64

fun load_states :: "(bytes \<Rightarrow> peer_state option) \<Rightarrow> (peer \<times> bytes) list
    \<Rightarrow> (peer, u64) hmap \<Rightarrow> (peer, u64) hmap" where
  "load_states de [] m = m"
| "load_states de ((p, content) # files) m =
     load_states de files
       (case de content of Some st \<Rightarrow> hm_insert p (ps_cum_processed st) m | None \<Rightarrow> m)"

definition file_dedup_new :: "(bytes \<Rightarrow> peer_state option) \<Rightarrow> u64 \<Rightarrow> disk \<Rightarrow> file_dedup" where
  "file_dedup_new de n d =
     \<lparr>fd_cum_processed = load_states de (dk_state d) [], fd_gap_window = [], fd_window_size = n\<rparr>"

text \<open>The state file is read back first, so that the other fields are kept.\<close>

definition dedup_save_peer_state :: "(peer_state \<Rightarrow> bytes option) \<Rightarrow> (bytes \<Rightarrow> peer_state option)
    \<Rightarrow> peer \<Rightarrow> u64 \<Rightarrow> disk \<Rightarrow> (storage_error, unit) outcome \<times> disk" where
  "dedup_save_peer_state ser de p c d =
     (let state = (case hm_get (dk_state d) p of
                     Some content \<Rightarrow> get_or peer_state_default (de content)
                   | None \<Rightarrow> peer_state_default);
          state = state\<lparr>ps_cum_processed := c\<rparr>
      in case ser state of
           None \<Rightarrow> (Err Serialization, d)
         | Some content \<Rightarrow> (Ok (), d\<lparr>dk_state := hm_insert p content (dk_state d)\<rparr>))"

definition file_cum :: "file_dedup \<Rightarrow> peer \<Rightarrow> u64" where
  "file_cum d p = get_or 0 (hm_get (fd_cum_processed d) p)"

definition file_is_processed :: "file_dedup \<Rightarrow> peer \<Rightarrow> u64 \<Rightarrow> bool" where
  "file_is_processed d p m =
     (if m \<le> file_cum d p then True
      else case hm_get (fd_gap_window d) p of
             Some gaps \<Rightarrow> m \<in> set gaps
           | None \<Rightarrow> False)"

definition file_mark_processed :: "(peer_state \<Rightarrow> bytes option) \<Rightarrow> (bytes \<Rightarrow> peer_state option)
    \<Rightarrow> peer \<Rightarrow> u64 \<Rightarrow> file_dedup \<times> disk \<Rightarrow> (storage_error, unit) outcome \<times> file_dedup \<times> disk" where
  "file_mark_processed ser de p m st = (case st of (d, dk) \<Rightarrow>
     let cum = file_cum d p
     in if m \<le> cum then (Ok (), d, dk)
        else let gaps = get_or [] (hm_get (fd_gap_window d) p)
             in if m = cum + 1
                then let d = d\<lparr>fd_cum_processed := hm_insert p m (fd_cum_processed d)\<rparr>;
                         (cum, gaps) = close_gaps m gaps;
                         d = (if cum > m
                              then d\<lparr>fd_cum_processed := hm_insert p cum (fd_cum_processed d)\<rparr> else d);
                         gaps = filter (\<lambda>i. i > cum \<and> i \<le> cum + fd_window_size d) gaps;
                         d = d\<lparr>fd_gap_window := hm_insert p gaps (fd_gap_window d)\<rparr>
                     in if cum mod 100 = 0
                        then (case dedup_save_peer_state ser de p cum dk of (r, dk) \<Rightarrow> (r, d, dk))
                        else (Ok (), d, dk)
                else let gaps = (if m \<le> cum + fd_window_size d then gap_insert m gaps else gaps)
                     in (Ok (), d\<lparr>fd_gap_window := hm_insert p gaps (fd_gap_window d)\<rparr>, dk))"

definition file_advance_cum :: "(peer_state \<Rightarrow> bytes option) \<Rightarrow> (bytes \<Rightarrow> peer_state option)
    \<Rightarrow> peer \<Rightarrow> u64 \<Rightarrow> file_dedup \<times> disk \<Rightarrow> (storage_error, unit) outcome \<times> file_dedup \<times> disk" where
  "file_advance_cum ser de p i st = (case st of (d, dk) \<Rightarrow>
     if i > file_cum d p
     then let d = d\<lparr>fd_cum_processed := hm_insert p i (fd_cum_processed d)\<rparr>;
              d = (case hm_get (fd_gap_window d) p of
                     Some gaps \<Rightarrow>
                       d\<lparr>fd_gap_window := hm_insert p (filter (\<lambda>g. g > i) gaps) (fd_gap_window d)\<rparr>
                   | None \<Rightarrow> d)
          in (case dedup_save_peer_state ser de p i dk of (r, dk) \<Rightarrow> (r, d, dk))
     else (Ok (), d, dk))"

text \<open>\<open>snapshot\<close> saves the watermark of every peer and stops at the first error.\<close>

fun snapshot_loop :: "(peer_state \<Rightarrow> bytes option) \<Rightarrow> (bytes \<Rightarrow> peer_state option)
    \<Rightarrow> (peer \<times> u64) list \<Rightarrow> disk \<Rightarrow> (storage_error, unit) outcome \<times> disk" where
  "snapshot_loop ser de [] dk = (Ok (), dk)"
| "snapshot_loop ser de ((p, c) # cums) dk =
     (case dedup_save_peer_state ser de p c dk of
        (Ok _, dk) \<Rightarrow> snapshot_loop ser de cums dk
      | (r, dk) \<Rightarrow> (r, dk))"

definition snapshot :: "(peer_state \<Rightarrow> bytes option) \<Rightarrow> (bytes \<Rightarrow> peer_state option)
    \<Rightarrow> file_dedup \<times> disk \<Rightarrow> (storage_error, unit) outcome \<times> file_dedup \<times> disk" where
  "snapshot ser de st = (case st of (d, dk) \<Rightarrow>
     case snapshot_loop ser de (fd_cum_processed d) dk of (r, dk) \<Rightarrow> (r, d, dk))"

section \<open>Specification\<close>

text \<open>What the code relies on of the JSON package: a state that was written is read back.\<close>

definition json_ok :: "(peer_state \<Rightarrow> bytes option) \<Rightarrow> (bytes \<Rightarrow> peer_state option) \<Rightarrow> bool" where
  "json_ok ser de \<longleftrightarrow> (\<forall>st. \<exists>bs. ser st = Some bs \<and> de bs = Some st)"

text \<open>The in-memory deduplication a file deduplication behaves as.\<close>

definition dedup_abs :: "file_dedup \<Rightarrow> memory_dedup" where
  "dedup_abs d = \<lparr>md_cum_processed = fd_cum_processed d, md_gap_window = fd_gap_window d,
     md_window_size = fd_window_size d\<rparr>"

text \<open>Frames whose length fits the 32-bit length field.\<close>

definition frame_fits :: "wal_frame \<Rightarrow> bool" where
  "frame_fits f \<longleftrightarrow> length (wf_bytes f) < 2 ^ 32"

definition records :: "(bytes \<Rightarrow> u32) \<Rightarrow> (u64 \<times> bytes) list \<Rightarrow> bytes" where
  "records crc fs = concat (map (\<lambda>(m, bs). segment_record crc m bs) fs)"

text \<open>\<open>dir_log crc dir fs\<close>: the segments of a directory hold the frames \<open>fs\<close>, in order.\<close>

definition dir_log :: "(bytes \<Rightarrow> u32) \<Rightarrow> (u64, bytes) hmap \<Rightarrow> (u64 \<times> bytes) list \<Rightarrow> bool" where
  "dir_log crc dir fs \<longleftrightarrow> hm_wf dir \<and>
     (\<exists>fss. map snd (segment_files dir) = map (records crc) fss \<and> fs = concat fss
        \<and> (\<forall>(m, bs) \<in> set fs. length bs < 2 ^ 32))"

text \<open>
  The invariant of the log: every directory holds whole records, and the active segment of a peer
  is its last one; without an active segment there is room for another number.
\<close>

definition active_ok :: "u64 option \<Rightarrow> (u64, bytes) hmap \<Rightarrow> bool" where
  "active_ok a dir \<longleftrightarrow> (case a of
     Some n \<Rightarrow> dir \<noteq> [] \<and> fst (last (segment_files dir)) = n
   | None \<Rightarrow> (\<forall>n \<in> set (hm_keys dir). n < - 1))"

definition file_wal_ok :: "(bytes \<Rightarrow> u32) \<Rightarrow> file_wal \<times> disk \<Rightarrow> bool" where
  "file_wal_ok crc st \<longleftrightarrow> (\<forall>p.
     (\<exists>fs. dir_log crc (get_or [] (hm_get (dk_wal (snd st)) p)) fs)
     \<and> active_ok (hm_get (fw_active_segments (fst st)) p) (get_or [] (hm_get (dk_wal (snd st)) p)))"

declare read_segment.simps [simp del]

section \<open>Lemmas on segments\<close>

lemma segment_header_decode_encode [codec_simps]:
  "segment_header_decode (segment_header_encode h @ rest) = Ok (h, rest)"
  by (simp add: segment_header_decode_def segment_header_encode_def SEGMENT_HEADER_SIZE_def outcome_simps)

text \<open>The loop of \<open>range\<close> with the flag that tells whether it stopped at the limit.\<close>

fun range_stops :: "u64 \<Rightarrow> nat option \<Rightarrow> (u64 \<times> bytes) list \<Rightarrow> wal_entry list \<Rightarrow> bool" where
  "range_stops n limit [] results = False"
| "range_stops n limit ((m, bs) # es) results =
     (if m > n
      then let results = results @ [\<lparr>we_msg_id = m, we_bytes = bs\<rparr>]
           in (case limit of Some l \<Rightarrow> length results \<ge> l | None \<Rightarrow> False)
              \<or> range_stops n limit es results
      else range_stops n limit es results)"

lemma read_segment_record:
  assumes "length bs < 2 ^ 32"
  shows "read_segment crc n limit (segment_record crc m bs @ rest) results =
    (if n < m
     then if (case limit of Some l \<Rightarrow> Suc (length results) \<ge> l | None \<Rightarrow> False)
          then Ok (True, results @ [\<lparr>we_msg_id = m, we_bytes = bs\<rparr>])
          else read_segment crc n limit rest (results @ [\<lparr>we_msg_id = m, we_bytes = bs\<rparr>])
     else read_segment crc n limit rest results)"
proof -
  let ?h = "\<lparr>sh_len = word_of_nat (length bs), sh_msg_id = m, sh_crc32c = compute_crc crc m bs\<rparr>"
  have dec: "segment_header_decode (segment_record crc m bs @ rest) = Ok (?h, bs @ rest)"
    by (simp add: segment_record_def codec_simps)
  have len: "unat (word_of_nat (length bs) :: u32) = length bs"
    by (rule unat_word_of_nat_id) (use assms in simp)
  have "SEGMENT_HEADER_SIZE \<le> length (segment_record crc m bs @ rest)"
    by (simp add: segment_record_def segment_header_encode_def SEGMENT_HEADER_SIZE_def)
  then show ?thesis
    by (subst read_segment.simps) (simp add: dec len Let_def cong: option.case_cong)
qed

lemma read_segment_Nil: "read_segment crc n limit [] results = Ok (False, results)"
  by (simp add: read_segment.simps SEGMENT_HEADER_SIZE_def)

lemma read_segment_records:
  assumes "\<forall>(m, bs) \<in> set fs. length bs < 2 ^ 32"
  shows "read_segment crc n limit (records crc fs) results =
    Ok (range_stops n limit fs results, mem_range_loop n limit fs results)"
  using assms
proof (induction fs arbitrary: results)
  case Nil
  then show ?case by (simp add: records_def read_segment_Nil)
next
  case (Cons f fs)
  obtain m bs where f: "f = (m, bs)" by (cases f)
  have eq: "records crc (f # fs) = segment_record crc m bs @ records crc fs"
    by (simp add: records_def f)
  have "length bs < 2 ^ 32" using Cons.prems by (simp add: f)
  then show ?case
    using Cons by (simp add: eq read_segment_record) (simp add: f Let_def split: option.split)
qed

lemma mem_range_loop_append:
  "mem_range_loop n limit (fs @ gs) results =
     (if range_stops n limit fs results then mem_range_loop n limit fs results
      else mem_range_loop n limit gs (mem_range_loop n limit fs results))"
  by (induction n limit fs results rule: mem_range_loop.induct) (auto simp: Let_def split: option.splits)

lemma read_segments_records:
  assumes "map snd files = map (records crc) fss" and "\<forall>(m, bs) \<in> set (concat fss). length bs < 2 ^ 32"
  shows "read_segments crc n limit files results = Ok (mem_range_loop n limit (concat fss) results)"
  using assms
proof (induction files arbitrary: fss results)
  case Nil
  then show ?case by simp
next
  case (Cons f files)
  obtain k c where f: "f = (k, c)" by (cases f)
  obtain fs fss' where fss: "fss = fs # fss'" "c = records crc fs" "map snd files = map (records crc) fss'"
    using Cons.prems(1) by (cases fss) (auto simp: f)
  have "\<forall>(m, bs) \<in> set fs. length bs < 2 ^ 32" using Cons.prems(2) by (auto simp: fss(1))
  moreover have "\<forall>(m, bs) \<in> set (concat fss'). length bs < 2 ^ 32" using Cons.prems(2) by (auto simp: fss(1))
  ultimately show ?case
    using read_segment_records[of fs crc n limit results] Cons.IH[OF fss(3)]
    by (simp add: f fss(1,2) mem_range_loop_append)
qed

section \<open>Lemmas on directories\<close>

lemma hm_insert_not_Nil [simp]: "hm_insert k v m \<noteq> []"
  by (induction k v m rule: hm_insert.induct) auto

lemma mset_get_eq: "hm_wf m \<Longrightarrow> mset m = mset m' \<Longrightarrow> hm_get m k = hm_get m' k"
proof -
  assume wf: "hm_wf m" and eq: "mset m = mset m'"
  then have "set m = set m'" by (metis set_mset_mset)
  moreover have "hm_wf m'" using wf eq unfolding hm_wf_def hm_keys_def
    by (metis mset_eq_imp_distinct_iff mset_map)
  ultimately show ?thesis
    using wf by (metis hm_get_Some_mem hm_get_mem option.exhaust)
qed

lemma hm_get_segment_files: "hm_wf dir \<Longrightarrow> hm_get (segment_files dir) k = hm_get dir k"
  unfolding segment_files_def by (rule mset_get_eq[symmetric]) simp_all

lemma bt_wf_segment_files: "hm_wf dir \<Longrightarrow> bt_wf (segment_files dir)"
  by (simp add: bt_wf_def segment_files_def hm_keys_def strict_sorted_iff hm_wf_def)
    (metis distinct_map distinct_sort set_sort)

lemma segment_files_insert:
  assumes "hm_wf dir"
  shows "segment_files (hm_insert n c dir) = bt_insert n c (segment_files dir)"
  by (rule bt_ext)
    (use assms bt_wf_segment_files in \<open>simp_all add: hm_get_segment_files\<close>)

lemma bt_insert_last: "\<forall>k\<in>set (hm_keys m). k < n \<Longrightarrow> bt_insert n c m = m @ [(n, c)]"
  by (induction n c m rule: bt_insert.induct) auto

lemma bt_insert_replace:
  "bt_wf (m @ [(n, c0)]) \<Longrightarrow> bt_insert n c (m @ [(n, c0)]) = m @ [(n, c)]"
proof (induction m)
  case (Cons x m)
  obtain k v where x: "x = (k, v)" by (cases x)
  with Cons.prems have "k < n" by (simp add: bt_wf_Cons hm_keys_def)
  with Cons show ?case by (auto simp: x bt_wf_Cons)
qed simp

text \<open>Opening a segment, then writing to it: an old last segment or a new empty one.\<close>

lemma segment_files_Nil [simp]: "segment_files dir = [] \<longleftrightarrow> dir = []"
  by (metis length_0_conv length_sort segment_files_def)

lemma dir_log_write_last:
  assumes "dir_log crc dir fs" and "dir \<noteq> []" and "fst (last (segment_files dir)) = n"
    and "length bs < 2 ^ 32"
  shows "dir_log crc (hm_insert n (get_or [] (hm_get dir n) @ segment_record crc m bs) dir) (fs @ [(m, bs)])"
    and "fst (last (segment_files (hm_insert n (get_or [] (hm_get dir n) @ segment_record crc m bs) dir))) = n"
proof -
  have wf: "hm_wf dir" using assms(1) by (simp add: dir_log_def)
  obtain files c where files: "segment_files dir = files @ [(n, c)]"
    using assms(2,3) by (metis segment_files_Nil append_butlast_last_id prod.collapse)
  have c: "hm_get dir n = Some c"
    using hm_get_mem[OF bt_wf_imp_hm_wf[OF bt_wf_segment_files[OF wf]], of n c] hm_get_segment_files[OF wf, of n]
    by (simp add: files)
  let ?dir = "hm_insert n (c @ segment_record crc m bs) dir"
  have new: "segment_files ?dir = files @ [(n, c @ segment_record crc m bs)]"
    using bt_insert_replace[of files n c] bt_wf_segment_files[OF wf]
    by (simp add: segment_files_insert[OF wf] files)
  obtain fss where fss: "map snd (segment_files dir) = map (records crc) fss" "fs = concat fss"
    "\<forall>(m, bs) \<in> set fs. length bs < 2 ^ 32"
    using assms(1) by (auto simp: dir_log_def)
  then obtain gss gs where g: "fss = gss @ [gs]" "map snd files = map (records crc) gss" "c = records crc gs"
    by (cases fss rule: rev_cases) (auto simp: files)
  have "records crc (gs @ [(m, bs)]) = c @ segment_record crc m bs" by (simp add: records_def g(3))
  then have "map snd (segment_files ?dir) = map (records crc) (gss @ [gs @ [(m, bs)]])"
    unfolding new by (simp add: g(2))
  moreover have "fs @ [(m, bs)] = concat (gss @ [gs @ [(m, bs)]])" by (simp add: fss(2) g(1))
  ultimately show "dir_log crc (hm_insert n (get_or [] (hm_get dir n) @ segment_record crc m bs) dir) (fs @ [(m, bs)])"
    using wf fss(3) assms(4) unfolding dir_log_def c get_or_simps
    by (intro conjI exI[of _ "gss @ [gs @ [(m, bs)]]"]) auto
  show "fst (last (segment_files (hm_insert n (get_or [] (hm_get dir n) @ segment_record crc m bs) dir))) = n"
    by (simp add: c new)
qed

lemma pick_segment_snoc:
  "segment_files dir = files @ [(k, c)] \<Longrightarrow> pick_segment mb dir = (if mb \<le> length c then k + 1 else k)"
  by (cases files) (simp_all add: pick_segment_def)

lemma segment_files_open:
  assumes wf: "hm_wf dir" and room: "\<forall>n \<in> set (hm_keys dir). n < - 1" and n: "n = pick_segment mb dir"
  shows "segment_files (hm_insert n (get_or [] (hm_get dir n)) dir) = segment_files dir
      \<and> dir \<noteq> [] \<and> fst (last (segment_files dir)) = n
    \<or> segment_files (hm_insert n (get_or [] (hm_get dir n)) dir) = segment_files dir @ [(n, [])]"
proof (cases "dir = []")
  case True
  then show ?thesis by (simp add: segment_files_def)
next
  case False
  then obtain files k c where files: "segment_files dir = files @ [(k, c)]"
    by (metis segment_files_Nil append_butlast_last_id prod.collapse)
  have bt: "bt_wf (files @ [(k, c)])" using bt_wf_segment_files[OF wf] by (simp add: files)
  have c: "hm_get dir k = Some c"
    using hm_get_mem[OF bt_wf_imp_hm_wf[OF bt], of k c] hm_get_segment_files[OF wf, of k]
    by (simp add: files)
  show ?thesis
  proof (cases "n = k")
    case True
    then show ?thesis
      using bt_insert_replace[OF bt, of c] False by (simp add: segment_files_insert[OF wf] files c)
  next
    case ne: False
    then have nk: "n = k + 1" using n pick_segment_snoc[OF files, of mb] by (simp split: if_splits)
    have "k \<in> set (hm_keys dir)" using c by (metis hm_get_None_iff option.distinct(1))
    then have "k < - 1" using room by simp
    then have "k < n" unfolding nk by (metis inc_less_eq_self_iff_eq less_irrefl not_le)
    then have less: "\<forall>x\<in>set (hm_keys (files @ [(k, c)])). x < n"
      using bt by (auto simp: bt_wf_def hm_keys_def sorted_wrt_append)
    then have "hm_get (segment_files dir) n = None" by (auto simp: hm_get_None_iff files)
    then have "hm_get dir n = None" by (simp add: hm_get_segment_files[OF wf])
    with bt_insert_last[OF less, of "[]"] show ?thesis by (simp add: segment_files_insert[OF wf] files)
  qed
qed

lemma dir_log_open:
  assumes "dir_log crc dir fs" and "\<forall>n \<in> set (hm_keys dir). n < - 1" and n: "n = pick_segment mb dir"
  shows "dir_log crc (hm_insert n (get_or [] (hm_get dir n)) dir) fs"
    and "fst (last (segment_files (hm_insert n (get_or [] (hm_get dir n)) dir))) = n"
proof -
  have wf: "hm_wf dir" using assms(1) by (simp add: dir_log_def)
  note cases = segment_files_open[OF wf assms(2) n]
  then show "fst (last (segment_files (hm_insert n (get_or [] (hm_get dir n)) dir))) = n" by auto
  obtain fss where fss: "map snd (segment_files dir) = map (records crc) fss" "fs = concat fss"
    "\<forall>(m, bs) \<in> set fs. length bs < 2 ^ 32"
    using assms(1) by (auto simp: dir_log_def)
  then have "map snd (segment_files dir @ [(n, [])]) = map (records crc) (fss @ [[]])
      \<and> fs = concat (fss @ [[]])" by (simp add: records_def)
  with cases fss wf show "dir_log crc (hm_insert n (get_or [] (hm_get dir n)) dir) fs"
    unfolding dir_log_def by (metis hm_wf_insert)
qed

section \<open>The log implements the trait\<close>

lemma dir_log_range:
  assumes "dir_log crc dir fs"
  shows "read_segments crc n limit (segment_files dir) [] = Ok (mem_range_loop n limit fs [])"
  using assms read_segments_records unfolding dir_log_def by blast

definition wal_dir :: "disk \<Rightarrow> peer \<Rightarrow> (u64, bytes) hmap" where
  "wal_dir d p = get_or [] (hm_get (dk_wal d) p)"

lemma file_range_dir: "file_range crc st p n limit = read_segments crc n limit (segment_files (wal_dir (snd st) p)) []"
  by (simp add: file_range_def wal_dir_def segment_files_def split: option.split)

lemma file_range_log:
  "dir_log crc (wal_dir (snd st) p) fs \<Longrightarrow> file_range crc st p n limit = Ok (mem_range_loop n limit fs [])"
  by (simp add: file_range_dir dir_log_range)

lemma save_peer_state_ok:
  "json_ok ser de \<Longrightarrow> fst (save_peer_state ser p s d) = Ok () \<and> dk_wal (snd (save_peer_state ser p s d)) = dk_wal d"
  unfolding json_ok_def save_peer_state_def by (metis (no_types, lifting) disk.select_convs(1)
      disk.surjective disk.update_convs(2) fst_conv option.simps(5) snd_conv)

lemma file_wal_ok_iff:
  "file_wal_ok crc st \<longleftrightarrow> (\<forall>p. (\<exists>fs. dir_log crc (wal_dir (snd st) p) fs)
     \<and> active_ok (hm_get (fw_active_segments (fst st)) p) (wal_dir (snd st) p))"
  by (simp add: file_wal_ok_def wal_dir_def)

lemma file_wal_ok_cong:
  "file_wal_ok crc (w, d) \<Longrightarrow> dk_wal d' = dk_wal d \<Longrightarrow> fw_active_segments w' = fw_active_segments w \<Longrightarrow>
   file_wal_ok crc (w', d')"
  by (simp add: file_wal_ok_def)

lemma get_or_create_effect:
  assumes "file_wal_ok crc (w, d)" and "dir_log crc (wal_dir d p) fs"
    and "get_or_create_active_segment p (w, d) = (w', d')"
  obtains n where "hm_get (fw_active_segments w') p = Some n"
    and "dir_log crc (wal_dir d' p) fs" and "wal_dir d' p \<noteq> []"
    and "fst (last (segment_files (wal_dir d' p))) = n"
    and "\<And>q. q \<noteq> p \<Longrightarrow> wal_dir d' q = wal_dir d q"
    and "\<And>q. q \<noteq> p \<Longrightarrow> hm_get (fw_active_segments w') q = hm_get (fw_active_segments w) q"
    and "fw_peer_states w' = fw_peer_states w" and "fw_config w' = fw_config w"
    and "dk_state d' = dk_state d"
proof (cases "hm_get (fw_active_segments w) p")
  case (Some n)
  then have "w' = w" "d' = d"
    using assms(3) by (simp_all add: get_or_create_active_segment_def hm_contains_def)
  moreover have "active_ok (Some n) (wal_dir d p)"
    using assms(1) Some by (metis file_wal_ok_iff fst_conv snd_conv)
  ultimately show thesis using that[of n] Some assms(2) by (auto simp: active_ok_def)
next
  case None
  define n where "n = pick_segment (segment_bytes (fw_config w)) (wal_dir d p)"
  let ?dir = "hm_insert n (get_or [] (hm_get (wal_dir d p) n)) (wal_dir d p)"
  have eqs: "w' = w\<lparr>fw_active_segments := hm_insert p n (fw_active_segments w)\<rparr>"
    "d' = d\<lparr>dk_wal := hm_insert p ?dir (dk_wal d)\<rparr>"
    using assms(3) None
    by (auto simp: get_or_create_active_segment_def hm_contains_def Let_def wal_dir_def n_def)
  have "active_ok None (wal_dir d p)"
    using assms(1) None by (metis file_wal_ok_iff fst_conv snd_conv)
  then have room: "\<forall>n \<in> set (hm_keys (wal_dir d p)). n < - 1" by (simp add: active_ok_def)
  have "dir_log crc ?dir fs" "fst (last (segment_files ?dir)) = n"
    by (rule dir_log_open[OF assms(2) room n_def])+
  moreover have "?dir \<noteq> []" by simp
  ultimately show thesis using that[of n] by (auto simp: eqs wal_dir_def)
qed

lemma file_append_effect:
  assumes ok: "file_wal_ok crc (w, d)" and json: "json_ok ser de" and fits: "frame_fits f"
    and log: "dir_log crc (wal_dir d p) fs" and res: "file_append crc ser p f (w, d) = (r, w', d')"
  shows "r = Ok ()" and "file_wal_ok crc (w', d')"
    and "dir_log crc (wal_dir d' p) (fs @ [(wf_msg_id f, wf_bytes f)])"
    and "\<And>q. q \<noteq> p \<Longrightarrow> wal_dir d' q = wal_dir d q"
    and "fw_peer_states w' = hm_insert p ((get_or peer_state_default (hm_get (fw_peer_states w) p))
           \<lparr>ps_last_appended := wf_msg_id f\<rparr>) (fw_peer_states w)"
proof -
  obtain w1 d1 where goc: "get_or_create_active_segment p (w, d) = (w1, d1)" by (metis surj_pair)
  obtain n where n: "hm_get (fw_active_segments w1) p = Some n"
    and log1: "dir_log crc (wal_dir d1 p) fs" "wal_dir d1 p \<noteq> []"
      "fst (last (segment_files (wal_dir d1 p))) = n"
    and other: "\<And>q. q \<noteq> p \<Longrightarrow> wal_dir d1 q = wal_dir d q"
      "\<And>q. q \<noteq> p \<Longrightarrow> hm_get (fw_active_segments w1) q = hm_get (fw_active_segments w) q"
    and ps: "fw_peer_states w1 = fw_peer_states w"
    using get_or_create_effect[OF ok log goc] by metis
  let ?buf = "segment_record crc (wf_msg_id f) (wf_bytes f)"
  let ?d2 = "write_segment p n ?buf d1"
  let ?state = "(get_or peer_state_default (hm_get (fw_peer_states w) p))\<lparr>ps_last_appended := wf_msg_id f\<rparr>"
  have wd: "wal_dir ?d2 q = (if q = p
      then hm_insert n (get_or [] (hm_get (wal_dir d1 p) n) @ ?buf) (wal_dir d1 p) else wal_dir d1 q)" for q
    by (simp add: wal_dir_def write_segment_def Let_def)
  have fields: "r = Ok () \<and> dk_wal d' = dk_wal ?d2 \<and> fw_active_segments w' = fw_active_segments w1
      \<and> fw_peer_states w' = hm_insert p ?state (fw_peer_states w)"
    using res save_peer_state_ok[OF json, of p ?state ?d2]
    by (auto simp: file_append_def goc n ps Let_def split: if_splits prod.splits)
  then have wd': "wal_dir d' q = wal_dir ?d2 q" for q by (simp add: wal_dir_def)
  have len: "length (wf_bytes f) < 2 ^ 32" using fits by (simp add: frame_fits_def)
  note written = dir_log_write_last[OF log1 len]
  show "r = Ok ()" and "fw_peer_states w' = hm_insert p ?state (fw_peer_states w)" using fields by auto
  show log': "dir_log crc (wal_dir d' p) (fs @ [(wf_msg_id f, wf_bytes f)])"
    using written(1) by (simp add: wd' wd)
  show oth: "wal_dir d' q = wal_dir d q" if "q \<noteq> p" for q
    using that other(1) by (simp add: wd' wd)
  have "active_ok (hm_get (fw_active_segments w') q) (wal_dir d' q)" for q
  proof (cases "q = p")
    case True
    have "wal_dir d' p \<noteq> []" by (simp add: wd' wd)
    then show ?thesis using True fields n written(2) by (simp add: active_ok_def wd' wd)
  next
    case False
    then show ?thesis using ok fields other(2) oth by (metis file_wal_ok_iff fst_conv snd_conv)
  qed
  moreover have "\<exists>fs. dir_log crc (wal_dir d' q) fs" for q
    using log' oth ok by (cases "q = p") (auto simp: file_wal_ok_iff)
  ultimately show "file_wal_ok crc (w', d')" by (simp add: file_wal_ok_iff)
qed

lemma file_truncate_effect:
  assumes "json_ok ser de" and "file_truncate_through ser p n (w, d) = (r, w', d')"
  shows "r = Ok () \<and> dk_wal d' = dk_wal d \<and> fw_active_segments w' = fw_active_segments w"
  using assms(2) save_peer_state_ok[OF assms(1), of p]
  by (auto simp: file_truncate_through_def Let_def split: if_splits prod.splits) (metis fst_conv snd_conv)+

lemma file_store_effect:
  assumes "json_ok ser de" and "file_store_ack ser p a (w, d) = (r, w', d')"
  shows "r = Ok () \<and> dk_wal d' = dk_wal d \<and> fw_active_segments w' = fw_active_segments w
    \<and> fw_peer_states w' = hm_insert p ((get_or peer_state_default (hm_get (fw_peer_states w) p))
         \<lparr>ps_cum_acked := cum_acked a\<rparr>) (fw_peer_states w)"
  using assms(2) save_peer_state_ok[OF assms(1), of p "(get_or peer_state_default (hm_get (fw_peer_states w) p))
         \<lparr>ps_cum_acked := cum_acked a\<rparr>" d]
  by (auto simp: file_store_ack_def Let_def split: prod.splits)

lemma range_loop_snoc:
  "mem_range_loop n None (fs @ [(m, bs)]) [] =
     mem_range_loop n None fs [] @ (if n < m then [\<lparr>we_msg_id = m, we_bytes = bs\<rparr>] else [])"
  by (simp add: mem_range_loop_None)

lemma file_wal_impl:
  assumes json: "json_ok ser de"
  shows "wal (file_wal_ok crc) frame_fits (file_append crc ser) (file_range crc)
    (file_truncate_through ser) file_last_appended file_load_ack (file_store_ack ser)"
proof
  fix s p f
  assume ok: "file_wal_ok crc s" and fits: "frame_fits f"
  obtain w d where s: "s = (w, d)" by (cases s)
  obtain r w' d' where res: "file_append crc ser p f (w, d) = (r, w', d')" by (metis surj_pair)
  obtain fs where log: "dir_log crc (wal_dir d p) fs" using ok by (auto simp: file_wal_ok_iff s)
  note eff = file_append_effect[OF ok[unfolded s] json fits log res]
  show "fst (file_append crc ser p f s) = Ok () \<and> file_wal_ok crc (snd (file_append crc ser p f s))"
    using eff(1,2) by (simp add: s res)
  show "file_range crc (snd (file_append crc ser p f s)) q n None =
      Ok (xs @ (if q = p \<and> n < wf_msg_id f
                then [\<lparr>we_msg_id = wf_msg_id f, we_bytes = wf_bytes f\<rparr>] else []))"
    if "file_range crc s q n None = Ok xs" for q n xs
    using that eff(3,4) file_range_log[of crc "(w', d')" p _ n None] file_range_log[of crc "(w, d)" p fs n None] log
    by (cases "q = p") (auto simp: s res range_loop_snoc file_range_dir[of crc _ q])
  show "file_last_appended (snd (file_append crc ser p f s)) q =
      (if q = p then Ok (wf_msg_id f) else file_last_appended s q)" for q
    by (simp add: s res file_last_appended_def eff(5))
  show "file_load_ack (snd (file_append crc ser p f s)) q = file_load_ack s q" for q
    by (cases "hm_get (fw_peer_states w) p")
      (auto simp: s res file_load_ack_def eff(5) peer_state_default_def)
next
  fix s p n
  assume ok: "file_wal_ok crc s"
  obtain w d where s: "s = (w, d)" by (cases s)
  obtain r w' d' where res: "file_truncate_through ser p n (w, d) = (r, w', d')" by (metis surj_pair)
  note eff = file_truncate_effect[OF json res]
  show "fst (file_truncate_through ser p n s) = Ok () \<and> file_wal_ok crc (snd (file_truncate_through ser p n s))"
    using eff file_wal_ok_cong[OF ok[unfolded s]] by (simp add: s res)
  show "file_range crc (snd (file_truncate_through ser p n s)) q k None = file_range crc s q k None" for q k
    using eff by (simp add: s res file_range_def)
next
  fix s p a
  assume ok: "file_wal_ok crc s"
  obtain w d where s: "s = (w, d)" by (cases s)
  obtain r w' d' where res: "file_store_ack ser p a (w, d) = (r, w', d')" by (metis surj_pair)
  note eff = file_store_effect[OF json res]
  show "fst (file_store_ack ser p a s) = Ok () \<and> file_wal_ok crc (snd (file_store_ack ser p a s))"
    using eff file_wal_ok_cong[OF ok[unfolded s]] by (simp add: s res)
  show "file_range crc (snd (file_store_ack ser p a s)) q n None = file_range crc s q n None" for q n
    using eff by (simp add: s res file_range_def)
  show "file_load_ack (snd (file_store_ack ser p a s)) q = (if q = p then Ok a else file_load_ack s q)" for q
    using eff by (simp add: s res file_load_ack_def)
next
  fix s p n
  assume "file_wal_ok crc s"
  then obtain fs where log: "dir_log crc (wal_dir (snd s) p) fs" by (auto simp: file_wal_ok_iff)
  note r = file_range_log[OF log]
  show "\<exists>xs. file_range crc s p n None = Ok xs" using r by simp
  show "\<exists>i. file_last_appended s p = Ok i" by (simp add: file_last_appended_def)
  show "\<exists>a. file_load_ack s p = Ok a" by (simp add: file_load_ack_def)
  show "file_range crc s p n (Some l) = Ok (take (max 1 l) xs)"
    if "file_range crc s p n None = Ok xs" for l xs
    using that r mem_range_loop_Some[of "[]" l n fs] by simp
qed

section \<open>Damaged segments\<close>

lemma read_segment_append:
  assumes "\<forall>(m, bs) \<in> set fs. length bs < 2 ^ 32" and "\<not> range_stops n limit fs results"
  shows "read_segment crc n limit (records crc fs @ rest) results =
    read_segment crc n limit rest (mem_range_loop n limit fs results)"
  using assms
proof (induction fs arbitrary: results)
  case Nil
  then show ?case by (simp add: records_def)
next
  case (Cons f fs)
  obtain m bs where f: "f = (m, bs)" by (cases f)
  have eq: "records crc (f # fs) @ rest = segment_record crc m bs @ records crc fs @ rest"
    by (simp add: records_def f)
  have "length bs < 2 ^ 32" using Cons.prems(1) by (simp add: f)
  then show ?case
    using Cons by (simp add: eq read_segment_record) (auto simp: f Let_def split: option.splits if_splits)
qed

lemma range_stops_None [simp]: "\<not> range_stops n None fs rs"
  by (induction n "None :: nat option" fs rs rule: range_stops.induct) (auto simp: Let_def)

lemma read_segment_torn:
  assumes "length bs < 2 ^ 32" and "k < length (segment_record crc m bs)"
  shows "read_segment crc n limit (take k (segment_record crc m bs)) results = Ok (False, results)"
proof (cases "k < 16")
  case True
  then show ?thesis by (simp add: read_segment.simps[of crc n limit] SEGMENT_HEADER_SIZE_def)
next
  case False
  let ?h = "\<lparr>sh_len = word_of_nat (length bs), sh_msg_id = m, sh_crc32c = compute_crc crc m bs\<rparr>"
  have lh: "length (segment_header_encode h) = 16" for h by (simp add: segment_header_encode_def)
  have t: "take k (segment_record crc m bs) = segment_header_encode ?h @ take (k - 16) bs"
    using False by (simp add: segment_record_def lh)
  have len: "unat (word_of_nat (length bs) :: u32) = length bs"
    by (rule unat_word_of_nat_id) (use assms(1) in simp)
  have "k - 16 < length bs"
    using assms(2) False by (auto simp: segment_record_def lh)
  then show ?thesis
    by (subst read_segment.simps)
      (simp add: t codec_simps len lh SEGMENT_HEADER_SIZE_def)
qed

lemma read_segment_corrupt:
  assumes "length bs < 2 ^ 32" and "c \<noteq> compute_crc crc m bs"
  shows "read_segment crc n limit (segment_header_encode
      \<lparr>sh_len = word_of_nat (length bs), sh_msg_id = m, sh_crc32c = c\<rparr> @ bs @ rest) results =
    Err (Corruption ''CRC mismatch'')"
proof -
  have len: "unat (word_of_nat (length bs) :: u32) = length bs"
    by (rule unat_word_of_nat_id) (use assms(1) in simp)
  have lh: "length (segment_header_encode h) = 16" for h by (simp add: segment_header_encode_def)
  show ?thesis
    by (subst read_segment.simps) (simp add: codec_simps len lh assms(2) SEGMENT_HEADER_SIZE_def)
qed

section \<open>Lemmas on deduplication\<close>

lemma dedup_abs_cum [simp]: "mem_cum (dedup_abs d) p = file_cum d p"
  by (simp add: mem_cum_def file_cum_def dedup_abs_def)

lemma dedup_abs_processed [simp]: "mem_is_processed (dedup_abs d) p m = file_is_processed d p m"
  by (simp add: mem_is_processed_def file_is_processed_def) (simp add: dedup_abs_def)

lemma dedup_save_ok:
  assumes "json_ok ser de" and "dedup_save_peer_state ser de p c dk = (r, dk')"
  shows "r = Ok () \<and> dk_wal dk' = dk_wal dk
    \<and> (\<exists>bs. dk_state dk' = hm_insert p bs (dk_state dk)
         \<and> (\<exists>st. de bs = Some st \<and> ps_cum_processed st = c))"
proof -
  let ?st = "(case hm_get (dk_state dk) p of Some content \<Rightarrow> get_or peer_state_default (de content)
     | None \<Rightarrow> peer_state_default)\<lparr>ps_cum_processed := c\<rparr>"
  obtain bs where "ser ?st = Some bs" "de bs = Some ?st" using assms(1) by (auto simp: json_ok_def)
  with assms(2) show ?thesis by (auto simp: dedup_save_peer_state_def Let_def)
qed

lemma file_mark_refines:
  assumes "file_mark_processed ser de p m (d, dk) = (r, d', dk')"
  shows "dedup_abs d' = mem_mark_processed p m (dedup_abs d)"
proof -
  obtain c1 G1 where cl: "close_gaps m (get_or [] (hm_get (fd_gap_window d) p)) = (c1, G1)"
    by (metis surj_pair)
  consider (old) "m \<le> file_cum d p" | (succ) "\<not> m \<le> file_cum d p" "m = file_cum d p + 1"
    | (gap) "\<not> m \<le> file_cum d p" "m \<noteq> file_cum d p + 1" by blast
  then show ?thesis
  proof cases
    case succ
    let ?d = "d\<lparr>fd_cum_processed := hm_insert p m (fd_cum_processed d)\<rparr>"
    let ?d2 = "if c1 > m then ?d\<lparr>fd_cum_processed := hm_insert p c1 (fd_cum_processed ?d)\<rparr> else ?d"
    have "d' = ?d2\<lparr>fd_gap_window := hm_insert p (filter (\<lambda>i. i > c1 \<and> i \<le> c1 + fd_window_size ?d2) G1)
        (fd_gap_window ?d2)\<rparr>"
      using assms succ(1) unfolding file_mark_processed_def Let_def prod.case if_P[OF succ(2)] cl
      by (auto split: if_splits prod.splits)
    moreover have "mem_mark_processed p m (dedup_abs d) =
      (let e = (dedup_abs d)\<lparr>md_cum_processed := hm_insert p m (md_cum_processed (dedup_abs d))\<rparr>;
           e = (if c1 > m then e\<lparr>md_cum_processed := hm_insert p c1 (md_cum_processed e)\<rparr> else e)
       in e\<lparr>md_gap_window := hm_insert p (filter (\<lambda>i. i > c1 \<and> i \<le> c1 + md_window_size e) G1)
            (md_gap_window e)\<rparr>)"
      unfolding mem_mark_processed_def Let_def dedup_abs_cum if_P[OF succ(2)] using succ(1) cl
      by (simp add: dedup_abs_def)
    ultimately show ?thesis by (simp add: dedup_abs_def Let_def)
  qed (use assms in \<open>auto simp: file_mark_processed_def mem_mark_processed_def Let_def\<close>,
      auto simp: dedup_abs_def)
qed

lemma file_mark_result:
  assumes "json_ok ser de" and "file_mark_processed ser de p m (d, dk) = (r, d', dk')"
  shows "r = Ok () \<and> dk_wal dk' = dk_wal dk"
  using assms(2) dedup_save_ok[OF assms(1), of p _ dk]
  by (auto simp: file_mark_processed_def Let_def split: if_splits prod.splits)

lemma file_mark_abs:
  "dedup_abs (fst (snd (file_mark_processed ser de p m st))) = mem_mark_processed p m (dedup_abs (fst st))"
  using file_mark_refines[of ser de p m "fst st" "snd st"]
  by (cases "file_mark_processed ser de p m st") auto

text \<open>The file deduplication implements the trait as well, through the in-memory one.\<close>

interpretation file_dedup: dedup "\<lambda>st. mem_dedup_ok w (dedup_abs (fst st))" "dedup_room w"
  "max 1 (unat w)" "\<lambda>st. file_is_processed (fst st)" "\<lambda>p m st. snd (file_mark_processed ser de p m st)"
  "\<lambda>st. file_cum (fst st)" for w ser de
  unfolding dedup_abs_cum[symmetric] dedup_abs_processed[symmetric]
  using mem_dedup.inv_mark mem_dedup.cum_processed mem_dedup.cum_maximal mem_dedup.cum_mono
    mem_dedup.mark_other mem_dedup.mark_sound mem_dedup.mark_keeps mem_dedup.mark_marks
  by unfold_locales (simp_all only: file_mark_abs, blast+)

lemma load_states_get:
  "hm_wf files \<Longrightarrow> hm_get (load_states de files m) p =
     (case hm_get files p of
        Some bs \<Rightarrow> (case de bs of Some st \<Rightarrow> Some (ps_cum_processed st) | None \<Rightarrow> hm_get m p)
      | None \<Rightarrow> hm_get m p)"
proof (induction de files m rule: load_states.induct)
  case (2 de q c files m)
  then have "hm_wf files" "hm_get files q = None" by (auto simp: hm_wf_def hm_get_None_iff)
  with 2(1) show ?case by (auto simp: hm_get_Cons split: option.splits)
qed simp

lemma snapshot_loop_saves:
  assumes "json_ok ser de" and "hm_wf cums" and "hm_wf (dk_state dk)"
    and "snapshot_loop ser de cums dk = (r, dk')"
  shows "r = Ok () \<and> hm_wf (dk_state dk')
    \<and> (\<forall>p. case hm_get cums p of
          Some c \<Rightarrow> (\<exists>bs st. hm_get (dk_state dk') p = Some bs \<and> de bs = Some st \<and> ps_cum_processed st = c)
        | None \<Rightarrow> hm_get (dk_state dk') p = hm_get (dk_state dk) p)"
  using assms
proof (induction cums arbitrary: dk)
  case (Cons pc cums)
  obtain p c where pc: "pc = (p, c)" by (cases pc)
  obtain r1 dk1 where s: "dedup_save_peer_state ser de p c dk = (r1, dk1)" by (metis surj_pair)
  obtain bs st where save: "r1 = Ok ()" "dk_state dk1 = hm_insert p bs (dk_state dk)"
      "de bs = Some st" "ps_cum_processed st = c"
    using dedup_save_ok[OF assms(1) s] by auto
  have wf: "hm_wf cums" "hm_get cums p = None"
    using Cons.prems(2) by (auto simp: pc hm_wf_def hm_get_None_iff)
  have "snapshot_loop ser de cums dk1 = (r, dk')" using Cons.prems(4) by (simp add: pc s save(1))
  from Cons.IH[OF assms(1) wf(1) _ this] Cons.prems(3) save(2)
  have IH: "r = Ok ()" "hm_wf (dk_state dk')" and get: "\<And>q. case hm_get cums q of
          Some c \<Rightarrow> (\<exists>bs st. hm_get (dk_state dk') q = Some bs \<and> de bs = Some st \<and> ps_cum_processed st = c)
        | None \<Rightarrow> hm_get (dk_state dk') q = hm_get (dk_state dk1) q"
    by auto
  have "hm_get (dk_state dk') p = Some bs" using get[of p] by (simp add: wf(2) save(2))
  then have "case hm_get (pc # cums) q of
          Some c \<Rightarrow> (\<exists>bs st. hm_get (dk_state dk') q = Some bs \<and> de bs = Some st \<and> ps_cum_processed st = c)
        | None \<Rightarrow> hm_get (dk_state dk') q = hm_get (dk_state dk) q" for q
    using get[of q] save(2-4) by (cases "q = p") (auto simp: pc hm_get_Cons split: option.splits)
  with IH show ?case by blast
qed simp

section \<open>The two halves share a state file\<close>

text \<open>A codec of states for the examples: the three numbers, little endian.\<close>

definition ex_ser :: "peer_state \<Rightarrow> bytes option" where
  "ex_ser st = Some (put_u64_le (ps_last_appended st) @ put_u64_le (ps_cum_acked st)
     @ put_u64_le (ps_cum_processed st))"

definition ex_de :: "bytes \<Rightarrow> peer_state option" where
  "ex_de bs = Option.bind (get_u64_le bs) (\<lambda>(a, bs). Option.bind (get_u64_le bs) (\<lambda>(b, bs).
     Option.bind (get_u64_le bs) (\<lambda>(c, bs).
     Some \<lparr>ps_last_appended = a, ps_cum_acked = b, ps_cum_processed = c\<rparr>)))"

lemma ex_de_ser: "ex_ser st = Some bs \<Longrightarrow> ex_de bs = Some st"
  using u64_le.get_put[where rest = "[]"] by (auto simp: ex_ser_def ex_de_def)

lemma ex_json_ok: "json_ok ex_ser ex_de"
  unfolding json_ok_def using ex_de_ser by (auto simp: ex_ser_def)

text \<open>
  An acknowledgement stored by the log overwrites the watermark that the deduplication saved: the
  log writes its own cached state, which does not have it.
\<close>

lemma store_ack_erases_watermark:
  "let dk = snd (dedup_save_peer_state ex_ser ex_de 4 9 empty_disk);
       dk' = snd (snd (file_store_ack ex_ser 4 \<lparr>cum_acked = 1\<rparr> (file_wal_new ex_de cfg empty_disk, dk)))
   in file_cum (file_dedup_new ex_de w dk) 4 = 9 \<and> file_cum (file_dedup_new ex_de w dk') 4 = 0"
proof -
  have de: "ex_de (the (ex_ser st)) = Some st" for st using ex_de_ser[of st] by (simp add: ex_ser_def)
  show ?thesis
    using de[of "peer_state_default\<lparr>ps_cum_processed := 9\<rparr>"] de[of "peer_state_default\<lparr>ps_cum_acked := 1\<rparr>"]
    by (simp add: Let_def dedup_save_peer_state_def file_store_ack_def save_peer_state_def file_wal_new_def
        empty_disk_def file_cum_def file_dedup_new_def ex_ser_def hm_get_Cons peer_state_default_def)
qed

section \<open>Properties\<close>

text \<open>
  C37: A segment whose last record was only partly written is read up to that record, and a record
  whose bytes do not match its checksum is reported as corruption, never returned.
\<close>

theorem damaged_segment_read:
  assumes "\<forall>(m, bs) \<in> set fs. length bs < 2 ^ 32" and "length bs < 2 ^ 32"
  shows "(k < length (segment_record crc m bs) \<longrightarrow>
      read_segments crc n None [(i, records crc fs @ take k (segment_record crc m bs))] [] =
        Ok (mem_range_loop n None fs []))
    \<and> (c \<noteq> compute_crc crc m bs \<longrightarrow>
      read_segments crc n None [(i, records crc fs @ segment_header_encode
        \<lparr>sh_len = word_of_nat (length bs), sh_msg_id = m, sh_crc32c = c\<rparr> @ bs @ rest)] [] =
        Err (Corruption ''CRC mismatch''))"
  using read_segment_torn[OF assms(2), of k crc m n None] read_segment_corrupt[OF assms(2), of c crc m n None]
  by (simp add: read_segment_append[OF assms(1)])

theorem damaged_segment_read_witness:
  "read_segments (\<lambda>bs. 0) 0 None [(1, records (\<lambda>bs. 0) [(1, [9])] @ take 5 (segment_record (\<lambda>bs. 0) 2 [8]))] []
     = Ok [\<lparr>we_msg_id = 1, we_bytes = [9]\<rparr>]"
  using damaged_segment_read[of "[(1, [9])]" "[8]" 5 "\<lambda>bs. 0" 2 0 1 1 "[]"]
  by (simp add: segment_record_def segment_header_encode_def)

text \<open>
  C17: Marking in the file deduplication does to its watermarks and gap windows exactly what the
  in-memory deduplication does, and answers the same afterwards.
\<close>

theorem file_dedup_refines_mem:
  assumes "json_ok ser de" and "file_mark_processed ser de p m (d, dk) = (r, d', dk')"
  shows "r = Ok () \<and> dedup_abs d' = mem_mark_processed p m (dedup_abs d)
    \<and> file_is_processed d' q x = mem_is_processed (mem_mark_processed p m (dedup_abs d)) q x
    \<and> file_cum d' q = mem_cum (mem_mark_processed p m (dedup_abs d)) q"
  using file_mark_refines[OF assms(2)] file_mark_result[OF assms]
  by (metis dedup_abs_cum dedup_abs_processed)

theorem file_dedup_refines_mem_witness:
  "\<exists>r d dk. file_mark_processed ex_ser ex_de 4 1 (file_dedup_new ex_de 65536 empty_disk, empty_disk)
      = (r, d, dk) \<and> file_cum d 4 = 1"
proof -
  let ?d = "file_dedup_new ex_de 65536 empty_disk"
  obtain r d dk where m: "file_mark_processed ex_ser ex_de 4 1 (?d, empty_disk) = (r, d, dk)"
    by (metis surj_pair)
  from file_dedup_refines_mem[OF ex_json_ok m, of 4 0]
  have "file_cum d 4 = mem_cum (mem_mark_processed 4 1 (dedup_abs ?d)) 4" by blast
  also have "\<dots> = 1"
    by (simp add: mem_mark_processed_def dedup_abs_def file_dedup_new_def empty_disk_def mem_cum_def
        close_gaps.simps hm_get_def Let_def)
  finally show ?thesis using m by blast
qed

text \<open>
  C38: A deduplication opened on the disk that a snapshot left has the watermarks of the one that
  took the snapshot, so nothing at or below a watermark is handed over again.
\<close>

theorem snapshot_restores_watermarks:
  assumes "json_ok ser de" and "hm_wf (fd_cum_processed d)" and "hm_wf (dk_state dk)"
    and "snapshot ser de (d, dk) = (r, d', dk')" and "hm_get (fd_cum_processed d) p = Some c"
  shows "r = Ok () \<and> file_cum (file_dedup_new de w dk') p = c
    \<and> (\<forall>m \<le> c. file_is_processed (file_dedup_new de w dk') p m)"
proof -
  obtain dk1 r1 where l: "snapshot_loop ser de (fd_cum_processed d) dk = (r1, dk1)" by (metis surj_pair)
  then have eq: "r = r1" "dk' = dk1" using assms(4) by (auto simp: snapshot_def)
  from snapshot_loop_saves[OF assms(1-3) l] assms(5)
  obtain bs st where saved: "r1 = Ok ()" "hm_wf (dk_state dk1)" "hm_get (dk_state dk1) p = Some bs"
    "de bs = Some st" "ps_cum_processed st = c"
    by (force split: option.splits)
  then have "file_cum (file_dedup_new de w dk') p = c"
    by (simp add: file_cum_def file_dedup_new_def eq load_states_get)
  then show ?thesis using saved(1) by (simp add: eq file_is_processed_def)
qed

theorem snapshot_restores_watermarks_witness:
  "\<exists>dk. snapshot ex_ser ex_de
      (\<lparr>fd_cum_processed = [(4, 9)], fd_gap_window = [], fd_window_size = 10\<rparr>, empty_disk) =
      (Ok (), \<lparr>fd_cum_processed = [(4, 9)], fd_gap_window = [], fd_window_size = 10\<rparr>, dk)
    \<and> file_cum (file_dedup_new ex_de 10 dk) 4 = 9"
proof -
  let ?d = "\<lparr>fd_cum_processed = [(4, 9)], fd_gap_window = [], fd_window_size = 10\<rparr>"
  obtain r d dk where s: "snapshot ex_ser ex_de (?d, empty_disk) = (r, d, dk)" by (metis surj_pair)
  have "d = ?d" using s by (auto simp: snapshot_def split: prod.splits)
  moreover have "r = Ok () \<and> file_cum (file_dedup_new ex_de 10 dk) 4 = 9
      \<and> (\<forall>m \<le> 9. file_is_processed (file_dedup_new ex_de 10 dk) 4 m)"
    by (rule snapshot_restores_watermarks[OF ex_json_ok _ _ s])
      (simp_all add: hm_wf_def empty_disk_def hm_get_def)
  ultimately show ?thesis using s by auto
qed

end
