(* ===== verification/Reliability.thy ===== *)
theory Reliability
  imports Storage_File
begin

text \<open>
  The reliability layer: \<open>mesh-session/src/reliability.rs\<close>. Sending a message gives it the next
  identifier, writes it to the log and puts it on the wire when the receiver's credits allow, or
  queues it; acknowledgements truncate the log, renew the credits and drain the queue; a resume
  retransmits from the log. The storage is behind \<open>dyn\<close> traits, so the operations take a record of
  its methods; the writer is a type parameter of the code, so it is a function parameter here. The
  CBOR packages are the parameters \<open>enc\<close> (metadata of a frame), \<open>senc\<close> and \<open>sdec\<close> (the
  acknowledgement and resume records).
\<close>

section \<open>Storage methods\<close>

record ('w, 'd) storage_ops =
  so_append :: "peer \<Rightarrow> wal_frame \<Rightarrow> 'w \<Rightarrow> (storage_error, unit) outcome \<times> 'w"
  so_range :: "'w \<Rightarrow> peer \<Rightarrow> u64 \<Rightarrow> nat option \<Rightarrow> (storage_error, wal_entry list) outcome"
  so_truncate_through :: "peer \<Rightarrow> u64 \<Rightarrow> 'w \<Rightarrow> (storage_error, unit) outcome \<times> 'w"
  so_last_appended :: "'w \<Rightarrow> peer \<Rightarrow> (storage_error, u64) outcome"
  so_load_ack :: "'w \<Rightarrow> peer \<Rightarrow> (storage_error, ack_state) outcome"
  so_store_ack :: "peer \<Rightarrow> ack_state \<Rightarrow> 'w \<Rightarrow> (storage_error, unit) outcome \<times> 'w"
  so_is_processed :: "'d \<Rightarrow> peer \<Rightarrow> u64 \<Rightarrow> (storage_error, bool) outcome"
  so_mark_processed :: "peer \<Rightarrow> u64 \<Rightarrow> 'd \<Rightarrow> (storage_error, unit) outcome \<times> 'd"
  so_cum_processed :: "'d \<Rightarrow> peer \<Rightarrow> (storage_error, u64) outcome"

text \<open>\<open>Storage::from_mode(StorageMode::InMemory)\<close>\<close>

definition memory_ops :: "(memory_wal, memory_dedup) storage_ops" where
  "memory_ops =
     \<lparr>so_append = mem_append, so_range = mem_range, so_truncate_through = mem_truncate_through,
      so_last_appended = mem_last_appended, so_load_ack = mem_load_ack, so_store_ack = mem_store_ack,
      so_is_processed = (\<lambda>d p m. Ok (mem_is_processed d p m)),
      so_mark_processed = (\<lambda>p m d. (Ok (), mem_mark_processed p m d)),
      so_cum_processed = (\<lambda>d p. Ok (mem_cum d p))\<rparr>"

section \<open>State\<close>

text \<open>The \<open>i64\<close> credits are integers: they are bounded by a \<open>u32\<close> and a frame length.\<close>

record send_state =
  ss_next_msg_id :: u64
  ss_cum_acked :: u64
  ss_credits_bytes :: int
  ss_pending_frames :: "(u64 \<times> bytes) list"

definition send_state_default :: send_state where
  "send_state_default =
     \<lparr>ss_next_msg_id = 1, ss_cum_acked = 0, ss_credits_bytes = 0, ss_pending_frames = []\<rparr>"

text \<open>Instants are times on the monotonic clock.\<close>

record recv_state =
  rv_cum_processed :: u64
  rv_credits_max :: u32
  rv_credits_avail :: int
  rv_ack_pending :: bool
  rv_last_ack_sent :: nat
  rv_msgs_since_ack :: u32

definition recv_state_new :: "nat \<Rightarrow> u32 \<Rightarrow> recv_state" where
  "recv_state_new now credits_max =
     \<lparr>rv_cum_processed = 0, rv_credits_max = credits_max, rv_credits_avail = uint credits_max,
      rv_ack_pending = False, rv_last_ack_sent = now, rv_msgs_since_ack = 0\<rparr>"

record ack_meta =
  am_cum_ack :: u64
  am_credits :: u32

record resume_meta =
  re_resume :: bool
  re_sender_cum_ack :: u64
  re_receiver_cum_proc :: u64
  re_starting_credits :: "u32 option"

record ('w, 'd) reliability_manager =
  rm_wal :: 'w
  rm_dedup :: 'd
  rm_send_states :: "(peer, send_state) hmap"
  rm_recv_states :: "(peer, recv_state) hmap"
  rm_ack_interval :: nat
  rm_ack_batch_size :: u32
  rm_default_recv_window :: u32

definition reliability_manager_new ::
  "'w \<Rightarrow> 'd \<Rightarrow> nat \<Rightarrow> u32 \<Rightarrow> u32 \<Rightarrow> ('w, 'd) reliability_manager" where
  "reliability_manager_new w d interval batch window =
     \<lparr>rm_wal = w, rm_dedup = d, rm_send_states = [], rm_recv_states = [],
      rm_ack_interval = interval, rm_ack_batch_size = batch, rm_default_recv_window = window\<rparr>"

datatype rel_error = RelStorage storage_error | RelCodec codec_error | RelWrite | RelCbor

text \<open>A fallible step on a state, and what comes after it when it succeeds.\<close>

definition sbind :: "('e, 'a) outcome \<times> 's \<Rightarrow> ('a \<Rightarrow> 's \<Rightarrow> ('e, 'b) outcome \<times> 's) \<Rightarrow> ('e, 'b) outcome \<times> 's" where
  "sbind r f = (case r of (Ok a, s) \<Rightarrow> f a s | (Err e, s) \<Rightarrow> (Err e, s) | (Panic, s) \<Rightarrow> (Panic, s))"

section \<open>Sending\<close>

definition init_send_state :: "('w, 'd) storage_ops \<Rightarrow> peer \<Rightarrow> ('w, 'd) reliability_manager
    \<Rightarrow> (rel_error, unit) outcome \<times> ('w, 'd) reliability_manager" where
  "init_send_state S p m =
     (if hm_contains (rm_send_states m) p then (Ok (), m)
      else sbind (map_err RelStorage (so_last_appended S (rm_wal m) p), m) (\<lambda>last_appended m.
           sbind (map_err RelStorage (so_load_ack S (rm_wal m) p), m) (\<lambda>ack m.
           let st = \<lparr>ss_next_msg_id = last_appended + 1, ss_cum_acked = cum_acked ack,
                     ss_credits_bytes = 0, ss_pending_frames = []\<rparr>
           in (Ok (), m\<lparr>rm_send_states := hm_insert p st (rm_send_states m)\<rparr>))))"

definition init_recv_state :: "('w, 'd) storage_ops \<Rightarrow> nat \<Rightarrow> peer \<Rightarrow> ('w, 'd) reliability_manager
    \<Rightarrow> (rel_error, unit) outcome \<times> ('w, 'd) reliability_manager" where
  "init_recv_state S now p m =
     (if hm_contains (rm_recv_states m) p then (Ok (), m)
      else sbind (map_err RelStorage (so_cum_processed S (rm_dedup m) p), m) (\<lambda>cum m.
           let st = \<lparr>rv_cum_processed = cum, rv_credits_max = rm_default_recv_window m,
                     rv_credits_avail = uint (rm_default_recv_window m), rv_ack_pending = False,
                     rv_last_ack_sent = now, rv_msgs_since_ack = 0\<rparr>
           in (Ok (), m\<lparr>rm_recv_states := hm_insert p st (rm_recv_states m)\<rparr>)))"

definition set_send :: "peer \<Rightarrow> send_state \<Rightarrow> ('w, 'd) reliability_manager \<Rightarrow> ('w, 'd) reliability_manager" where
  "set_send p st m = m\<lparr>rm_send_states := hm_insert p st (rm_send_states m)\<rparr>"

definition set_recv :: "peer \<Rightarrow> recv_state \<Rightarrow> ('w, 'd) reliability_manager \<Rightarrow> ('w, 'd) reliability_manager" where
  "set_recv p st m = m\<lparr>rm_recv_states := hm_insert p st (rm_recv_states m)\<rparr>"

text \<open>The frame of a message.\<close>

definition data_frame_bytes :: "(bytes \<Rightarrow> u32) \<Rightarrow> (cbor_value \<Rightarrow> bytes option)
    \<Rightarrow> node_id \<Rightarrow> peer \<Rightarrow> u64 \<Rightarrow> bytes \<Rightarrow> (codec_error, bytes) outcome" where
  "data_frame_bytes crc enc my_node_id p msg_id payload =
     frame_builder_build crc enc
       (set_payload payload
          (meta_insert_str ''content-type'' ''application/x-data''
             (frame_builder_new (fast_header_new Data my_node_id p msg_id))))
       (16 * 1024 * 1024)"

text \<open>
  \<open>write bs o\<close> is \<open>write_all\<close>: whether it succeeded, and the writer after it. The second component
  of the state is the writer.
\<close>

definition send_data :: "('w, 'd) storage_ops \<Rightarrow> (bytes \<Rightarrow> u32) \<Rightarrow> (cbor_value \<Rightarrow> bytes option)
    \<Rightarrow> (bytes \<Rightarrow> 'o \<Rightarrow> bool \<times> 'o) \<Rightarrow> peer \<Rightarrow> node_id \<Rightarrow> bytes
    \<Rightarrow> ('w, 'd) reliability_manager \<times> 'o
    \<Rightarrow> (rel_error, unit) outcome \<times> ('w, 'd) reliability_manager \<times> 'o" where
  "send_data S crc enc write p my_node_id payload s = (case s of (m, out) \<Rightarrow>
     sbind (case init_send_state S p m of (r, m) \<Rightarrow> (r, m, out)) (\<lambda>_ (m, out).
     sbind (or_panic (hm_get (rm_send_states m) p), m, out) (\<lambda>st (m, out).
     let msg_id = ss_next_msg_id st;
         st = st\<lparr>ss_next_msg_id := ss_next_msg_id st + 1\<rparr>;
         m = set_send p st m
     in sbind (map_err RelCodec (data_frame_bytes crc enc my_node_id p msg_id payload), m, out)
          (\<lambda>frame_bytes (m, out).
        sbind (case so_append S p \<lparr>wf_msg_id = msg_id, wf_bytes = frame_bytes,
                                   wf_approx_len = length frame_bytes\<rparr> (rm_wal m) of
                 (r, w) \<Rightarrow> (map_err RelStorage r, m\<lparr>rm_wal := w\<rparr>, out)) (\<lambda>_ (m, out).
        if ss_credits_bytes st \<ge> int (length frame_bytes)
        then (case write frame_bytes out of
                (False, out) \<Rightarrow> (Err RelWrite, m, out)
              | (True, out) \<Rightarrow>
                  (Ok (), set_send p (st\<lparr>ss_credits_bytes :=
                              ss_credits_bytes st - int (length frame_bytes)\<rparr>) m, out))
        else (Ok (), set_send p (st\<lparr>ss_pending_frames :=
                              ss_pending_frames st @ [(msg_id, frame_bytes)]\<rparr>) m, out))))))"

section \<open>Receiving\<close>

definition process_data_frame :: "('w, 'd) storage_ops \<Rightarrow> nat \<Rightarrow> peer \<Rightarrow> u64 \<Rightarrow> bytes
    \<Rightarrow> ('w, 'd) reliability_manager \<Rightarrow> (rel_error, bool) outcome \<times> ('w, 'd) reliability_manager" where
  "process_data_frame S now p msg_id payload m =
     sbind (init_recv_state S now p m) (\<lambda>_ m.
     sbind (map_err RelStorage (so_is_processed S (rm_dedup m) p msg_id), m) (\<lambda>done m.
     if done
     then (case hm_get (rm_recv_states m) p of
             Some st \<Rightarrow> (Ok False, set_recv p (st\<lparr>rv_ack_pending := True\<rparr>) m)
           | None \<Rightarrow> (Ok False, m))
     else sbind (case so_mark_processed S p msg_id (rm_dedup m) of
                   (r, d) \<Rightarrow> (map_err RelStorage r, m\<lparr>rm_dedup := d\<rparr>)) (\<lambda>_ m.
          sbind (or_panic (hm_get (rm_recv_states m) p), m) (\<lambda>st m.
          sbind (map_err RelStorage (so_cum_processed S (rm_dedup m) p), m) (\<lambda>cum m.
          (Ok True, set_recv p (st\<lparr>rv_cum_processed := cum,
                     rv_credits_avail := rv_credits_avail st - int (length payload),
                     rv_ack_pending := True,
                     rv_msgs_since_ack := rv_msgs_since_ack st + 1\<rparr>) m))))))"

section \<open>Acknowledgements\<close>

text \<open>
  The loop over a queue of frames, from its head, while the credits last: whether the writes
  succeeded, the credits left, the number of frames written, the writer.
\<close>

fun write_while :: "(bytes \<Rightarrow> 'o \<Rightarrow> bool \<times> 'o) \<Rightarrow> int \<Rightarrow> bytes list \<Rightarrow> 'o \<Rightarrow> bool \<times> int \<times> nat \<times> 'o" where
  "write_while write credits [] out = (True, credits, 0, out)"
| "write_while write credits (bs # frames) out =
     (if credits \<ge> int (length bs)
      then (case write bs out of
              (False, out) \<Rightarrow> (False, credits, 0, out)
            | (True, out) \<Rightarrow>
                (case write_while write (credits - int (length bs)) frames out of
                   (r, credits, n, out) \<Rightarrow> (r, credits, Suc n, out)))
      else (True, credits, 0, out))"

text \<open>
  A write error returns before the sent frames are taken out of the queue.
\<close>

definition process_ack_frame :: "('w, 'd) storage_ops \<Rightarrow> (bytes \<Rightarrow> 'o \<Rightarrow> bool \<times> 'o) \<Rightarrow> peer \<Rightarrow> ack_meta
    \<Rightarrow> ('w, 'd) reliability_manager \<times> 'o
    \<Rightarrow> (rel_error, unit) outcome \<times> ('w, 'd) reliability_manager \<times> 'o" where
  "process_ack_frame S write p ack s = (case s of (m, out) \<Rightarrow>
     sbind (case init_send_state S p m of (r, m) \<Rightarrow> (r, m, out)) (\<lambda>_ (m, out).
     sbind (or_panic (hm_get (rm_send_states m) p), m, out) (\<lambda>st (m, out).
     sbind (if am_cum_ack ack > ss_cum_acked st
            then let st = st\<lparr>ss_cum_acked := am_cum_ack ack\<rparr>;
                     m = set_send p st m
                 in sbind (case so_store_ack S p \<lparr>cum_acked = am_cum_ack ack\<rparr> (rm_wal m) of
                             (r, w) \<Rightarrow> (map_err RelStorage r, m\<lparr>rm_wal := w\<rparr>, out)) (\<lambda>_ (m, out).
                    case so_truncate_through S p (am_cum_ack ack) (rm_wal m) of
                      (r, w) \<Rightarrow> (map_err RelStorage (case r of Ok _ \<Rightarrow> Ok st | Err e \<Rightarrow> Err e | Panic \<Rightarrow> Panic),
                                 m\<lparr>rm_wal := w\<rparr>, out))
            else (Ok st, m, out)) (\<lambda>st (m, out).
     case write_while write (uint (am_credits ack)) (map snd (ss_pending_frames st)) out of
       (ok, credits, n, out) \<Rightarrow>
         if ok
         then (Ok (), set_send p (st\<lparr>ss_credits_bytes := credits,
                        ss_pending_frames := drop n (ss_pending_frames st)\<rparr>) m, out)
         else (Err RelWrite, set_send p (st\<lparr>ss_credits_bytes := credits\<rparr>) m, out)))))"

text \<open>The acknowledgement record; a CBOR map is ordered by the length of its keys, then by them.\<close>

definition ack_value :: "u64 \<Rightarrow> int \<Rightarrow> cbor_value" where
  "ack_value cum credits =
     CMap [(CText ''credits'', CInteger credits), (CText ''cum_ack'', CInteger (uint cum))]"

definition ack_builder :: "node_id \<Rightarrow> peer \<Rightarrow> bytes \<Rightarrow> frame_builder" where
  "ack_builder my_node_id p ack_bytes =
     set_payload []
       (meta_insert_bytes ''ack'' ack_bytes
          (meta_insert_str ''content-type'' ''application/x-ack''
             (frame_builder_new (fast_header_new MeshAck my_node_id p 0))))"

definition should_ack :: "nat \<Rightarrow> ('w, 'd) reliability_manager \<Rightarrow> recv_state \<Rightarrow> bool" where
  "should_ack now m st \<longleftrightarrow>
     rv_ack_pending st
     \<and> (now - rv_last_ack_sent st \<ge> rm_ack_interval m
        \<or> rv_msgs_since_ack st \<ge> rm_ack_batch_size m
        \<or> rv_credits_avail st \<le> uint (rv_credits_max st) div 4)"

definition maybe_build_ack :: "('w, 'd) storage_ops \<Rightarrow> (bytes \<Rightarrow> u32) \<Rightarrow> (cbor_value \<Rightarrow> bytes option)
    \<Rightarrow> (cbor_value \<Rightarrow> bytes option) \<Rightarrow> nat \<Rightarrow> peer \<Rightarrow> node_id \<Rightarrow> ('w, 'd) reliability_manager
    \<Rightarrow> (rel_error, bytes option) outcome \<times> ('w, 'd) reliability_manager" where
  "maybe_build_ack S crc enc senc now p my_node_id m =
     sbind (init_recv_state S now p m) (\<lambda>_ m.
     sbind (or_panic (hm_get (rm_recv_states m) p), m) (\<lambda>st m.
     if should_ack now m st
     then let st = (if rv_credits_avail st \<le> uint (rv_credits_max st) div 2
                    then st\<lparr>rv_credits_avail := uint (rv_credits_max st)\<rparr> else st);
              m = set_recv p st m
          in sbind (ok_or (senc (ack_value (rv_cum_processed st) (rv_credits_avail st))) RelCbor, m)
               (\<lambda>ack_bytes m.
             sbind (map_err RelCodec (frame_builder_build crc enc (ack_builder my_node_id p ack_bytes)
                      (1024 * 1024)), m) (\<lambda>ack_frame m.
             (Ok (Some ack_frame),
              set_recv p (st\<lparr>rv_ack_pending := False, rv_last_ack_sent := now,
                             rv_msgs_since_ack := 0\<rparr>) m)))
     else (Ok None, m)))"

text \<open>\<open>map.iter().find(..)\<close> on a text key.\<close>

definition find_text_key :: "string \<Rightarrow> cbor_value \<Rightarrow> cbor_value option" where
  "find_text_key k v =
     (case v of CMap entries \<Rightarrow> map_option snd (find (\<lambda>(k', _). k' = CText k) entries) | _ \<Rightarrow> None)"

text \<open>\<open>*i as u64\<close> and \<open>*i as u32\<close> keep the low bits of the \<open>i128\<close>.\<close>

definition find_u64 :: "string \<Rightarrow> cbor_value \<Rightarrow> u64 option" where
  "find_u64 k v = (case find_text_key k v of Some (CInteger i) \<Rightarrow> Some (word_of_int i) | _ \<Rightarrow> None)"

definition find_u32 :: "string \<Rightarrow> cbor_value \<Rightarrow> u32 option" where
  "find_u32 k v = (case find_text_key k v of Some (CInteger i) \<Rightarrow> Some (word_of_int i) | _ \<Rightarrow> None)"

definition find_bool :: "string \<Rightarrow> cbor_value \<Rightarrow> bool option" where
  "find_bool k v = (case find_text_key k v of Some (CBool b) \<Rightarrow> Some b | _ \<Rightarrow> None)"

definition parse_ack_meta :: "(bytes \<Rightarrow> cbor_value option) \<Rightarrow> bytes \<Rightarrow> (rel_error, ack_meta) outcome" where
  "parse_ack_meta sdec raw =
     obind (ok_or (sdec raw) RelCbor) (\<lambda>meta.
       Ok \<lparr>am_cum_ack = get_or 0 (find_u64 ''cum_ack'' meta),
           am_credits = get_or 0 (find_u32 ''credits'' meta)\<rparr>)"

section \<open>Resuming\<close>

definition resume_value :: "u64 \<Rightarrow> u64 \<Rightarrow> u32 \<Rightarrow> cbor_value" where
  "resume_value sender_cum_ack receiver_cum_proc credits =
     CMap [(CText ''resume'', CBool True),
           (CText ''sender_cum_ack'', CInteger (uint sender_cum_ack)),
           (CText ''starting_credits'', CInteger (uint credits)),
           (CText ''receiver_cum_proc'', CInteger (uint receiver_cum_proc))]"

definition build_resume :: "('w, 'd) storage_ops \<Rightarrow> (bytes \<Rightarrow> u32) \<Rightarrow> (cbor_value \<Rightarrow> bytes option)
    \<Rightarrow> (cbor_value \<Rightarrow> bytes option) \<Rightarrow> nat \<Rightarrow> peer \<Rightarrow> node_id \<Rightarrow> ('w, 'd) reliability_manager
    \<Rightarrow> (rel_error, bytes) outcome \<times> ('w, 'd) reliability_manager" where
  "build_resume S crc enc senc now p my_node_id m =
     sbind (init_send_state S p m) (\<lambda>_ m.
     sbind (init_recv_state S now p m) (\<lambda>_ m.
     sbind (or_panic (hm_get (rm_send_states m) p), m) (\<lambda>ss m.
     sbind (or_panic (hm_get (rm_recv_states m) p), m) (\<lambda>rv m.
     sbind (ok_or (senc (resume_value (ss_cum_acked ss) (rv_cum_processed rv) (rv_credits_max rv))) RelCbor, m)
       (\<lambda>resume_bytes m.
     (map_err RelCodec (frame_builder_build crc enc
        (set_payload []
          (meta_insert_bytes ''resume'' resume_bytes
            (meta_insert_str ''content-type'' ''application/x-resume''
              (frame_builder_new (fast_header_new Resume my_node_id p 0)))))
        (1024 * 1024)), m))))))"

definition parse_resume_meta :: "(bytes \<Rightarrow> cbor_value option) \<Rightarrow> bytes \<Rightarrow> (rel_error, resume_meta) outcome" where
  "parse_resume_meta sdec raw =
     obind (ok_or (sdec raw) RelCbor) (\<lambda>meta.
       Ok \<lparr>re_resume = get_or False (find_bool ''resume'' meta),
           re_sender_cum_ack = get_or 0 (find_u64 ''sender_cum_ack'' meta),
           re_receiver_cum_proc = get_or 0 (find_u64 ''receiver_cum_proc'' meta),
           re_starting_credits = find_u32 ''starting_credits'' meta\<rparr>)"

definition handle_resume :: "('w, 'd) storage_ops \<Rightarrow> (bytes \<Rightarrow> 'o \<Rightarrow> bool \<times> 'o) \<Rightarrow> peer \<Rightarrow> resume_meta
    \<Rightarrow> ('w, 'd) reliability_manager \<times> 'o
    \<Rightarrow> (rel_error, unit) outcome \<times> ('w, 'd) reliability_manager \<times> 'o" where
  "handle_resume S write p re s = (case s of (m, out) \<Rightarrow>
     sbind (case init_send_state S p m of (r, m) \<Rightarrow> (r, m, out)) (\<lambda>_ (m, out).
     sbind (or_panic (hm_get (rm_send_states m) p), m, out) (\<lambda>st (m, out).
     let st = (case re_starting_credits re of
                 Some c \<Rightarrow> st\<lparr>ss_credits_bytes := uint c\<rparr> | None \<Rightarrow> st);
         m = set_send p st m
     in sbind (map_err RelStorage (so_range S (rm_wal m) p (re_receiver_cum_proc re) None), m, out)
          (\<lambda>entries (m, out).
        case write_while write (ss_credits_bytes st) (map we_bytes entries) out of
          (ok, credits, n, out) \<Rightarrow>
            ((if ok then Ok () else Err RelWrite),
             set_send p (st\<lparr>ss_credits_bytes := credits\<rparr>) m, out)))))"

section \<open>Specification\<close>

text \<open>A writer that accepts everything and remembers it.\<close>

definition collect :: "bytes \<Rightarrow> bytes list \<Rightarrow> bool \<times> bytes list" where
  "collect bs out = (True, out @ [bs])"

definition total_len :: "bytes list \<Rightarrow> int" where
  "total_len frames = int (length (concat frames))"

text \<open>The longest prefix of a queue that the credits cover.\<close>

fun fit_count :: "int \<Rightarrow> bytes list \<Rightarrow> nat" where
  "fit_count c [] = 0"
| "fit_count c (bs # frames) =
     (if int (length bs) \<le> c then Suc (fit_count (c - int (length bs)) frames) else 0)"

text \<open>What is kept of the states of all peers: no send state owes credits, and no receive state has more
  credits than its window.\<close>

definition rel_ok :: "('w, 'd) reliability_manager \<Rightarrow> bool" where
  "rel_ok m \<longleftrightarrow>
     (\<forall>p st. hm_get (rm_send_states m) p = Some st \<longrightarrow> 0 \<le> ss_credits_bytes st)
     \<and> (\<forall>p st. hm_get (rm_recv_states m) p = Some st \<longrightarrow> rv_credits_avail st \<le> uint (rv_credits_max st))"

section \<open>The storage contract\<close>

text \<open>A storage whose two halves implement their traits.\<close>

locale storage =
  w: wal winv fits "so_append S" "so_range S" "so_truncate_through S" "so_last_appended S"
    "so_load_ack S" "so_store_ack S"
  + d: dedup dinv room window isp mk cm
  for winv :: "'w \<Rightarrow> bool" and fits and S :: "('w, 'd) storage_ops"
    and dinv :: "'d \<Rightarrow> bool" and room window isp mk cm
  + assumes S_is_processed: "so_is_processed S = (\<lambda>d p m. Ok (isp d p m))"
    and S_mark: "so_mark_processed S = (\<lambda>p m d. (Ok (), mk p m d))"
    and S_cum: "so_cum_processed S = (\<lambda>d p. Ok (cm d p))"

interpretation mem: storage "\<lambda>_. True" "\<lambda>_. True" memory_ops "mem_dedup_ok w" "dedup_room w"
  "max 1 (unat w)" mem_is_processed mem_mark_processed mem_cum for w
proof -
  have "wal (\<lambda>_. True) (\<lambda>_. True) (so_append memory_ops) (so_range memory_ops)
      (so_truncate_through memory_ops) (so_last_appended memory_ops) (so_load_ack memory_ops)
      (so_store_ack memory_ops)"
    using mem_wal.wal_axioms by (simp add: memory_ops_def)
  then show "storage (\<lambda>_. True) (\<lambda>_. True) memory_ops (mem_dedup_ok w) (dedup_room w)
      (max 1 (unat w)) mem_is_processed mem_mark_processed mem_cum"
    unfolding storage_def using mem_dedup.dedup_axioms
    by (auto simp: storage_axioms_def memory_ops_def)
qed

section \<open>Lemmas on sequencing\<close>

lemma sbind_simps [simp]:
  "sbind (Ok a, s) f = f a s" "sbind (Err e, s) f = (Err e, s)" "sbind (Panic, s) f = (Panic, s)"
  by (simp_all add: sbind_def)

lemma sbind_eq_Ok: "sbind r f = (Ok b, s') \<longleftrightarrow> (\<exists>a s. r = (Ok a, s) \<and> f a s = (Ok b, s'))"
  by (cases r; cases "fst r") (auto simp: sbind_def)

section \<open>Lemmas on credits\<close>

lemma write_while_collect:
  "write_while collect c frames out =
     (True, c - total_len (take (fit_count c frames) frames), fit_count c frames,
      out @ take (fit_count c frames) frames)"
  by (induction c frames arbitrary: out rule: fit_count.induct)
    (auto simp: collect_def total_len_def)

lemma fit_count_bounds:
  assumes "0 \<le> c"
  shows "fit_count c frames \<le> length frames \<and> total_len (take (fit_count c frames) frames) \<le> c
    \<and> (\<forall>n. n \<le> length frames \<and> total_len (take n frames) \<le> c \<longrightarrow> n \<le> fit_count c frames)"
  using assms
proof (induction c frames rule: fit_count.induct)
  case (2 c bs frames)
  show ?case
  proof (cases "int (length bs) \<le> c")
    case True
    from 2(1)[OF True] True have IH: "fit_count (c - int (length bs)) frames \<le> length frames"
      "total_len (take (fit_count (c - int (length bs)) frames) frames) \<le> c - int (length bs)"
      "\<And>n. n \<le> length frames \<and> total_len (take n frames) \<le> c - int (length bs) \<Longrightarrow>
        n \<le> fit_count (c - int (length bs)) frames" by auto
    have "n \<le> Suc (fit_count (c - int (length bs)) frames)"
      if "n \<le> length (bs # frames)" "total_len (take n (bs # frames)) \<le> c" for n
      using that IH(3)[of "n - 1"] by (cases n) (auto simp: total_len_def)
    with True IH(1,2) show ?thesis by (auto simp: total_len_def)
  next
    case False
    have "n = 0" if "n \<le> length (bs # frames)" "total_len (take n (bs # frames)) \<le> c" for n
      using that False by (cases n) (auto simp: total_len_def)
    with False 2(2) show ?thesis by (auto simp: total_len_def)
  qed
qed (simp add: total_len_def)

lemma fit_count_all: "total_len frames \<le> c \<Longrightarrow> fit_count c frames = length frames"
  by (induction c frames rule: fit_count.induct) (auto simp: total_len_def)

section \<open>The operations on a storage that keeps its contract\<close>

lemma hm_insert_insert [simp]: "hm_insert k v (hm_insert k v' m) = hm_insert k v m"
  by (induction k v' m rule: hm_insert.induct) auto

lemma set_send_simps [simp]:
  "set_send p st (set_send p st' m) = set_send p st m"
  "hm_get (rm_send_states (set_send p st m)) q = (if q = p then Some st else hm_get (rm_send_states m) q)"
  "rm_wal (set_send p st m) = rm_wal m" "rm_dedup (set_send p st m) = rm_dedup m"
  "rm_recv_states (set_send p st m) = rm_recv_states m"
  "(set_send p st m)\<lparr>rm_wal := w\<rparr> = set_send p st (m\<lparr>rm_wal := w\<rparr>)"
  by (simp_all add: set_send_def)

lemma set_recv_simps [simp]:
  "set_recv p st (set_recv p st' m) = set_recv p st m"
  "hm_get (rm_recv_states (set_recv p st m)) q = (if q = p then Some st else hm_get (rm_recv_states m) q)"
  "rm_wal (set_recv p st m) = rm_wal m" "rm_dedup (set_recv p st m) = rm_dedup m"
  "rm_send_states (set_recv p st m) = rm_send_states m"
  "(set_recv p st m)\<lparr>rm_dedup := d\<rparr> = set_recv p st (m\<lparr>rm_dedup := d\<rparr>)"
  "rm_ack_interval (set_recv p st m) = rm_ack_interval m"
  "rm_ack_batch_size (set_recv p st m) = rm_ack_batch_size m"
  by (simp_all add: set_recv_def)

text \<open>The send state of a peer, initialised from the log when there is none.\<close>

definition the_ok :: "'a \<Rightarrow> ('e, 'a) outcome \<Rightarrow> 'a" where
  "the_ok d r = (case r of Ok a \<Rightarrow> a | _ \<Rightarrow> d)"

definition send_state_of :: "('w, 'd) storage_ops \<Rightarrow> ('w, 'd) reliability_manager \<Rightarrow> peer \<Rightarrow> send_state" where
  "send_state_of S m p =
     (case hm_get (rm_send_states m) p of
        Some st \<Rightarrow> st
      | None \<Rightarrow> \<lparr>ss_next_msg_id = the_ok 0 (so_last_appended S (rm_wal m) p) + 1,
                 ss_cum_acked = cum_acked (the_ok ack_state_default (so_load_ack S (rm_wal m) p)),
                 ss_credits_bytes = 0, ss_pending_frames = []\<rparr>)"

definition recv_state_of :: "('w, 'd) storage_ops \<Rightarrow> nat \<Rightarrow> ('w, 'd) reliability_manager \<Rightarrow> peer \<Rightarrow> recv_state" where
  "recv_state_of S now m p =
     (case hm_get (rm_recv_states m) p of
        Some st \<Rightarrow> st
      | None \<Rightarrow> \<lparr>rv_cum_processed = the_ok 0 (so_cum_processed S (rm_dedup m) p),
                 rv_credits_max = rm_default_recv_window m,
                 rv_credits_avail = uint (rm_default_recv_window m), rv_ack_pending = False,
                 rv_last_ack_sent = now, rv_msgs_since_ack = 0\<rparr>)"

text \<open>The log frame of a message.\<close>

definition to_wal :: "u64 \<Rightarrow> bytes \<Rightarrow> wal_frame" where
  "to_wal i fb = \<lparr>wf_msg_id = i, wf_bytes = fb, wf_approx_len = length fb\<rparr>"

context storage
begin

lemma init_send_eq:
  assumes "winv (rm_wal m)"
  obtains m' where "init_send_state S p m = (Ok (), m')"
    and "hm_get (rm_send_states m') p = Some (send_state_of S m p)"
    and "rm_wal m' = rm_wal m" and "\<And>st w. set_send p st (m'\<lparr>rm_wal := w\<rparr>) = set_send p st (m\<lparr>rm_wal := w\<rparr>)"
    and "\<And>st. set_send p st m' = set_send p st m"
proof (cases "hm_get (rm_send_states m) p")
  case (Some st)
  then show thesis using that[of m] by (simp add: init_send_state_def hm_contains_def send_state_of_def)
next
  case None
  obtain i a where "so_last_appended S (rm_wal m) p = Ok i" "so_load_ack S (rm_wal m) p = Ok a"
    using w.last_ok[OF assms] w.load_ok[OF assms] by blast
  with None have "init_send_state S p m = (Ok (), set_send p (send_state_of S m p) m)"
    by (simp add: init_send_state_def hm_contains_def send_state_of_def the_ok_def set_send_def)
  then show thesis using that[of "set_send p (send_state_of S m p) m"] by simp
qed

lemma send_data_eq:
  assumes "winv (rm_wal m)"
    and "data_frame_bytes crc enc me p i payload = Ok fb"
    and "fits (to_wal i fb)"
    and i: "i = ss_next_msg_id (send_state_of S m p)"
    and st: "st = (send_state_of S m p)\<lparr>ss_next_msg_id := i + 1\<rparr>"
  shows "send_data S crc enc collect p me payload (m, out) =
    (let m' = m\<lparr>rm_wal := snd (so_append S p (to_wal i fb) (rm_wal m))\<rparr>
     in if int (length fb) \<le> ss_credits_bytes st
        then (Ok (), set_send p (st\<lparr>ss_credits_bytes := ss_credits_bytes st - int (length fb)\<rparr>) m', out @ [fb])
        else (Ok (), set_send p (st\<lparr>ss_pending_frames := ss_pending_frames st @ [(i, fb)]\<rparr>) m', out))"
proof -
  obtain m1 where m1: "init_send_state S p m = (Ok (), m1)"
    "hm_get (rm_send_states m1) p = Some (send_state_of S m p)" "rm_wal m1 = rm_wal m"
    "\<And>st w. set_send p st (m1\<lparr>rm_wal := w\<rparr>) = set_send p st (m\<lparr>rm_wal := w\<rparr>)"
    by (rule init_send_eq[OF assms(1), of p]) blast
  obtain w' where ap: "so_append S p (to_wal i fb) (rm_wal m) = (Ok (), w')"
    using w.append_ok[OF assms(1,3), of p] by (metis prod.collapse)
  show ?thesis
    by (simp add: send_data_def m1 assms(2) st i[symmetric] Let_def collect_def
        ap ap[unfolded to_wal_def] or_panic_def)
qed

lemma send_data_build_fails:
  assumes "winv (rm_wal m)"
    and "data_frame_bytes crc enc me p (ss_next_msg_id (send_state_of S m p)) payload = Err e"
  shows "send_data S crc enc write p me payload (m, out) =
    (Err (RelCodec e), set_send p ((send_state_of S m p)
       \<lparr>ss_next_msg_id := ss_next_msg_id (send_state_of S m p) + 1\<rparr>) m, out)"
proof -
  obtain m1 where "init_send_state S p m = (Ok (), m1)"
    "hm_get (rm_send_states m1) p = Some (send_state_of S m p)" "\<And>st. set_send p st m1 = set_send p st m"
    by (rule init_send_eq[OF assms(1), of p]) blast
  then show ?thesis by (simp add: send_data_def assms(2) Let_def or_panic_def)
qed

lemma process_ack_eq:
  assumes "winv (rm_wal m)"
    and st: "st = send_state_of S m p" and c: "c = uint (am_credits ack)"
    and n: "n = fit_count c (map snd (ss_pending_frames st))"
  shows "process_ack_frame S collect p ack (m, out) =
    (Ok (), set_send p
      (st\<lparr>ss_cum_acked := max (am_cum_ack ack) (ss_cum_acked st),
          ss_credits_bytes := c - total_len (map snd (take n (ss_pending_frames st))),
          ss_pending_frames := drop n (ss_pending_frames st)\<rparr>)
      (m\<lparr>rm_wal := (if am_cum_ack ack > ss_cum_acked st
         then snd (so_truncate_through S p (am_cum_ack ack)
                (snd (so_store_ack S p \<lparr>cum_acked = am_cum_ack ack\<rparr> (rm_wal m))))
         else rm_wal m)\<rparr>),
     out @ map snd (take n (ss_pending_frames st)))"
proof -
  obtain m1 where m1: "init_send_state S p m = (Ok (), m1)"
    "hm_get (rm_send_states m1) p = Some st" "rm_wal m1 = rm_wal m"
    "\<And>st w. set_send p st (m1\<lparr>rm_wal := w\<rparr>) = set_send p st (m\<lparr>rm_wal := w\<rparr>)"
    "\<And>st. set_send p st m1 = set_send p st m"
    unfolding st by (rule init_send_eq[OF assms(1), of p]) blast
  let ?a = "\<lparr>cum_acked = am_cum_ack ack\<rparr>"
  obtain w1 where so: "so_store_ack S p ?a (rm_wal m) = (Ok (), w1)" "winv w1"
    using w.store_ok[OF assms(1), of p ?a] by (metis prod.collapse)
  obtain w2 where tr: "so_truncate_through S p (am_cum_ack ack) w1 = (Ok (), w2)"
    using w.truncate_ok[OF so(2)] by (metis prod.collapse)
  show ?thesis
  proof (cases "am_cum_ack ack > ss_cum_acked st")
    case True
    then have "max (am_cum_ack ack) (ss_cum_acked st) = am_cum_ack ack" by simp
    with True show ?thesis
      by (simp add: process_ack_frame_def m1 so(1) tr or_panic_def Let_def write_while_collect
          n[symmetric] c[symmetric] take_map split: prod.splits)
  next
    case False
    then have "max (am_cum_ack ack) (ss_cum_acked st) = ss_cum_acked st" by simp
    with False show ?thesis
      by (simp add: process_ack_frame_def m1 or_panic_def Let_def write_while_collect
          n[symmetric] c[symmetric] take_map)
  qed
qed

lemma handle_resume_eq:
  assumes "winv (rm_wal m)" and "so_range S (rm_wal m) p (re_receiver_cum_proc re) None = Ok es"
    and c: "c = (case re_starting_credits re of Some c \<Rightarrow> uint c
      | None \<Rightarrow> ss_credits_bytes (send_state_of S m p))"
  shows "handle_resume S collect p re (m, out) =
    (Ok (), set_send p ((send_state_of S m p)\<lparr>ss_credits_bytes :=
        c - total_len (take (fit_count c (map we_bytes es)) (map we_bytes es))\<rparr>) m,
     out @ take (fit_count c (map we_bytes es)) (map we_bytes es))"
proof -
  obtain m1 where "init_send_state S p m = (Ok (), m1)"
    "hm_get (rm_send_states m1) p = Some (send_state_of S m p)" "rm_wal m1 = rm_wal m"
    "\<And>st. set_send p st m1 = set_send p st m"
    by (rule init_send_eq[OF assms(1), of p]) blast
  then show ?thesis
    by (simp add: handle_resume_def assms(2) or_panic_def Let_def c write_while_collect split: option.split)
qed

end

end
