(* ===== verification/Reliability_Ops.thy ===== *)
theory Reliability_Ops
  imports Reliability
begin

text \<open>
  What the reliability layer guarantees over sequences of operations: a sender's log always holds
  what a reconnecting peer is missing, a receiver hands every message over once, credits are
  respected and renewed.
\<close>

section \<open>Runs\<close>

text \<open>What a sender does towards one peer, whatever the results.\<close>

datatype sender_op = SendOp bytes | AckOp ack_meta | ResumeOp resume_meta

fun run_sender :: "('w, 'd) storage_ops \<Rightarrow> (bytes \<Rightarrow> u32) \<Rightarrow> (cbor_value \<Rightarrow> bytes option) \<Rightarrow> peer \<Rightarrow> node_id
    \<Rightarrow> sender_op list \<Rightarrow> ('w, 'd) reliability_manager \<times> bytes list
    \<Rightarrow> ('w, 'd) reliability_manager \<times> bytes list" where
  "run_sender S crc enc p me [] s = s"
| "run_sender S crc enc p me (SendOp payload # ops) s =
     run_sender S crc enc p me ops (snd (send_data S crc enc collect p me payload s))"
| "run_sender S crc enc p me (AckOp a # ops) s =
     run_sender S crc enc p me ops (snd (process_ack_frame S collect p a s))"
| "run_sender S crc enc p me (ResumeOp re # ops) s =
     run_sender S crc enc p me ops (snd (handle_resume S collect p re s))"

text \<open>The messages of a run with their frames: the identifiers count up from \<open>i\<close>.\<close>

fun sent_frames :: "(bytes \<Rightarrow> u32) \<Rightarrow> (cbor_value \<Rightarrow> bytes option) \<Rightarrow> peer \<Rightarrow> node_id
    \<Rightarrow> u64 \<Rightarrow> sender_op list \<Rightarrow> (u64 \<times> bytes) list" where
  "sent_frames crc enc p me i [] = []"
| "sent_frames crc enc p me i (SendOp payload # ops) =
     (case data_frame_bytes crc enc me p i payload of Ok fb \<Rightarrow> [(i, fb)] | _ \<Rightarrow> [])
     @ sent_frames crc enc p me (i + 1) ops"
| "sent_frames crc enc p me i (AckOp a # ops) = sent_frames crc enc p me i ops"
| "sent_frames crc enc p me i (ResumeOp re # ops) = sent_frames crc enc p me i ops"

text \<open>The messages a receiver decodes from frames.\<close>

definition arrivals :: "bytes list \<Rightarrow> (u64 \<times> bytes) list" where
  "arrivals frames = concat (map (\<lambda>fb.
     case fst (frame_decode decoder_new fb) of
       Ok (Some f) \<Rightarrow> [(fh_msg_id (fast f), payload_or_cipher f)] | _ \<Rightarrow> []) frames)"

text \<open>What a receiver does with data frames: the identifiers that are new, in order.\<close>

fun receive_all :: "('w, 'd) storage_ops \<Rightarrow> nat \<Rightarrow> peer \<Rightarrow> (u64 \<times> bytes) list
    \<Rightarrow> ('w, 'd) reliability_manager \<Rightarrow> u64 list \<times> ('w, 'd) reliability_manager" where
  "receive_all S now p [] m = ([], m)"
| "receive_all S now p ((i, payload) # msgs) m =
     (case process_data_frame S now p i payload m of
        (Ok True, m') \<Rightarrow> (case receive_all S now p msgs m' of (ds, m'') \<Rightarrow> (i # ds, m''))
      | (_, m') \<Rightarrow> receive_all S now p msgs m')"

section \<open>Lemmas\<close>

lemma data_frame_bytes_no_panic: "data_frame_bytes crc enc me p i payload \<noteq> Panic"
  by (auto simp: data_frame_bytes_def frame_builder_build_def meta_build_def frame_encode_def
      seal_payload_static_def obind_eq_Ok Let_def ok_or_def split: option.splits outcome.splits elim!: obind.elims)

context storage
begin

lemma init_recv_eq:
  obtains m' where "init_recv_state S now p m = (Ok (), m')"
    and "hm_get (rm_recv_states m') p = Some (recv_state_of S now m p)"
    and "rm_dedup m' = rm_dedup m" and "rm_ack_interval m' = rm_ack_interval m"
    and "rm_ack_batch_size m' = rm_ack_batch_size m"
    and "\<And>st d. set_recv p st (m'\<lparr>rm_dedup := d\<rparr>) = set_recv p st (m\<lparr>rm_dedup := d\<rparr>)"
    and "\<And>st. set_recv p st m' = set_recv p st m"
proof (cases "hm_get (rm_recv_states m) p")
  case (Some st)
  then show thesis using that[of m] by (simp add: init_recv_state_def hm_contains_def recv_state_of_def)
next
  case None
  then have "init_recv_state S now p m = (Ok (), set_recv p (recv_state_of S now m p) m)"
    by (simp add: init_recv_state_def hm_contains_def recv_state_of_def the_ok_def set_recv_def S_cum)
  then show thesis using that[of "set_recv p (recv_state_of S now m p) m"] by simp
qed

lemma process_data_eq:
  assumes "st = recv_state_of S now m p" and "d = rm_dedup m"
  shows "process_data_frame S now p i payload m =
    (if isp d p i then (Ok False, set_recv p (st\<lparr>rv_ack_pending := True\<rparr>) m)
     else (Ok True, set_recv p (st\<lparr>rv_cum_processed := cm (mk p i d) p,
              rv_credits_avail := rv_credits_avail st - int (length payload),
              rv_ack_pending := True, rv_msgs_since_ack := rv_msgs_since_ack st + 1\<rparr>)
              (m\<lparr>rm_dedup := mk p i d\<rparr>)))"
proof -
  obtain m1 where "init_recv_state S now p m = (Ok (), m1)"
    "hm_get (rm_recv_states m1) p = Some st" "rm_dedup m1 = d"
    "\<And>st d. set_recv p st (m1\<lparr>rm_dedup := d\<rparr>) = set_recv p st (m\<lparr>rm_dedup := d\<rparr>)"
    "\<And>st. set_recv p st m1 = set_recv p st m"
    unfolding assms by (rule init_recv_eq[of now p m]) blast
  then show ?thesis
    by (simp add: process_data_frame_def S_is_processed S_mark S_cum or_panic_def)
qed

lemma receive_all_eq:
  "fst (receive_all S now p msgs m) = fst (d.deliver_all p (map fst msgs) (rm_dedup m))
   \<and> rm_dedup (snd (receive_all S now p msgs m)) = snd (d.deliver_all p (map fst msgs) (rm_dedup m))"
proof (induction msgs arbitrary: m)
  case (Cons a msgs)
  obtain i payload where "a = (i, payload)" by (cases a)
  with Cons.IH show ?case
    by (simp add: process_data_eq[OF refl refl] split_def Let_def)
qed simp

lemma send_state_set [simp]:
  "send_state_of S (set_send p st m) p = st"
  by (simp add: send_state_of_def)

lemma send_data_step:
  assumes "winv (rm_wal m)" and "\<And>fb. data_frame_bytes crc enc me p i payload = Ok fb \<Longrightarrow> fits (to_wal i fb)"
    and i: "i = ss_next_msg_id (send_state_of S m p)"
    and es: "so_range S (rm_wal m) p r None = Ok es"
  obtains m' out' where "snd (send_data S crc enc collect p me payload (m, out)) = (m', out')"
    and "winv (rm_wal m')" and "ss_next_msg_id (send_state_of S m' p) = i + 1"
    and "so_range S (rm_wal m') p r None = Ok (es @ map (\<lambda>(i, fb). \<lparr>we_msg_id = i, we_bytes = fb\<rparr>)
       (filter (\<lambda>(i, _). r < i) (case data_frame_bytes crc enc me p i payload of Ok fb \<Rightarrow> [(i, fb)] | _ \<Rightarrow> [])))"
proof (cases "data_frame_bytes crc enc me p i payload")
  case (Ok fb)
  let ?w = "snd (so_append S p (to_wal i fb) (rm_wal m))"
  let ?m = "\<lambda>st. set_send p st (m\<lparr>rm_wal := ?w\<rparr>)"
  obtain st out' where "snd (send_data S crc enc collect p me payload (m, out)) = (?m st, out')"
      "ss_next_msg_id st = i + 1"
    by (cases "int (length fb) \<le> ss_credits_bytes ((send_state_of S m p)\<lparr>ss_next_msg_id := i + 1\<rparr>)")
      (simp_all add: send_data_eq[OF assms(1) Ok assms(2)[OF Ok] i refl] Let_def)
  then show thesis
    using that[of "?m st" out'] w.append_ok[OF assms(1) assms(2)[OF Ok], of p]
      w.range_append[OF assms(1) assms(2)[OF Ok] es, of p]
    by (simp add: Ok to_wal_def)
next
  case (Err e)
  then show thesis
    using that[of "set_send p ((send_state_of S m p)\<lparr>ss_next_msg_id := i + 1\<rparr>) m" out] assms(1) es i
    by (simp add: send_data_build_fails)
next
  case Panic
  then show thesis by (simp add: data_frame_bytes_no_panic)
qed

lemma process_ack_step:
  assumes "winv (rm_wal m)" and "am_cum_ack a \<le> r"
    and es: "so_range S (rm_wal m) p r None = Ok es"
  obtains m' out' where "snd (process_ack_frame S collect p a (m, out)) = (m', out')"
    and "winv (rm_wal m')" 
    and "ss_next_msg_id (send_state_of S m' p) = ss_next_msg_id (send_state_of S m p)"
    and "so_range S (rm_wal m') p r None = Ok es"
proof -
  let ?w = "snd (so_store_ack S p \<lparr>cum_acked = am_cum_ack a\<rparr> (rm_wal m))"
  have w: "winv ?w" using w.store_ok[OF assms(1)] by simp
  have "so_range S (snd (so_truncate_through S p (am_cum_ack a) ?w)) p r None = Ok es"
    using w.range_truncate[OF w, of "am_cum_ack a" r p p] w.range_store[OF assms(1)] es assms(2) by simp
  then show thesis
    using that assms(1) es w.truncate_ok[OF w]
    by (simp add: process_ack_eq[OF assms(1) refl refl refl])
qed

lemma handle_resume_step:
  assumes "winv (rm_wal m)"
  obtains m' out' where "snd (handle_resume S collect p re (m, out)) = (m', out')"
    and "rm_wal m' = rm_wal m"
    and "ss_next_msg_id (send_state_of S m' p) = ss_next_msg_id (send_state_of S m p)"
proof -
  obtain es where "so_range S (rm_wal m) p (re_receiver_cum_proc re) None = Ok es"
    using w.range_ok[OF assms] by blast
  from handle_resume_eq[OF assms this refl] show thesis using that by simp
qed

lemma run_sender_log:
  assumes "winv (rm_wal m)" and "\<forall>i payload fb. data_frame_bytes crc enc me p i payload = Ok fb \<longrightarrow> fits (to_wal i fb)"
    and "so_range S (rm_wal m) p r None = Ok es" and "\<forall>a. AckOp a \<in> set ops \<longrightarrow> am_cum_ack a \<le> r"
  shows "winv (rm_wal (fst (run_sender S crc enc p me ops (m, out))))
    \<and> so_range S (rm_wal (fst (run_sender S crc enc p me ops (m, out)))) p r None =
       Ok (es @ map (\<lambda>(i, fb). \<lparr>we_msg_id = i, we_bytes = fb\<rparr>)
         (filter (\<lambda>(i, _). r < i) (sent_frames crc enc p me (ss_next_msg_id (send_state_of S m p)) ops)))"
  using assms(1,3,4)
proof (induction ops arbitrary: m out es)
  case (Cons op ops)
  have acks: "\<forall>a. AckOp a \<in> set ops \<longrightarrow> am_cum_ack a \<le> r" using Cons.prems(3) by simp
  show ?case
  proof (cases op)
    case (SendOp payload)
    obtain m' out' where m': "snd (send_data S crc enc collect p me payload (m, out)) = (m', out')"
        "winv (rm_wal m')" "ss_next_msg_id (send_state_of S m' p) = ss_next_msg_id (send_state_of S m p) + 1"
      and r: "so_range S (rm_wal m') p r None = Ok (es @ map (\<lambda>(i, fb). \<lparr>we_msg_id = i, we_bytes = fb\<rparr>)
         (filter (\<lambda>(i, _). r < i) (case data_frame_bytes crc enc me p
            (ss_next_msg_id (send_state_of S m p)) payload of
              Ok fb \<Rightarrow> [(ss_next_msg_id (send_state_of S m p), fb)] | _ \<Rightarrow> [])))"
      by (rule send_data_step[OF Cons.prems(1) assms(2)[rule_format] refl Cons.prems(2)])
    show ?thesis using Cons.IH[OF m'(2) r acks, of out'] by (simp add: SendOp m')
  next
    case (AckOp a)
    then have "am_cum_ack a \<le> r" using Cons.prems(3) by simp
    from process_ack_step[OF Cons.prems(1) this Cons.prems(2), of out]
    obtain m' out' where "snd (process_ack_frame S collect p a (m, out)) = (m', out')"
        "winv (rm_wal m')" "ss_next_msg_id (send_state_of S m' p) = ss_next_msg_id (send_state_of S m p)"
        "so_range S (rm_wal m') p r None = Ok es" .
    with Cons.IH[of m' es out'] acks show ?thesis by (simp add: AckOp)
  next
    case (ResumeOp re)
    obtain m' out' where "snd (handle_resume S collect p re (m, out)) = (m', out')"
        "rm_wal m' = rm_wal m" "ss_next_msg_id (send_state_of S m' p) = ss_next_msg_id (send_state_of S m p)"
      by (rule handle_resume_step[OF Cons.prems(1)])
    with Cons.IH[of m' es out'] acks Cons.prems(1,2) show ?thesis by (simp add: ResumeOp)
  qed
qed simp

lemma resume_sends_missing:
  assumes "winv (rm_wal m)" and "\<forall>i payload fb. data_frame_bytes crc enc me p i payload = Ok fb \<longrightarrow> fits (to_wal i fb)"
    and "so_range S (rm_wal m) p r None = Ok []" and "\<forall>a. AckOp a \<in> set ops \<longrightarrow> am_cum_ack a \<le> r"
    and "frames = map snd (filter (\<lambda>(i, _). r < i) (sent_frames crc enc p me (ss_next_msg_id (send_state_of S m p)) ops))"
    and "total_len frames \<le> uint c"
    and "run_sender S crc enc p me ops (m, out) = (m', out')"
    and "re_receiver_cum_proc re = r" and "re_starting_credits re = Some c"
  shows "\<exists>m''. handle_resume S collect p re (m', out'') = (Ok (), m'', out'' @ frames)"
proof -
  define xs where "xs = filter (\<lambda>(i, _). r < i) (sent_frames crc enc p me (ss_next_msg_id (send_state_of S m p)) ops)"
  define es where "es = map (\<lambda>(i, fb). \<lparr>we_msg_id = i, we_bytes = fb\<rparr>) xs"
  from run_sender_log[OF assms(1,2,3,4), where out = out] assms(7) have w: "winv (rm_wal m')"
    and r: "so_range S (rm_wal m') p (re_receiver_cum_proc re) None = Ok es"
    by (simp_all add: es_def xs_def assms(8))
  have "map we_bytes es = map snd xs" unfolding es_def by (induction xs) auto
  then have "map we_bytes es = frames" by (simp add: assms(5) xs_def)
  with handle_resume_eq[OF w r refl, of out''] show ?thesis
    by (simp add: assms(9) fit_count_all[OF assms(6)])
qed

text \<open>The sender's credits: what it writes is paid for.\<close>

lemma send_data_credits:
  assumes "winv (rm_wal m)" and "\<forall>i payload fb. data_frame_bytes crc enc me p i payload = Ok fb \<longrightarrow> fits (to_wal i fb)"
    and "0 \<le> ss_credits_bytes (send_state_of S m p)"
    and "snd (send_data S crc enc collect p me payload (m, out)) = (m', out')"
  shows "winv (rm_wal m') \<and> 0 \<le> ss_credits_bytes (send_state_of S m' p)
    \<and> total_len out' + ss_credits_bytes (send_state_of S m' p) =
      total_len out + ss_credits_bytes (send_state_of S m p)"
proof (cases "data_frame_bytes crc enc me p (ss_next_msg_id (send_state_of S m p)) payload")
  case (Ok fb)
  then have f: "fits (to_wal (ss_next_msg_id (send_state_of S m p)) fb)" using assms(2) by blast
  show ?thesis
    using assms(3,4) w.append_ok[OF assms(1) f, of p]
    unfolding send_data_eq[OF assms(1) Ok f refl refl] Let_def
    by (auto simp: total_len_def split: if_splits)
next
  case (Err e)
  then show ?thesis
    using assms(1,3,4) by (auto simp: send_data_build_fails)
qed (simp add: data_frame_bytes_no_panic)

lemma sends_within_credits:
  assumes "winv (rm_wal m)" and "\<forall>i payload fb. data_frame_bytes crc enc me p i payload = Ok fb \<longrightarrow> fits (to_wal i fb)"
    and "0 \<le> ss_credits_bytes (send_state_of S m p)"
  shows "total_len (snd (run_sender S crc enc p me (map SendOp payloads) (m, out)))
    \<le> total_len out + ss_credits_bytes (send_state_of S m p)"
  using assms(1,3)
proof (induction payloads arbitrary: m out)
  case (Cons payload payloads)
  obtain m' out' where eq: "snd (send_data S crc enc collect p me payload (m, out)) = (m', out')"
    by (metis surj_pair)
  from send_data_credits[OF Cons.prems(1) assms(2) Cons.prems(2) eq] Cons.IH[of m' out'] show ?case
    by (simp add: eq)
qed simp

lemma maybe_build_ack_eq:
  assumes "st = recv_state_of S now m p"
    and "st' = st\<lparr>rv_credits_avail := (if rv_credits_avail st \<le> uint (rv_credits_max st) div 2
           then uint (rv_credits_max st) else rv_credits_avail st)\<rparr>"
    and "senc (ack_value (rv_cum_processed st) (rv_credits_avail st')) = Some ab"
    and "frame_builder_build crc enc (ack_builder me p ab) (1024 * 1024) = Ok fr"
  shows "should_ack now m st \<Longrightarrow> maybe_build_ack S crc enc senc now p me m =
      (Ok (Some fr), set_recv p (st'\<lparr>rv_ack_pending := False, rv_last_ack_sent := now, rv_msgs_since_ack := 0\<rparr>) m)"
    and "\<not> should_ack now m st \<Longrightarrow> fst (maybe_build_ack S crc enc senc now p me m) = Ok None"
proof -
  obtain m1 where m1: "init_recv_state S now p m = (Ok (), m1)"
    "hm_get (rm_recv_states m1) p = Some st" "rm_ack_interval m1 = rm_ack_interval m"
    "rm_ack_batch_size m1 = rm_ack_batch_size m" "\<And>st. set_recv p st m1 = set_recv p st m"
    unfolding assms(1) by (rule init_recv_eq[of now p m]) blast
  have sa: "should_ack now m1 st = should_ack now m st" by (simp add: should_ack_def m1)
  have st': "(if rv_credits_avail st \<le> uint (rv_credits_max st) div 2
      then st\<lparr>rv_credits_avail := uint (rv_credits_max st)\<rparr> else st) = st'"
    by (simp add: assms(2))
  have "rv_cum_processed st' = rv_cum_processed st" by (simp add: assms(2))
  with assms(3,4) show "should_ack now m st \<Longrightarrow> maybe_build_ack S crc enc senc now p me m =
      (Ok (Some fr), set_recv p (st'\<lparr>rv_ack_pending := False, rv_last_ack_sent := now, rv_msgs_since_ack := 0\<rparr>) m)"
    by (simp add: maybe_build_ack_def m1 or_panic_def sa st' ok_or_def Let_def)
  show "\<not> should_ack now m st \<Longrightarrow> fst (maybe_build_ack S crc enc senc now p me m) = Ok None"
    by (simp add: maybe_build_ack_def m1 or_panic_def sa)
qed

end

section \<open>Frames on the wire\<close>

text \<open>The metadata of a data frame.\<close>

definition data_meta :: cbor_value where
  "data_meta = CMap [(CText ''content-type'', CText ''application/x-data'')]"

lemma data_frame_decodes:
  assumes "enc data_meta = Some raw" and "length raw \<le> MAX_META_SIZE"
    and "data_frame_bytes crc enc me p i payload = Ok fb"
  shows "frame_decode decoder_new (fb @ rest) =
    (Ok (Some \<lparr>fast = fast_header_new Data me p i, hint = None, meta_raw = raw,
               payload_or_cipher = payload\<rparr>), rest)"
proof -
  let ?b = "set_payload payload (meta_insert_str ''content-type'' ''application/x-data''
             (frame_builder_new (fast_header_new Data me p i)))"
  have "built_meta crc ?b = [(''content-type'', CText ''application/x-data'')]"
    by (simp add: built_meta_def set_payload_def meta_insert_str_def frame_builder_new_def
        meta_builder_new_def insert_str_def fast_header_new_def flags_contains_def HDR_CHECKSUM_def)
  then have m: "enc (meta_value (built_meta crc ?b)) = Some raw"
    using assms(1) by (simp add: meta_value_def data_meta_def)
  have wf: "builder_wf ?b" by (intro builder_wf_steps builder_wf_new) (simp_all add: fast_header_new_def header_wf_def)
  have "fb_fast ?b = fast_header_new Data me p i" "fb_hint_tlv ?b = None" "fb_payload ?b = payload"
    by (simp_all add: set_payload_def meta_insert_str_def frame_builder_new_def)
  with built_frame_decodes[OF wf assms(3)[unfolded data_frame_bytes_def] m assms(2), of decoder_new rest]
  show ?thesis by (simp add: decoder_new_def DEFAULT_MAX_FRAME_SIZE_def)
qed

lemma total_len_append: "total_len (xs @ ys) = total_len xs + total_len ys"
  by (simp add: total_len_def)

lemma total_len_filter: "total_len (map snd (filter P xs)) \<le> total_len (map snd xs)"
  unfolding total_len_def by (induction xs) auto

text \<open>The number of messages of a run.\<close>

fun sends :: "sender_op list \<Rightarrow> nat" where
  "sends [] = 0"
| "sends (SendOp payload # ops) = Suc (sends ops)"
| "sends (_ # ops) = sends ops"

lemma sent_frames_mem:
  "(i, fb) \<in> set (sent_frames crc enc p me j ops) \<Longrightarrow>
     (\<exists>payload. data_frame_bytes crc enc me p i payload = Ok fb) \<and> (\<exists>k < sends ops. i = j + word_of_nat k)"
proof (induction crc enc p me j ops rule: sent_frames.induct)
  case (2 crc enc p me j payload ops)
  from 2(2) consider "data_frame_bytes crc enc me p j payload = Ok fb" "i = j"
    | "(i, fb) \<in> set (sent_frames crc enc p me (j + 1) ops)"
    by (auto split: outcome.splits)
  then show ?case
  proof cases
    case 2
    with "2.IH" obtain k where "k < sends ops" "i = (j + 1) + word_of_nat k"
      "\<exists>payload. data_frame_bytes crc enc me p i payload = Ok fb" by blast
    then have "Suc k < sends (SendOp payload # ops) \<and> i = j + word_of_nat (Suc k)" by simp
    then show ?thesis using \<open>\<exists>payload. _\<close> by blast
  qed (auto intro!: exI[of _ 0])
qed auto

lemma sent_frames_ids:
  assumes "i \<in> set (map fst (sent_frames crc enc p me 1 ops))" and "sends ops \<le> 65536"
  shows "0 < i \<and> unat i \<le> 65536"
proof -
  from assms(1) obtain fb where "(i, fb) \<in> set (sent_frames crc enc p me 1 ops)" by auto
  from sent_frames_mem[OF this] obtain k where k: "k < sends ops" "i = 1 + word_of_nat k" by blast
  then have "i = word_of_nat (Suc k)" by simp
  moreover have "unat (word_of_nat (Suc k) :: u64) = Suc k"
    using k(1) assms(2) by (intro unat_word_of_nat_id) simp
  ultimately show ?thesis using k(1) assms(2) by (simp add: word_greater_zero_iff unat_eq_zero[symmetric])
qed

lemma arrivals_ids:
  assumes "enc data_meta = Some raw" and "length raw \<le> MAX_META_SIZE"
    and "set xs \<subseteq> set (sent_frames crc enc p me j ops)"
  shows "map fst (arrivals (map snd xs)) = map fst xs"
  using assms(3)
proof (induction xs)
  case (Cons x xs)
  obtain i fb where x: "x = (i, fb)" by (cases x)
  with Cons.prems obtain payload where "data_frame_bytes crc enc me p i payload = Ok fb"
    using sent_frames_mem by (metis insert_subset list.simps(15))
  from data_frame_decodes[OF assms(1,2) this, of "[]"] Cons show ?case
    by (simp add: arrivals_def x fast_header_new_def)
qed (simp add: arrivals_def)

section \<open>Memory-backed peers\<close>

text \<open>A manager on fresh in-memory storage (\<open>Storage::from_mode\<close> with the default window).\<close>

definition memory_manager :: "nat \<Rightarrow> u32 \<Rightarrow> u32 \<Rightarrow> (memory_wal, memory_dedup) reliability_manager" where
  "memory_manager interval batch window =
     reliability_manager_new memory_wal_new with_default_window interval batch window"

lemma memory_manager_simps [simp]:
  "rm_wal (memory_manager i b w) = memory_wal_new" "rm_dedup (memory_manager i b w) = with_default_window"
  "rm_send_states (memory_manager i b w) = []" "rm_recv_states (memory_manager i b w) = []"
  by (simp_all add: memory_manager_def reliability_manager_new_def)

lemma memory_ops_sel:
  "so_truncate_through memory_ops = mem_truncate_through" "so_store_ack memory_ops = mem_store_ack"
  "so_range memory_ops = mem_range"
  by (simp_all add: memory_ops_def)

lemma memory_next_id: "ss_next_msg_id (send_state_of memory_ops (memory_manager i b w) p) = 1"
  by (simp add: send_state_of_def memory_ops_def mem_last_appended_def memory_wal_new_def the_ok_def
      get_or_def)

lemma memory_window:
  "mem_dedup_ok 65536 with_default_window" "mem_cum with_default_window p = 0"
  unfolding with_default_window_def
  by (rule mem_dedup_ok_new, simp) (simp add: mem_cum_def memory_dedup_new_def get_or_def)

lemma memory_resume:
  assumes "\<forall>a. AckOp a \<in> set ops \<longrightarrow> am_cum_ack a \<le> r"
    and "frames = map snd (filter (\<lambda>(i, _). r < i) (sent_frames crc enc p me 1 ops))"
    and "total_len frames \<le> uint c"
    and "run_sender memory_ops crc enc p me ops (memory_manager i b w, out) = (m', out')"
    and "re_receiver_cum_proc re = r" and "re_starting_credits re = Some c"
  shows "\<exists>m''. handle_resume memory_ops collect p re (m', out'') = (Ok (), m'', out'' @ frames)"
proof -
  have r0: "so_range memory_ops (rm_wal (memory_manager i b w)) p r None = Ok []"
    by (simp add: memory_ops_def mem_range_eq memory_wal_new_def)
  show ?thesis
    using mem.resume_sends_missing[OF _ _ r0 assms(1) _ assms(3,4,5,6)] assms(2)
    by (simp add: memory_next_id)
qed

text \<open>A small run: three messages, the first of them acknowledged, with a fixed metadata encoding.\<close>

definition ex_crc :: "bytes \<Rightarrow> u32" where "ex_crc bs = 0"

definition ex_enc :: "cbor_value \<Rightarrow> bytes option" where "ex_enc v = Some [160]"

definition ex_ops :: "sender_op list" where
  "ex_ops = [SendOp [1], SendOp [2], AckOp \<lparr>am_cum_ack = 1, am_credits = 0\<rparr>, SendOp [3]]"

lemma ex_frame:
  obtains fb where "data_frame_bytes ex_crc ex_enc 1 2 i [x] = Ok fb" and "length fb = 58"
proof -
  let ?f = "\<lparr>fast = fast_header_new Data 1 2 i, hint = None, meta_raw = [160], payload_or_cipher = [x]\<rparr>"
  have "encoded_size ?f = 58" by (simp add: encoded_size_eq hint_bytes_def)
  then obtain fb where fb: "frame_encode ?f (16 * 1024 * 1024) = Ok fb"
    by (auto simp: frame_encode_Ok)
  then have "data_frame_bytes ex_crc ex_enc 1 2 i [x] = Ok fb"
    by (simp add: data_frame_bytes_def frame_builder_build_Ok ex_enc_def set_payload_def
        meta_insert_str_def frame_builder_new_def)
  then show thesis using that length_frame_encode[OF fb] \<open>encoded_size ?f = 58\<close> by simp
qed

lemma ex_sent:
  "map fst (sent_frames ex_crc ex_enc 2 1 1 ex_ops) = [1, 2, 3]"
  "total_len (map snd (sent_frames ex_crc ex_enc 2 1 1 ex_ops)) = 174"
proof -
  obtain a b c where "data_frame_bytes ex_crc ex_enc 1 2 1 [1] = Ok a" "length a = 58"
    "data_frame_bytes ex_crc ex_enc 1 2 2 [2] = Ok b" "length b = 58"
    "data_frame_bytes ex_crc ex_enc 1 2 3 [3] = Ok c" "length c = 58"
    using ex_frame by metis
  then show "map fst (sent_frames ex_crc ex_enc 2 1 1 ex_ops) = [1, 2, 3]"
    "total_len (map snd (sent_frames ex_crc ex_enc 2 1 1 ex_ops)) = 174"
    by (simp_all add: ex_ops_def total_len_def)
qed

section \<open>Properties\<close>

text \<open>
  C12: Nothing a reconnecting peer is missing is lost. After any sequence of sends, acknowledgements
  and earlier resumes, a resume that names the peer's watermark \<open>r\<close> writes exactly the frames of the
  messages above \<open>r\<close>, in the order in which they were sent, whether they had been
  written before or were still queued for credits. The peer must not have acknowledged more than it
  processed, and must grant enough credits.
\<close>

theorem resume_retransmits_missing:
  assumes "\<forall>a. AckOp a \<in> set ops \<longrightarrow> am_cum_ack a \<le> r"
    and "frames = map snd (filter (\<lambda>(i, _). r < i) (sent_frames crc enc p me 1 ops))"
    and "total_len frames \<le> uint c"
    and "run_sender memory_ops crc enc p me ops (memory_manager i b w, out) = (m', out')"
    and "re_receiver_cum_proc re = r" and "re_starting_credits re = Some c"
  shows "\<exists>m''. handle_resume memory_ops collect p re (m', out') = (Ok (), m'', out' @ frames)"
  using memory_resume[OF assms] .

theorem resume_retransmits_missing_witness:
  "\<exists>m' out' m''. run_sender memory_ops ex_crc ex_enc 2 1 ex_ops (memory_manager 0 1 1024, []) = (m', out')
     \<and> handle_resume memory_ops collect 2 \<lparr>re_resume = True, re_sender_cum_ack = 0,
         re_receiver_cum_proc = 1, re_starting_credits = Some 4000\<rparr> (m', out') =
       (Ok (), m'', out' @ map snd (filter (\<lambda>(i, _). 1 < i) (sent_frames ex_crc ex_enc 2 1 1 ex_ops)))"
proof -
  obtain m' out' where r: "run_sender memory_ops ex_crc ex_enc 2 1 ex_ops (memory_manager 0 1 1024, []) = (m', out')"
    by (metis surj_pair)
  have "total_len (map snd (filter (\<lambda>(i, _). 1 < i) (sent_frames ex_crc ex_enc 2 1 1 ex_ops))) \<le> uint (4000 :: u32)"
    using total_len_filter[of "\<lambda>(i, _). 1 < i" "sent_frames ex_crc ex_enc 2 1 1 ex_ops"] ex_sent(2) by simp
  from resume_retransmits_missing[OF _ refl this r,
      where re = "\<lparr>re_resume = True, re_sender_cum_ack = 0, re_receiver_cum_proc = 1, re_starting_credits = Some 4000\<rparr>"]
  show ?thesis using r by (auto simp: ex_ops_def)
qed

text \<open>
  C6: Every message is handed over once, across a reconnection. Any part of the frames of a run of a
  sender, in any order and with repetitions, reaches the receiver; the link is lost; the sender
  resumes from the receiver's watermark. What the receiver decodes and processes before and after are together
  the identifiers of all messages of the run, each of them once.
\<close>

theorem reconnect_exactly_once:
  assumes "enc data_meta = Some raw" and "length raw \<le> MAX_META_SIZE" and "sends ops \<le> 65536"
    and sent: "sent = sent_frames crc enc p me 1 ops"
    and "run_sender memory_ops crc enc p me ops (memory_manager i b w, []) = (sm, out)"
    and "set got \<subseteq> set sent"
    and one: "receive_all memory_ops now me (arrivals (map snd got)) (memory_manager i' b' w') = (ds, rm)"
    and acks: "\<forall>a. AckOp a \<in> set ops \<longrightarrow> am_cum_ack a \<le> mem_cum (rm_dedup rm) me"
    and "re_receiver_cum_proc re = mem_cum (rm_dedup rm) me" and "re_starting_credits re = Some c"
    and "total_len (map snd sent) \<le> uint c"
    and resume: "handle_resume memory_ops collect p re (sm, []) = (res, sm', resent)"
    and two: "receive_all memory_ops now' me (arrivals resent) rm = (ds', rm')"
  shows "res = Ok () \<and> distinct (ds @ ds') \<and> set (ds @ ds') = set (map fst sent)"
proof -
  let ?r = "mem_cum (rm_dedup rm) me"
  let ?miss = "filter (\<lambda>(i, _). ?r < i) sent"
  have "total_len (map snd ?miss) \<le> uint c"
    using assms(11) total_len_filter[of "\<lambda>(i, _). ?r < i" sent] by simp
  from memory_resume[OF acks refl this[unfolded sent] assms(5,9,10), of "[]"] resume
  have res: "res = Ok ()" "resent = map snd ?miss" by (auto simp: sent)
  have ids: "map fst (arrivals (map snd got)) = map fst got" "map fst (arrivals resent) = map fst ?miss"
    unfolding res using assms(6) by (auto intro!: arrivals_ids[where enc = enc, OF assms(1,2)] simp: sent)
  have win: "0 < x \<and> unat x \<le> 65536" if "x \<in> set (map fst sent)" for x
    using sent_frames_ids that assms(3) unfolding sent by blast
  let ?D = "mem_dedup.deliver_all me (map fst got) with_default_window"
  from mem.receive_all_eq[of now me "arrivals (map snd got)" "memory_manager i' b' w'"] one
  have ds: "ds = fst ?D" "rm_dedup rm = snd ?D" by (simp_all add: ids)
  from mem.receive_all_eq[of now' me "arrivals resent" rm] two
  have ds': "ds' = fst (mem_dedup.deliver_all me (map fst ?miss) (rm_dedup rm))" by (simp add: ids)
  have "\<forall>m\<in>set (map fst got). dedup_room 65536 m
      \<and> unat m \<le> unat (mem_cum with_default_window me) + max 1 (unat (65536 :: u64))"
    using win assms(6) by (force simp: dedup_room_def memory_window)
  from mem_dedup.deliver_all_once[OF memory_window(1) this]
  have D: "mem_dedup_ok 65536 (rm_dedup rm)" "distinct ds" "set ds = set (map fst got)"
    "\<And>x. mem_is_processed (rm_dedup rm) me x \<longleftrightarrow> x = 0 \<or> x \<in> set (map fst got)"
    using win assms(6) by (auto simp: ds mem_is_processed_new with_default_window_def) (force dest: win)+
  have "\<forall>m\<in>set (map fst ?miss). dedup_room 65536 m \<and> unat m \<le> unat ?r + max 1 (unat (65536 :: u64))"
    using win by (force simp: dedup_room_def)
  from mem_dedup.deliver_all_once[OF D(1) this]
  have D': "distinct ds'" "set ds' = {x \<in> set (map fst ?miss). \<not> mem_is_processed (rm_dedup rm) me x}"
    by (simp_all add: ds')
  have low: "x \<in> set (map fst got)" if "x \<in> set (map fst sent)" "\<not> ?r < x" for x
    using mem_dedup.cum_processed[OF D(1), of x me] D(4)[of x] win[OF that(1)] that(2) by force
  have miss: "set (map fst ?miss) = {x \<in> set (map fst sent). ?r < x}" by force
  have sub: "set (map fst got) \<subseteq> set (map fst sent)" using assms(6) by auto
  have "set ds \<union> set ds' = set (map fst sent)"
  proof (intro equalityI subsetI)
    fix x
    assume x: "x \<in> set (map fst sent)"
    show "x \<in> set ds \<union> set ds'"
    proof (cases "x \<in> set (map fst got)")
      case False
      with low x have "?r < x" by blast
      with x False D(4)[of x] win[OF x] show ?thesis unfolding D'(2) miss by auto
    qed (simp only: D(3) Un_iff simp_thms)
  qed (use sub in \<open>unfold D(3) D'(2) miss, blast\<close>)
  moreover have "set ds \<inter> set ds' = {}" unfolding D(3) D'(2) using D(4) by auto
  ultimately show ?thesis using res(1) D(2) D'(1) by simp
qed

theorem reconnect_exactly_once_witness:
  "\<exists>sm out ds rm sm' resent ds' rm'.
     run_sender memory_ops ex_crc ex_enc 2 1 (map SendOp [[1], [2], [3]]) (memory_manager 0 1 1024, []) = (sm, out)
   \<and> receive_all memory_ops 0 1 (arrivals (map snd (rev (take 1 (sent_frames ex_crc ex_enc 2 1 1 (map SendOp [[1], [2], [3]]))))))
       (memory_manager 0 1 1024) = (ds, rm)
   \<and> handle_resume memory_ops collect 2 \<lparr>re_resume = True, re_sender_cum_ack = 0,
         re_receiver_cum_proc = mem_cum (rm_dedup rm) 1, re_starting_credits = Some 4000\<rparr> (sm, []) = (Ok (), sm', resent)
   \<and> receive_all memory_ops 5 1 (arrivals resent) rm = (ds', rm')
   \<and> distinct (ds @ ds') \<and> set (ds @ ds') = {1, 2, 3}"
proof -
  let ?ops = "map SendOp [[1], [2], [3]]"
  let ?sent = "sent_frames ex_crc ex_enc 2 1 1 ?ops"
  have sent: "?sent = sent_frames ex_crc ex_enc 2 1 1 ex_ops" by (simp add: ex_ops_def)
  obtain sm out where 1: "run_sender memory_ops ex_crc ex_enc 2 1 ?ops (memory_manager 0 1 1024, []) = (sm, out)"
    by (metis surj_pair)
  obtain ds rm where 2: "receive_all memory_ops 0 1 (arrivals (map snd (rev (take 1 ?sent)))) (memory_manager 0 1 1024) = (ds, rm)"
    by (metis surj_pair)
  let ?re = "\<lparr>re_resume = True, re_sender_cum_ack = 0,
         re_receiver_cum_proc = mem_cum (rm_dedup rm) 1, re_starting_credits = Some 4000\<rparr>"
  obtain res sm' resent where 3: "handle_resume memory_ops collect 2 ?re (sm, []) = (res, sm', resent)"
    by (metis surj_pair)
  obtain ds' rm' where 4: "receive_all memory_ops 5 1 (arrivals resent) rm = (ds', rm')" by (metis surj_pair)
  have sub: "set (rev (take 1 ?sent)) \<subseteq> set ?sent" using set_take_subset by fastforce
  have "res = Ok () \<and> distinct (ds @ ds') \<and> set (ds @ ds') = set (map fst ?sent)"
  proof (rule reconnect_exactly_once[OF _ _ _ refl 1 sub 2 _ _ _ _ 3 4])
    show "ex_enc data_meta = Some [160]" by (simp add: ex_enc_def)
    show "total_len (map snd ?sent) \<le> uint (4000 :: u32)" unfolding sent ex_sent(2) by simp
  qed (auto simp: MAX_META_SIZE_def)
  then show ?thesis using 1 2 3 4 unfolding sent ex_sent(1) by auto
qed

text \<open>
  C18: An acknowledgement renews the credits and drains the queue: the sender writes, in order, the longest
  prefix of the queued frames that the advertised credits cover, keeps the rest in order, and is left
  with the difference, which is never negative. The acknowledged watermark never goes
  down, and the log keeps every frame above the acknowledged identifier.
\<close>

theorem process_ack_drains_queue:
  fixes m :: "(memory_wal, memory_dedup) reliability_manager"
  assumes st: "st = send_state_of memory_ops m p"
  shows "\<exists>n m' st'.
     process_ack_frame memory_ops collect p ack (m, out) =
       (Ok (), m', out @ map snd (take n (ss_pending_frames st)))
   \<and> hm_get (rm_send_states m') p = Some st'
   \<and> ss_pending_frames st' = drop n (ss_pending_frames st)
   \<and> ss_credits_bytes st' = uint (am_credits ack) - total_len (map snd (take n (ss_pending_frames st)))
   \<and> 0 \<le> ss_credits_bytes st'
   \<and> (n < length (ss_pending_frames st) \<longrightarrow>
        uint (am_credits ack) < total_len (map snd (take (Suc n) (ss_pending_frames st))))
   \<and> ss_cum_acked st' = max (am_cum_ack ack) (ss_cum_acked st)
   \<and> (\<forall>r. am_cum_ack ack \<le> r \<longrightarrow> mem_range (rm_wal m') p r None = mem_range (rm_wal m) p r None)"
proof -
  let ?fs = "map snd (ss_pending_frames st)" and ?c = "uint (am_credits ack)"
  define n where "n = fit_count ?c ?fs"
  have fit: "total_len (take n ?fs) \<le> ?c"
    "\<And>k. k \<le> length ?fs \<Longrightarrow> total_len (take k ?fs) \<le> ?c \<Longrightarrow> k \<le> n"
    using fit_count_bounds[of ?c ?fs] by (auto simp: n_def)
  have longest: "?c < total_len (take (Suc n) ?fs)" if "n < length ?fs"
    using fit(2)[of "Suc n"] that by (meson Suc_leI not_less not_less_eq_eq order_refl)
  have keep: "mem_range (snd (mem_truncate_through p (am_cum_ack ack)
        (snd (mem_store_ack p \<lparr>cum_acked = am_cum_ack ack\<rparr> (rm_wal m))))) p r None = mem_range (rm_wal m) p r None"
    if "am_cum_ack ack \<le> r" for r
    using mem_wal.range_truncate[OF TrueI, of "am_cum_ack ack" r p p] mem_wal.range_store[OF TrueI] that by simp
  show ?thesis
    using fit(1) longest keep
    by (intro exI[of _ n]) (simp add: mem.process_ack_eq[OF TrueI st refl refl] n_def[symmetric]
        take_map memory_ops_sel)
qed

theorem process_ack_drains_queue_witness:
  "\<exists>m'. process_ack_frame memory_ops collect 2 \<lparr>am_cum_ack = 0, am_credits = 3\<rparr>
     (set_send 2 \<lparr>ss_next_msg_id = 3, ss_cum_acked = 0, ss_credits_bytes = 0,
        ss_pending_frames = [(1, [7, 7]), (2, [8, 8])]\<rparr> (memory_manager 0 1 9), []) =
     (Ok (), m', [[7, 7]])"
proof -
  let ?fs = "[(1, [7, 7]), (2, [8, 8])] :: (u64 \<times> bytes) list"
  let ?m = "set_send 2 \<lparr>ss_next_msg_id = 3, ss_cum_acked = 0, ss_credits_bytes = 0,
        ss_pending_frames = ?fs\<rparr> (memory_manager 0 1 9)"
  have "ss_pending_frames (send_state_of memory_ops ?m 2) = ?fs" by (simp add: send_state_of_def)
  with process_ack_drains_queue[OF refl, where m = ?m and p = 2 and out = "[]"
      and ack = "\<lparr>am_cum_ack = 0, am_credits = 3\<rparr>"]
  obtain n m' where r: "process_ack_frame memory_ops collect 2 \<lparr>am_cum_ack = 0, am_credits = 3\<rparr> (?m, []) =
      (Ok (), m', map snd (take n ?fs))"
    and n: "total_len (map snd (take n ?fs)) \<le> 3"
      "n < 2 \<longrightarrow> 3 < total_len (map snd (take (Suc n) ?fs))"
    by (auto simp: total_len_def)
  from n have "n = 1" by (cases n rule: nat.exhaust, simp_all add: total_len_def) (case_tac "x2", auto)
  with r show ?thesis by simp
qed

text \<open>
  C19: The receiver's credits bound what is in flight: after an acknowledgement that grants \<open>c\<close> bytes, all
  that the sender writes before the next grant, frames drained from the queue and new messages
  together, is at most \<open>c\<close> bytes long.
\<close>

theorem credit_limit_respected:
  fixes m :: "(memory_wal, memory_dedup) reliability_manager"
  shows "total_len (snd (run_sender memory_ops crc enc p me (AckOp a # map SendOp payloads) (m, out)))
    \<le> total_len out + uint (am_credits a)"
proof -
  let ?st = "send_state_of memory_ops m p"
  define n where "n = fit_count (uint (am_credits a)) (map snd (ss_pending_frames ?st))"
  define sent where "sent = map snd (take n (ss_pending_frames ?st))"
  obtain m' where m': "snd (process_ack_frame memory_ops collect p a (m, out)) = (m', out @ sent)"
      "ss_credits_bytes (send_state_of memory_ops m' p) = uint (am_credits a) - total_len sent"
    using mem.process_ack_eq[OF TrueI refl refl refl, where m = m and p = p and ack = a and out = out] by (simp add: n_def sent_def)
  have "total_len sent \<le> uint (am_credits a)"
    using fit_count_bounds[of "uint (am_credits a)" "map snd (ss_pending_frames ?st)"]
    by (simp add: n_def sent_def take_map)
  then show ?thesis
    using mem.sends_within_credits[OF TrueI, where crc = crc and enc = enc and me = me and p = p
        and m = m' and payloads = payloads and out = "out @ sent"] m'
    by (simp add: total_len_append)
qed

text \<open>
  A receiver that has something to acknowledge does so when the interval has passed, the batch is
  full or its credits are down to a quarter, and only then. The acknowledgement carries the
  watermark and, as credits, either the whole window or what is left of it when that is more than
  half; it clears the pending state.
\<close>

lemma maybe_build_ack_spec:
  fixes m :: "(memory_wal, memory_dedup) reliability_manager"
  assumes st: "st = recv_state_of memory_ops now m p"
    and "rv_credits_avail st \<le> uint (rv_credits_max st)"
    and senc: "\<And>v. \<exists>bs. senc v = Some bs"
    and build: "\<And>bs. \<exists>fr. frame_builder_build crc enc (ack_builder me p bs) (1024 * 1024) = Ok fr"
  shows "if should_ack now m st
    then \<exists>credits ab fr m' st'.
        maybe_build_ack memory_ops crc enc senc now p me m = (Ok (Some fr), m')
      \<and> senc (ack_value (rv_cum_processed st) credits) = Some ab
      \<and> frame_builder_build crc enc (ack_builder me p ab) (1024 * 1024) = Ok fr
      \<and> (credits = uint (rv_credits_max st)
         \<or> credits = rv_credits_avail st \<and> uint (rv_credits_max st) div 2 < credits)
      \<and> credits \<le> uint (rv_credits_max st)
      \<and> hm_get (rm_recv_states m') p = Some st' \<and> rv_credits_avail st' = credits
      \<and> \<not> rv_ack_pending st' \<and> rv_msgs_since_ack st' = 0 \<and> rv_last_ack_sent st' = now
    else fst (maybe_build_ack memory_ops crc enc senc now p me m) = Ok None"
proof -
  define c where "c = (if rv_credits_avail st \<le> uint (rv_credits_max st) div 2
           then uint (rv_credits_max st) else rv_credits_avail st)"
  obtain ab where ab: "senc (ack_value (rv_cum_processed st) c) = Some ab" using senc by blast
  obtain fr where fr: "frame_builder_build crc enc (ack_builder me p ab) (1024 * 1024) = Ok fr"
    using build by blast
  note eq = mem.maybe_build_ack_eq[OF st refl, of senc ab crc enc me fr, folded c_def, simplified, OF ab fr[simplified]]
  have "c = uint (rv_credits_max st) \<or> c = rv_credits_avail st \<and> uint (rv_credits_max st) div 2 < c"
    "c \<le> uint (rv_credits_max st)" using assms(2) by (auto simp: c_def)
  note c = this
  show ?thesis
  proof (cases "should_ack now m st")
    case True
    let ?st = "st\<lparr>rv_credits_avail := c, rv_ack_pending := False, rv_last_ack_sent := now, rv_msgs_since_ack := 0\<rparr>"
    show ?thesis
      unfolding if_P[OF True] eq(1)[OF True]
      by (intro exI[of _ c] exI[of _ ab] exI[of _ fr] exI[of _ "set_recv p ?st m"] exI[of _ ?st] conjI refl)
        (use c ab fr in simp_all)
  next
    case False
    show ?thesis unfolding if_not_P[OF False] by (rule eq(2)[OF False])
  qed
qed

text \<open>
  The acknowledgement and resume records survive their encoding: what a receiver parses out
  of the bytes that \<open>maybe_build_ack\<close> and \<open>build_resume\<close> encode are the watermarks and credits that
  were put in, as long as the codec returns the value it was given. Credits beyond 32 bits, or
  negative ones, come back modulo \<open>2 ^ 32\<close>.
\<close>

lemma reliability_records_roundtrip:
  assumes "\<And>v bs. senc v = Some bs \<Longrightarrow> sdec bs = Some v"
    and "senc (ack_value cum credits) = Some ab" and "senc (resume_value sca rcp start) = Some rb"
  shows "parse_ack_meta sdec ab = Ok \<lparr>am_cum_ack = cum, am_credits = word_of_int credits\<rparr>
    \<and> (0 \<le> credits \<and> credits < 2 ^ 32 \<longrightarrow> uint (word_of_int credits :: u32) = credits)
    \<and> parse_resume_meta sdec rb = Ok \<lparr>re_resume = True, re_sender_cum_ack = sca,
         re_receiver_cum_proc = rcp, re_starting_credits = Some start\<rparr>"
  using assms(1)[OF assms(2)] assms(1)[OF assms(3)]
  by (simp add: parse_ack_meta_def parse_resume_meta_def ok_or_def find_u64_def find_u32_def
      find_bool_def find_text_key_def ack_value_def resume_value_def get_or_def uint_word_of_int
      take_bit_int_eq_self)

section \<open>Deviations\<close>

text \<open>
  The metadata of an acknowledgement frame holds the record as a byte string under the key \<open>ack\<close>,
  while \<open>parse_ack_meta\<close> looks for its keys in the metadata itself: applied to the metadata of a
  frame built by \<open>maybe_build_ack\<close> it always answers zero for both. The same holds for resume frames.
\<close>

lemma ack_frame_meta_lost:
  assumes "sdec raw = Some (meta_value (built_meta crc (ack_builder me p ab)))"
  shows "parse_ack_meta sdec raw = Ok \<lparr>am_cum_ack = 0, am_credits = 0\<rparr>"
  using assms
  by (simp add: parse_ack_meta_def ok_or_def find_u64_def find_u32_def find_text_key_def get_or_def
      built_meta_def ack_builder_def set_payload_def meta_insert_bytes_def meta_insert_str_def
      frame_builder_new_def meta_builder_new_def meta_insert_defs fast_header_new_def
      flags_contains_def HDR_CHECKSUM_def meta_value_def)

text \<open>
  A payload that is too large for a frame uses up an identifier without entering the log: no later
  resume delivers it, so the watermark of the receiver stops below it.
\<close>

lemma oversized_payload_leaves_gap:
  fixes m :: "(memory_wal, memory_dedup) reliability_manager"
  assumes "enc data_meta = Some raw" and "16 * 1024 * 1024 < length payload"
  shows "\<exists>e m'. send_data memory_ops crc enc write p me payload (m, out) = (Err e, m', out)
    \<and> rm_wal m' = rm_wal m
    \<and> ss_next_msg_id (send_state_of memory_ops m' p) = ss_next_msg_id (send_state_of memory_ops m p) + 1"
proof -
  have "data_frame_bytes crc enc me p i payload \<noteq> Ok fb" for i fb
    using assms(2) by (auto simp: data_frame_bytes_def frame_builder_build_Ok frame_encode_Ok
        encoded_size_eq set_payload_def)
  then obtain e where e: "data_frame_bytes crc enc me p (ss_next_msg_id (send_state_of memory_ops m p)) payload = Err e"
    by (metis data_frame_bytes_no_panic outcome.exhaust)
  show ?thesis by (simp add: mem.send_data_build_fails[OF TrueI e] mem.send_state_set)
qed

text \<open>
  A new message that the credits cover is written at once even when earlier messages are still
  queued, so messages may reach the peer out of order.
\<close>

lemma send_data_overtakes_queue:
  fixes m :: "(memory_wal, memory_dedup) reliability_manager"
  assumes "st = send_state_of memory_ops m p" and "ss_pending_frames st \<noteq> []"
    and "data_frame_bytes crc enc me p (ss_next_msg_id st) payload = Ok fb"
    and "int (length fb) \<le> ss_credits_bytes st"
  shows "\<exists>m'. send_data memory_ops crc enc collect p me payload (m, out) = (Ok (), m', out @ [fb])
    \<and> ss_pending_frames (send_state_of memory_ops m' p) = ss_pending_frames st"
  using mem.send_data_eq[OF TrueI assms(3) TrueI _ refl, where m = m and out = out] assms(1,4)
  by (simp add: Let_def mem.send_state_set)

end
