(* ===== verification/Session_Msg.thy ===== *)
theory Session_Msg
  imports Reliability_Ops Wire
begin

text \<open>
  The messages that sessions carry: \<open>OutboundMessage\<close> and \<open>InboundMessage\<close> of
  \<open>mesh-session/src/manager.rs\<close>, the frame \<open>build_data_frame\<close> makes of one, and the message that
  a session makes of a \<open>DATA\<close> frame (the \<open>FrameType::Data\<close> arm of \<open>session.rs\<close>). The property is that a message
  survives the journey over one link.
\<close>

section \<open>Messages\<close>

record outbound_message =
  om_src_node :: node_id
  om_dst_node :: node_id
  om_payload :: bytes
  om_headers :: "(string, bytes) hmap"
  om_corr_id :: u64
  om_msg_id :: "u64 option"
  om_require_ack :: bool

record inbound_message =
  im_src_node :: node_id
  im_dst_node :: node_id
  im_payload :: bytes
  im_headers :: "(string, bytes) hmap"
  im_corr_id :: u64
  im_msg_id :: "u64 option"
  im_require_ack :: bool

definition TERMINATION_CORR_ID :: u64 where
  "TERMINATION_CORR_ID = 0xFFFFFFFFFFFFFFFE"

definition TOPOLOGY_CORR_ID :: u64 where
  "TOPOLOGY_CORR_ID = 0xFFFFFFFFFFFFFFFF"

text \<open>\<open>headers.get("frame_type").map(|v| v == ..).unwrap_or(false)\<close>\<close>

definition has_frame_type :: "string \<Rightarrow> outbound_message \<Rightarrow> bool" where
  "has_frame_type t m = (hm_get (om_headers m) ''frame_type'' = Some (str_bytes t))"

definition create_termination_message :: "node_id \<Rightarrow> node_id \<Rightarrow> outbound_message" where
  "create_termination_message local_node_id target_node_id =
     \<lparr>om_src_node = local_node_id, om_dst_node = target_node_id, om_payload = [],
      om_headers = hm_insert ''frame_type'' (str_bytes ''session_terminate'') [],
      om_corr_id = TERMINATION_CORR_ID, om_msg_id = None, om_require_ack = False\<rparr>"

definition is_termination_message :: "outbound_message \<Rightarrow> bool" where
  "is_termination_message m =
     (om_corr_id m = TERMINATION_CORR_ID \<and> has_frame_type ''session_terminate'' m)"

section \<open>From a message to a frame\<close>

text \<open>The loop over the headers.\<close>

fun insert_headers :: "(string \<times> bytes) list \<Rightarrow> frame_builder \<Rightarrow> frame_builder" where
  "insert_headers [] builder = builder"
| "insert_headers ((key, value) # headers) builder =
     insert_headers headers
       (if key \<noteq> ''frame_type'' then meta_insert_bytes key value builder else builder)"

definition message_builder :: "outbound_message \<Rightarrow> frame_builder" where
  "message_builder message =
     (let frame_type = (if has_frame_type ''topology_update'' message then TopologyUpdate else Data);
          msg_id = get_or 0 (om_msg_id message);
          fast_header = fast_header_new frame_type (om_src_node message) (om_dst_node message) msg_id;
          fast_header = fast_header\<lparr>fh_corr_id := om_corr_id message\<rparr>;
          builder = frame_builder_new fast_header;
          builder = (if om_require_ack message
                     then meta_insert_str ''require_ack'' ''true'' builder else builder);
          builder = insert_headers (om_headers message) builder
      in set_payload (om_payload message) builder)"

definition build_data_frame :: "(bytes \<Rightarrow> u32) \<Rightarrow> (cbor_value \<Rightarrow> bytes option) \<Rightarrow> node_id
    \<Rightarrow> outbound_message \<Rightarrow> (codec_error, bytes) outcome" where
  "build_data_frame crc enc local_node_id message =
     frame_builder_build crc enc (message_builder message) 65536"

section \<open>From a frame to a message\<close>

text \<open>The loop over the metadata.\<close>

fun extract_headers :: "(string \<times> cbor_value) list \<Rightarrow> (string, bytes) hmap \<Rightarrow> (string, bytes) hmap" where
  "extract_headers [] headers = headers"
| "extract_headers ((key, value) # meta) headers =
     extract_headers meta
       (if key \<noteq> ''require_ack''
        then (case value of
                CBytes bs \<Rightarrow> hm_insert key bs headers
              | CText text \<Rightarrow> hm_insert key (str_bytes text) headers
              | _ \<Rightarrow> headers)
        else headers)"

definition message_of_frame :: "(bytes \<Rightarrow> cbor_value option) \<Rightarrow> frame \<Rightarrow> inbound_message" where
  "message_of_frame dec f =
     (let (headers, require_ack) =
            (case parse_meta dec (meta_raw f) of
               Ok meta_map \<Rightarrow>
                 (extract_headers meta_map [],
                  (case get_meta_str meta_map ''require_ack'' of
                     Some val_str \<Rightarrow> val_str = ''true'' | None \<Rightarrow> False))
             | _ \<Rightarrow> ([], False))
      in \<lparr>im_src_node = fh_src_node (fast f), im_dst_node = fh_dst_node (fast f),
          im_payload = payload_or_cipher f, im_headers = headers, im_corr_id = fh_corr_id (fast f),
          im_msg_id = (if fh_msg_id (fast f) \<noteq> 0 then Some (fh_msg_id (fast f)) else None),
          im_require_ack = require_ack\<rparr>)"

section \<open>What arrives\<close>

text \<open>
  The messages that a link carries unchanged: the headers do not use the two reserved keys, and the message
  identifier is not the zero that stands for none.
\<close>

definition message_ok :: "outbound_message \<Rightarrow> bool" where
  "message_ok m \<longleftrightarrow> hm_wf (om_headers m) \<and> hm_get (om_headers m) ''require_ack'' = None
     \<and> hm_get (om_headers m) ''frame_type'' = None \<and> om_msg_id m \<noteq> Some 0"

text \<open>The same message, up to the order of the headers in their map.\<close>

definition same_message :: "outbound_message \<Rightarrow> inbound_message \<Rightarrow> bool" where
  "same_message m i \<longleftrightarrow>
     im_src_node i = om_src_node m \<and> im_dst_node i = om_dst_node m \<and> im_payload i = om_payload m
     \<and> im_corr_id i = om_corr_id m \<and> im_msg_id i = om_msg_id m \<and> im_require_ack i = om_require_ack m
     \<and> hm_wf (im_headers i) \<and> (\<forall>k. hm_get (im_headers i) k = hm_get (om_headers m) k)"

section \<open>Lemmas\<close>

lemma insert_headers_fields [simp]:
  "fb_fast (insert_headers hs b) = fb_fast b" "fb_hint_tlv (insert_headers hs b) = fb_hint_tlv b"
  "fb_crypto (insert_headers hs b) = fb_crypto b"
  by (induction hs b rule: insert_headers.induct) (simp_all add: meta_insert_bytes_def)

lemma insert_headers_meta:
  assumes "bt_wf (fb_meta b)" and "hm_wf hs"
  shows "bt_wf (fb_meta (insert_headers hs b))
    \<and> hm_get (fb_meta (insert_headers hs b)) k =
      (case hm_get hs k of
         Some v \<Rightarrow> if k = ''frame_type'' then hm_get (fb_meta b) k else Some (CBytes v)
       | None \<Rightarrow> hm_get (fb_meta b) k)"
  using assms
proof (induction hs b rule: insert_headers.induct)
  case (2 key v hs b)
  have wf: "hm_wf hs" "hm_get hs key = None"
    using 2(3) by (simp_all add: hm_wf_def hm_get_None_iff)
  have "bt_wf (fb_meta (if key \<noteq> ''frame_type'' then meta_insert_bytes key v b else b))"
    using 2(2) by (simp add: meta_insert_bytes_def insert_bytes_def)
  from 2(1)[OF this wf(1)] wf(2) 2(2) show ?case
    by (auto simp: hm_get_Cons meta_insert_bytes_def insert_bytes_def split: option.splits if_splits)
qed simp

lemma extract_headers_get:
  assumes "hm_wf meta" and "hm_wf hs"
  shows "hm_wf (extract_headers meta hs)
    \<and> hm_get (extract_headers meta hs) k =
      (if k = ''require_ack'' then hm_get hs k
       else case hm_get meta k of
         Some (CBytes bs) \<Rightarrow> Some bs | Some (CText t) \<Rightarrow> Some (str_bytes t) | _ \<Rightarrow> hm_get hs k)"
  using assms
proof (induction meta hs rule: extract_headers.induct)
  case (2 key v meta hs)
  have wf: "hm_wf meta" "hm_get meta key = None"
    using 2(2) by (simp_all add: hm_wf_def hm_get_None_iff)
  define hs' where "hs' = (if key \<noteq> ''require_ack'' then (case v of CBytes bs \<Rightarrow> hm_insert key bs hs
      | CText text \<Rightarrow> hm_insert key (str_bytes text) hs | _ \<Rightarrow> hs) else hs)"
  have eq: "extract_headers ((key, v) # meta) hs = extract_headers meta hs'" by (simp add: hs'_def)
  have "hm_wf hs'" using 2(3) by (simp add: hs'_def split: cbor_value.split)
  from 2(1)[folded hs'_def, OF wf(1) this] have IH: "hm_wf (extract_headers meta hs')"
    "hm_get (extract_headers meta hs') k = (if k = ''require_ack'' then hm_get hs' k
       else case hm_get meta k of
         Some (CBytes bs) \<Rightarrow> Some bs | Some (CText t) \<Rightarrow> Some (str_bytes t) | _ \<Rightarrow> hm_get hs' k)"
    by blast+
  show ?case
  proof (cases "k = key")
    case True
    then show ?thesis using IH wf(2) unfolding eq by (auto simp: hm_get_Cons hs'_def split: cbor_value.splits)
  next
    case False
    then have "hm_get hs' k = hm_get hs k" by (simp add: hs'_def split: cbor_value.split)
    with IH(1) False show ?thesis unfolding eq IH(2) by (simp only: hm_get_Cons if_False simp_thms)
  qed
qed simp

lemma message_builder_simps [simp]:
  "fb_fast (message_builder m) = (fast_header_new
     (if has_frame_type ''topology_update'' m then TopologyUpdate else Data) (om_src_node m) (om_dst_node m)
     (get_or 0 (om_msg_id m)))\<lparr>fh_corr_id := om_corr_id m\<rparr>"
  "fb_hint_tlv (message_builder m) = None" "fb_payload (message_builder m) = om_payload m"
  by (simp_all add: message_builder_def Let_def set_payload_def frame_builder_new_def meta_insert_str_def)

lemma message_builder_wf:
  assumes "hm_wf (om_headers m)"
  shows "builder_wf (message_builder m)"
proof -
  have "bt_wf (fb_meta (message_builder m))"
    using insert_headers_meta[OF _ assms]
    by (simp add: message_builder_def Let_def set_payload_def meta_insert_str_def insert_str_def
        frame_builder_new_def meta_builder_new_def bt_wf_Cons)
  then show ?thesis by (simp add: builder_wf_def header_wf_def fast_header_new_def)
qed

lemma message_meta:
  assumes "message_ok m"
  shows "hm_get (fb_meta (message_builder m)) k =
    (if k = ''require_ack'' then (if om_require_ack m then Some (CText ''true'') else None)
     else map_option CBytes (hm_get (om_headers m) k))"
proof -
  let ?b = "\<lambda>fh. if om_require_ack m then meta_insert_str ''require_ack'' ''true'' (frame_builder_new fh)
    else frame_builder_new fh"
  have wf: "bt_wf (fb_meta (?b fh))" for fh
    by (simp add: meta_insert_str_def insert_str_def frame_builder_new_def meta_builder_new_def bt_wf_Cons)
  have g: "hm_get (fb_meta (?b fh)) k = (if k = ''require_ack'' \<and> om_require_ack m then Some (CText ''true'') else None)" for fh
    by (simp add: meta_insert_str_def insert_str_def frame_builder_new_def meta_builder_new_def hm_get_Cons)
  obtain fh where eq: "fb_meta (message_builder m) = fb_meta (insert_headers (om_headers m) (?b fh))"
    by (simp add: message_builder_def Let_def set_payload_def)
  have ok: "hm_wf (om_headers m)" "hm_get (om_headers m) ''require_ack'' = None"
    "hm_get (om_headers m) ''frame_type'' = None" using assms by (simp_all add: message_ok_def)
  note get = insert_headers_meta[OF wf[of fh] ok(1), of k, THEN conjunct2, unfolded g]
  show ?thesis
  proof (cases "hm_get (om_headers m) k")
    case None
    then show ?thesis unfolding eq get by simp
  next
    case (Some v)
    with ok(2,3) have "k \<noteq> ''require_ack''" "k \<noteq> ''frame_type''" by auto
    with Some show ?thesis unfolding eq get by simp
  qed
qed

lemma message_over_link:
  assumes "message_ok m" and "build_data_frame crc enc me m = Ok bs"
    and "\<forall>v raw. enc v = Some raw \<longrightarrow> dec raw = Some v"
  shows "\<exists>f. frame_decode decoder_new (bs @ rest) = (Ok (Some f), rest)
    \<and> fh_typ (fast f) = Data \<and> same_message m (message_of_frame dec f)"
proof -
  let ?b = "message_builder m"
  have wf: "builder_wf ?b" "hm_wf (om_headers m)"
    using assms(1) message_builder_wf by (auto simp: message_ok_def)
  have bm: "built_meta crc ?b = fb_meta ?b"
    by (simp add: built_meta_def fast_header_new_def flags_contains_def HDR_CHECKSUM_def)
  from assms(2) obtain raw where raw: "enc (meta_value (built_meta crc ?b)) = Some raw"
      and fe: "frame_encode \<lparr>fast = fb_fast ?b, hint = fb_hint_tlv ?b, meta_raw = raw, payload_or_cipher = fb_payload ?b\<rparr> 65536 = Ok bs"
    by (auto simp: build_data_frame_def frame_builder_build_Ok)
  then have "length raw \<le> MAX_META_SIZE"
    by (simp add: frame_encode_Ok encoded_size_eq MAX_META_SIZE_def)
  from built_frame_decodes[OF wf(1) assms(2)[unfolded build_data_frame_def] raw this, of decoder_new rest]
  have d: "frame_decode decoder_new (bs @ rest) = (Ok (Some \<lparr>fast = fb_fast ?b, hint = fb_hint_tlv ?b,
      meta_raw = raw, payload_or_cipher = fb_payload ?b\<rparr>), rest)"
    by (simp add: decoder_new_def DEFAULT_MAX_FRAME_SIZE_def)
  have bt: "bt_wf (fb_meta ?b)" using wf(1) by (simp add: builder_wf_def)
  then have pm: "parse_meta dec raw = Ok (fb_meta ?b)"
    using parse_meta_built[where dec = dec] assms(3) raw bm by metis
  have "hm_get (extract_headers (fb_meta ?b) []) k = hm_get (om_headers m) k"
    "hm_wf (extract_headers (fb_meta ?b) [])" for k
    using extract_headers_get[OF bt_wf_imp_hm_wf[OF bt] hm_wf_Nil, of k] assms(1)
    by (auto simp: message_meta message_ok_def split: option.splits)
  moreover have "get_meta_str (fb_meta ?b) ''require_ack'' = (if om_require_ack m then Some ''true'' else None)"
    by (simp add: get_meta_str_def message_meta[OF assms(1)])
  moreover have "fh_typ (fb_fast ?b) = Data"
    using assms(1) by (simp add: has_frame_type_def message_ok_def fast_header_new_def)
  ultimately show ?thesis
    using d pm assms(1)
    by (auto simp: same_message_def message_of_frame_def fast_header_new_def message_ok_def
        get_or_def split: option.split)
qed

section \<open>Properties\<close>

text \<open>
  C20: A message survives a link. The frame that a session writes for a message is decoded by the
  peer, whatever follows on the stream, as a \<open>DATA\<close> frame, and the message the peer reads out of it is the same: source,
  destination, payload, correlation, identifier, acknowledgement flag and every header.
\<close>

theorem message_link_roundtrip:
  assumes "message_ok m" and "build_data_frame crc enc me m = Ok bs"
    and "\<forall>v raw. enc v = Some raw \<longrightarrow> dec raw = Some v"
  shows "\<exists>f. frame_decode decoder_new (bs @ rest) = (Ok (Some f), rest)
    \<and> fh_typ (fast f) = Data \<and> same_message m (message_of_frame dec f)"
  by (rule message_over_link[OF assms])

theorem message_link_roundtrip_witness:
  "\<exists>bs f. build_data_frame (\<lambda>_. 0) (\<lambda>v. if v = CMap [(CText ''k'', CBytes [7])] then Some [1] else None) 1
       \<lparr>om_src_node = 1, om_dst_node = 2, om_payload = [9], om_headers = [(''k'', [7])], om_corr_id = 4,
        om_msg_id = Some 5, om_require_ack = False\<rparr> = Ok bs
     \<and> frame_decode decoder_new bs = (Ok (Some f), [])
     \<and> im_payload (message_of_frame (\<lambda>_. Some (CMap [(CText ''k'', CBytes [7])])) f) = [9]"
proof -
  let ?v = "CMap [(CText ''k'', CBytes [7])]"
  let ?enc = "\<lambda>v. if v = ?v then Some [1 :: 8 word] else None" and ?dec = "\<lambda>_ :: bytes. Some ?v"
  let ?m = "\<lparr>om_src_node = 1, om_dst_node = 2, om_payload = [9], om_headers = [(''k'', [7])], om_corr_id = 4,
        om_msg_id = Some 5, om_require_ack = False\<rparr>"
  have ok: "message_ok ?m" by (simp add: message_ok_def hm_wf_def hm_get_Cons)
  have "built_meta (\<lambda>_. 0) (message_builder ?m) = [(''k'', CBytes [7])]"
    by (simp add: built_meta_def message_builder_def set_payload_def meta_insert_bytes_def insert_bytes_def
        frame_builder_new_def meta_builder_new_def fast_header_new_def flags_contains_def HDR_CHECKSUM_def
        has_frame_type_def hm_get_Cons)
  then have e: "?enc (meta_value (built_meta (\<lambda>_. 0) (message_builder ?m))) = Some [1]"
    by (simp add: meta_value_def)
  obtain bs where bs: "build_data_frame (\<lambda>_. 0) ?enc 1 ?m = Ok bs"
    using e by (auto simp: build_data_frame_def frame_builder_build_Ok frame_encode_Ok encoded_size_eq hint_bytes_def)
  have "\<forall>v raw. ?enc v = Some raw \<longrightarrow> ?dec raw = Some v" by (auto split: if_splits)
  from message_link_roundtrip[where enc = ?enc and dec = ?dec and rest = "[]", OF ok bs this] bs show ?thesis
    by (auto simp: same_message_def)
qed

section \<open>Deviations\<close>

text \<open>
  A header named \<open>require_ack\<close> replaces the flag of the same name in the metadata, by a byte
  string that the receiver does not read as the flag.
\<close>

lemma require_ack_header_hides_flag:
  assumes "hm_wf (om_headers m)" and "hm_get (om_headers m) ''require_ack'' = Some v"
  shows "get_meta_str (fb_meta (message_builder m)) ''require_ack'' = None"
proof -
  let ?b = "\<lambda>fh. if om_require_ack m then meta_insert_str ''require_ack'' ''true'' (frame_builder_new fh)
    else frame_builder_new fh"
  have wf: "bt_wf (fb_meta (?b fh))" for fh
    by (simp add: meta_insert_str_def insert_str_def frame_builder_new_def meta_builder_new_def bt_wf_Cons)
  obtain fh where "fb_meta (message_builder m) = fb_meta (insert_headers (om_headers m) (?b fh))"
    by (simp add: message_builder_def Let_def set_payload_def)
  then show ?thesis
    using insert_headers_meta[OF wf[of fh] assms(1), of "''require_ack''"] assms(2)
    by (simp add: get_meta_str_def)
qed

text \<open>A client header named \<open>frame_type\<close> turns a data message into a \<open>TOPOLOGY_UPDATE\<close> frame.\<close>

lemma frame_type_header_changes_type:
  assumes "hm_get (om_headers m) ''frame_type'' = Some (str_bytes ''topology_update'')"
  shows "fh_typ (fb_fast (message_builder m)) = TopologyUpdate"
  using assms by (simp add: has_frame_type_def fast_header_new_def)

end
