(* ===== verification/Session.thy ===== *)
theory Session
  imports Session_Msg
begin

text \<open>
  One session: \<open>mesh-session/src/handshake.rs\<close>, \<open>keepalive.rs\<close> and \<open>session.rs\<close>. The event loop of
  \<open>run_inbound_with_messages\<close> is a step function on a record of everything the loop reads and changes
  (the session state, the read buffer, the written bytes, the emitted events, the global registry
  of message channels); each arm of the \<open>select!\<close> is a constructor of the input. What the operating
  system does (the bytes a read returns, whether a write succeeds, the clocks) is in the inputs and
  in the writer parameter. Instants and durations count nanoseconds.
\<close>

section \<open>Handshake\<close>

record hello =
  he_node_id :: node_id
  he_version :: u8

datatype session_error = SeCodec codec_error | SeWrite | SeEof | SeRead | SeWire wire_error | SeNodeIdMismatch
  | SeCertificate | SePeerAddr

definition hello_builder :: "node_id \<Rightarrow> frame_builder" where
  "hello_builder my_node_id =
     set_payload []
       (meta_insert_u32 ''version'' (ucast WIRE_VERSION)
         (meta_insert_str ''content-type'' ''application/x-hello''
           (frame_builder_new (fast_header_new Hello my_node_id 0 0))))"

definition send_hello :: "(bytes \<Rightarrow> u32) \<Rightarrow> (cbor_value \<Rightarrow> bytes option) \<Rightarrow> (bytes \<Rightarrow> 'o \<Rightarrow> bool \<times> 'o)
    \<Rightarrow> node_id \<Rightarrow> 'o \<Rightarrow> (session_error, unit) outcome \<times> 'o" where
  "send_hello crc enc write my_node_id out =
     (case frame_builder_build crc enc (hello_builder my_node_id) (16 * 1024 * 1024) of
        Ok frame_bytes \<Rightarrow>
          (case write frame_bytes out of
             (True, out) \<Rightarrow> (Ok (), out) | (False, out) \<Rightarrow> (Err SeWrite, out))
      | Err e \<Rightarrow> (Err (SeCodec e), out)
      | Panic \<Rightarrow> (Panic, out))"

text \<open>
  The result of one \<open>read_buf\<close>: bytes, none at the end of the stream, or an error. The loop runs over
  the results of successive reads; when they are used up it waits for the next one.
\<close>

datatype read_result = ReadBytes bytes | ReadError

datatype recv_result = Waiting | Received frame | RecvFailed session_error | RecvPanic

fun recv_any_frame :: "nat \<Rightarrow> bytes \<Rightarrow> read_result list \<Rightarrow> recv_result \<times> bytes" where
  "recv_any_frame decoder buffer [] = (Waiting, buffer)"
| "recv_any_frame decoder buffer (ReadError # reads) = (RecvFailed SeRead, buffer)"
| "recv_any_frame decoder buffer (ReadBytes bs # reads) =
     (if bs = [] then (RecvFailed SeEof, buffer)
      else case frame_decode decoder (buffer @ bs) of
             (Ok (Some f), buffer) \<Rightarrow> (Received f, buffer)
           | (Ok None, buffer) \<Rightarrow> recv_any_frame decoder buffer reads
           | (Err e, buffer) \<Rightarrow> (RecvFailed (SeWire e), buffer)
           | (Panic, buffer) \<Rightarrow> (RecvPanic, buffer))"

definition parse_hello_meta :: "(bytes \<Rightarrow> cbor_value option) \<Rightarrow> bytes \<Rightarrow> (session_error, hello) outcome" where
  "parse_hello_meta dec raw =
     obind (map_err SeCodec (parse_meta dec raw)) (\<lambda>meta.
       Ok \<lparr>he_node_id = 0, he_version = ucast (get_or 1 (get_meta_u32 meta ''version''))\<rparr>)"

section \<open>Keepalive\<close>

definition keepalive_builder :: "frame_type \<Rightarrow> string \<Rightarrow> node_id \<Rightarrow> u64 \<Rightarrow> frame_builder" where
  "keepalive_builder typ content_type my_node corr_id =
     set_payload []
       (meta_insert_str ''content-type'' content_type
         (frame_builder_new ((fast_header_new typ my_node 0 0)\<lparr>fh_corr_id := corr_id\<rparr>)))"

text \<open>\<open>expect\<close>: no frame is a panic.\<close>

definition build_ping :: "(bytes \<Rightarrow> u32) \<Rightarrow> (cbor_value \<Rightarrow> bytes option) \<Rightarrow> node_id \<Rightarrow> u64 \<Rightarrow> bytes option" where
  "build_ping crc enc my_node corr_id =
     (case frame_builder_build crc enc (keepalive_builder Ping ''application/x-ping'' my_node corr_id) (1024 * 1024) of
        Ok bs \<Rightarrow> Some bs | _ \<Rightarrow> None)"

definition build_pong :: "(bytes \<Rightarrow> u32) \<Rightarrow> (cbor_value \<Rightarrow> bytes option) \<Rightarrow> node_id \<Rightarrow> u64 \<Rightarrow> bytes option" where
  "build_pong crc enc my_node corr_id =
     (case frame_builder_build crc enc (keepalive_builder Pong ''application/x-pong'' my_node corr_id) (1024 * 1024) of
        Ok bs \<Rightarrow> Some bs | _ \<Rightarrow> None)"

text \<open>The nanoseconds since the first use, in 64 bits.\<close>

definition now_corr_id :: "nat \<Rightarrow> u64" where
  "now_corr_id elapsed_ns = word_of_nat elapsed_ns AND 0xFFFFFFFFFFFFFFFF"

definition calc_rtt_from_corr :: "nat \<Rightarrow> u64 \<Rightarrow> nat option" where
  "calc_rtt_from_corr elapsed_ns peer_corr_id =
     (let now_ns = word_of_nat elapsed_ns :: u64
      in if now_ns \<ge> peer_corr_id then Some (unat (now_ns - peer_corr_id)) else None)"

section \<open>Configuration, statistics, events\<close>

datatype storage_mode = InMemory | FileMode string u64 u32
  | RedisCache string storage_mode | RedisPrimary string

record session_config =
  sc_my_node_id :: node_id
  sc_ping_interval :: nat
  sc_idle_timeout :: nat
  sc_verify_node_id :: bool
  sc_storage_mode :: storage_mode
  sc_ack_interval :: nat
  sc_ack_batch_size :: u32
  sc_recv_window :: u32

definition SECOND :: nat where "SECOND = 1000000000"

definition session_config_default :: session_config where
  "session_config_default =
     \<lparr>sc_my_node_id = 1, sc_ping_interval = 10 * SECOND, sc_idle_timeout = 30 * SECOND,
      sc_verify_node_id = True, sc_storage_mode = InMemory, sc_ack_interval = 20 * 1000000,
      sc_ack_batch_size = 256, sc_recv_window = 32 * 1024 * 1024\<rparr>"

record session_stats =
  st_bytes_in :: u64
  st_bytes_out :: u64
  st_last_frame_in :: "nat option"
  st_last_frame_out :: "nat option"
  st_last_rtt :: "nat option"
  st_frames_received :: u64
  st_frames_sent :: u64

datatype session_event =
    Connected string node_id
  | Disconnected "node_id option"
  | PongEvent node_id nat
  | MessageReceived inbound_message
  | TopologyUpdateEvent topology_update
  | TopologyRequestEvent topology_request

type_synonym keepalive_state = "(u64, nat) hmap"

definition record_ping :: "nat \<Rightarrow> u64 \<Rightarrow> keepalive_state \<Rightarrow> keepalive_state" where
  "record_ping now corr_id outstanding =
     (let outstanding = hm_insert corr_id now outstanding;
          cutoff = int now - 60 * int SECOND
      in hm_retain (\<lambda>_ time. int time > cutoff) outstanding)"

definition process_pong :: "nat \<Rightarrow> u64 \<Rightarrow> keepalive_state \<Rightarrow> nat option \<times> keepalive_state" where
  "process_pong now corr_id outstanding =
     (case hm_get outstanding corr_id of
        Some send_time \<Rightarrow> (Some (now - send_time), hm_remove corr_id outstanding)
      | None \<Rightarrow> (None, outstanding))"

record session_state =
  ses_remote_node_id :: "node_id option"
  ses_keepalive :: keepalive_state
  ses_stats :: session_stats

definition session_state_new :: session_state where
  "session_state_new =
     \<lparr>ses_remote_node_id = None, ses_keepalive = [],
      ses_stats = \<lparr>st_bytes_in = 0, st_bytes_out = 0, st_last_frame_in = None, st_last_frame_out = None,
                   st_last_rtt = None, st_frames_received = 0, st_frames_sent = 0\<rparr>\<rparr>"

section \<open>The event loop\<close>

text \<open>A message channel, by identity; the registry maps a node to the channel of its session.\<close>

type_synonym channel = nat

text \<open>
  What a session is started with, and the packages it uses: the checksum, the metadata codec, the
  decoders of topology messages, the node named by a certificate, and the writer.
\<close>

record 'o session_env =
  env_config :: session_config
  env_peer_addr :: string
  env_peer_cert :: "bytes option"
  env_message_tx :: "channel option"
  env_crc :: "bytes \<Rightarrow> u32"
  env_enc :: "cbor_value \<Rightarrow> bytes option"
  env_dec :: "bytes \<Rightarrow> cbor_value option"
  env_update_dec :: "bytes \<Rightarrow> topology_update option"
  env_request_dec :: "bytes \<Rightarrow> topology_request option"
  env_cert_node_id :: "bytes \<Rightarrow> node_id option"
  env_write :: "bytes \<Rightarrow> 'o \<Rightarrow> bool \<times> 'o"

record 'o session_run =
  run_state :: session_state
  run_last_activity :: nat
  run_buffer :: bytes
  run_out :: 'o
  run_events :: "session_event list"
  run_registry :: "(node_id, channel) hmap"

datatype loop_control = Continue | Break | Bail session_error | Panicked

definition emit :: "session_event \<Rightarrow> 'o session_run \<Rightarrow> 'o session_run" where
  "emit e r = r\<lparr>run_events := run_events r @ [e]\<rparr>"

definition update_run_stats :: "(session_stats \<Rightarrow> session_stats) \<Rightarrow> 'o session_run \<Rightarrow> 'o session_run" where
  "update_run_stats f r = r\<lparr>run_state := (run_state r)\<lparr>ses_stats := f (ses_stats (run_state r))\<rparr>\<rparr>"

definition count_sent :: "nat \<Rightarrow> bytes \<Rightarrow> session_stats \<Rightarrow> session_stats" where
  "count_sent now bs st =
     st\<lparr>st_bytes_out := st_bytes_out st + word_of_nat (length bs),
        st_frames_sent := st_frames_sent st + 1, st_last_frame_out := Some now\<rparr>"

definition frame_size :: "frame \<Rightarrow> nat" where
  "frame_size f = length (meta_raw f) + length (payload_or_cipher f) + 48"

definition count_received :: "frame \<Rightarrow> session_stats \<Rightarrow> session_stats" where
  "count_received f st =
     st\<lparr>st_frames_received := st_frames_received st + 1,
        st_bytes_in := st_bytes_in st + word_of_nat (frame_size f)\<rparr>"

text \<open>\<open>ping_interval.tick()\<close>\<close>

definition on_ping_tick :: "'o session_env \<Rightarrow> nat \<Rightarrow> nat \<Rightarrow> 'o session_run \<Rightarrow> loop_control \<times> 'o session_run" where
  "on_ping_tick env elapsed_ns now r =
     (let corr_id = now_corr_id elapsed_ns
      in case build_ping (env_crc env) (env_enc env) (sc_my_node_id (env_config env)) corr_id of
           None \<Rightarrow> (Panicked, r)
         | Some ping_bytes \<Rightarrow>
             (case env_write env ping_bytes (run_out r) of
                (True, out) \<Rightarrow>
                  (Continue, update_run_stats (count_sent now ping_bytes)
                     (r\<lparr>run_out := out,
                        run_state := (run_state r)\<lparr>ses_keepalive :=
                          record_ping now corr_id (ses_keepalive (run_state r))\<rparr>\<rparr>))
              | (False, out) \<Rightarrow> (Break, r\<lparr>run_out := out\<rparr>)))"

definition on_hello :: "'o session_env \<Rightarrow> node_id option \<Rightarrow> frame \<Rightarrow> 'o session_run
    \<Rightarrow> loop_control \<times> 'o session_run" where
  "on_hello env tls_node_id f r =
     (let hello_node_id = fh_src_node (fast f)
      in if sc_verify_node_id (env_config env)
            \<and> (case tls_node_id of Some tls_id \<Rightarrow> tls_id \<noteq> hello_node_id | None \<Rightarrow> False)
         then (Bail SeNodeIdMismatch, r)
         else let verified_node_id = get_or hello_node_id tls_node_id;
                  r = r\<lparr>run_state := (run_state r)\<lparr>ses_remote_node_id := Some verified_node_id\<rparr>\<rparr>;
                  r = (case env_message_tx env of
                         Some message_tx \<Rightarrow>
                           r\<lparr>run_registry := hm_insert verified_node_id message_tx (run_registry r)\<rparr>
                       | None \<Rightarrow> r)
              in (Continue, emit (Connected (env_peer_addr env) verified_node_id) r))"

definition on_ping :: "'o session_env \<Rightarrow> nat \<Rightarrow> frame \<Rightarrow> 'o session_run \<Rightarrow> loop_control \<times> 'o session_run" where
  "on_ping env now f r =
     (case build_pong (env_crc env) (env_enc env) (sc_my_node_id (env_config env)) (fh_corr_id (fast f)) of
        None \<Rightarrow> (Panicked, r)
      | Some pong_bytes \<Rightarrow>
          (case env_write env pong_bytes (run_out r) of
             (True, out) \<Rightarrow> (Continue, update_run_stats (count_sent now pong_bytes) (r\<lparr>run_out := out\<rparr>))
           | (False, out) \<Rightarrow> (Break, r\<lparr>run_out := out\<rparr>)))"

definition on_pong :: "nat \<Rightarrow> frame \<Rightarrow> 'o session_run \<Rightarrow> loop_control \<times> 'o session_run" where
  "on_pong now f r =
     (case process_pong now (fh_corr_id (fast f)) (ses_keepalive (run_state r)) of
        (Some rtt, outstanding) \<Rightarrow>
          let r = update_run_stats (\<lambda>st. st\<lparr>st_last_rtt := Some rtt\<rparr>)
                    (r\<lparr>run_state := (run_state r)\<lparr>ses_keepalive := outstanding\<rparr>\<rparr>)
          in (case ses_remote_node_id (run_state r) of
                Some remote_node_id \<Rightarrow> (Continue, emit (PongEvent remote_node_id rtt) r)
              | None \<Rightarrow> (Continue, r))
      | (None, _) \<Rightarrow> (Continue, r))"

definition on_data :: "'o session_env \<Rightarrow> frame \<Rightarrow> 'o session_run \<Rightarrow> loop_control \<times> 'o session_run" where
  "on_data env f r =
     (Continue, update_run_stats (count_received f)
        (emit (MessageReceived (message_of_frame (env_dec env) f)) r))"

definition on_topology_update :: "'o session_env \<Rightarrow> frame \<Rightarrow> 'o session_run \<Rightarrow> loop_control \<times> 'o session_run" where
  "on_topology_update env f r =
     (Continue, update_run_stats (count_received f)
        (case env_update_dec env (payload_or_cipher f) of
           Some u \<Rightarrow> emit (TopologyUpdateEvent u) r | None \<Rightarrow> r))"

definition on_topology_request :: "'o session_env \<Rightarrow> frame \<Rightarrow> 'o session_run \<Rightarrow> loop_control \<times> 'o session_run" where
  "on_topology_request env f r =
     (Continue, update_run_stats (count_received f)
        (case env_request_dec env (payload_or_cipher f) of
           Some q \<Rightarrow> emit (TopologyRequestEvent q) r | None \<Rightarrow> r))"

text \<open>The \<open>Ok(frame)\<close> arm.\<close>

definition on_frame :: "'o session_env \<Rightarrow> node_id option \<Rightarrow> nat \<Rightarrow> frame \<Rightarrow> 'o session_run
    \<Rightarrow> loop_control \<times> 'o session_run" where
  "on_frame env tls_node_id now f r =
     (let r = update_run_stats (count_received f)
                (update_run_stats (\<lambda>st. st\<lparr>st_last_frame_in := Some now\<rparr>) (r\<lparr>run_last_activity := now\<rparr>))
      in case fh_typ (fast f) of
           Hello \<Rightarrow> on_hello env tls_node_id f r
         | Ping \<Rightarrow> on_ping env now f r
         | Pong \<Rightarrow> on_pong now f r
         | Data \<Rightarrow> on_data env f r
         | TopologyUpdate \<Rightarrow> on_topology_update env f r
         | TopologyRequest \<Rightarrow> on_topology_request env f r
         | _ \<Rightarrow> (Continue, r))"

definition on_outbound :: "'o session_env \<Rightarrow> nat \<Rightarrow> outbound_message \<Rightarrow> 'o session_run
    \<Rightarrow> loop_control \<times> 'o session_run" where
  "on_outbound env now message r =
     (if is_termination_message message then (Break, r)
      else case build_data_frame (env_crc env) (env_enc env) (sc_my_node_id (env_config env)) message of
             Ok frame_bytes \<Rightarrow>
               (case env_write env frame_bytes (run_out r) of
                  (True, out) \<Rightarrow> (Continue, update_run_stats (count_sent now frame_bytes) (r\<lparr>run_out := out\<rparr>))
                | (False, out) \<Rightarrow> (Break, r\<lparr>run_out := out\<rparr>))
           | Err e \<Rightarrow> (Continue, r)
           | Panic \<Rightarrow> (Panicked, r))"

text \<open>The arms of the \<open>select!\<close>: a tick, a read, a message to send, the idle timer.\<close>

datatype session_input =
    PingTick nat nat
  | SocketRead nat read_result
  | OutboundReady nat outbound_message
  | IdleTimer nat

definition session_step :: "'o session_env \<Rightarrow> node_id option \<Rightarrow> session_input \<Rightarrow> 'o session_run
    \<Rightarrow> loop_control \<times> 'o session_run" where
  "session_step env tls_node_id i r =
     (case i of
        PingTick elapsed_ns now \<Rightarrow> on_ping_tick env elapsed_ns now r
      | SocketRead now read \<Rightarrow>
          (case recv_any_frame decoder_new (run_buffer r) [read] of
             (Received f, buffer) \<Rightarrow> on_frame env tls_node_id now f (r\<lparr>run_buffer := buffer\<rparr>)
           | (Waiting, buffer) \<Rightarrow> (Continue, r\<lparr>run_buffer := buffer\<rparr>)
           | (RecvFailed e, buffer) \<Rightarrow> (Break, r\<lparr>run_buffer := buffer\<rparr>)
           | (RecvPanic, buffer) \<Rightarrow> (Panicked, r\<lparr>run_buffer := buffer\<rparr>))
      | OutboundReady now message \<Rightarrow> on_outbound env now message r
      | IdleTimer now \<Rightarrow>
          if now \<ge> run_last_activity r + sc_idle_timeout (env_config env) then (Break, r) else (Continue, r))"

text \<open>The end of the function, after the loop was left by \<open>break\<close>.\<close>

definition session_cleanup :: "'o session_run \<Rightarrow> 'o session_run" where
  "session_cleanup r =
     (let r = (case ses_remote_node_id (run_state r) of
                 Some node_id \<Rightarrow> r\<lparr>run_registry := hm_remove node_id (run_registry r)\<rparr>
               | None \<Rightarrow> r)
      in emit (Disconnected (ses_remote_node_id (run_state r))) r)"

text \<open>The loop over a sequence of inputs; \<open>None\<close> while the session is still running.\<close>

fun session_loop :: "'o session_env \<Rightarrow> node_id option \<Rightarrow> session_input list \<Rightarrow> 'o session_run
    \<Rightarrow> (session_error, unit) outcome option \<times> 'o session_run" where
  "session_loop env tls_node_id [] r = (None, r)"
| "session_loop env tls_node_id (i # inputs) r =
     (case session_step env tls_node_id i r of
        (Continue, r) \<Rightarrow> session_loop env tls_node_id inputs r
      | (Break, r) \<Rightarrow> (Some (Ok ()), session_cleanup r)
      | (Bail e, r) \<Rightarrow> (Some (Err e), r)
      | (Panicked, r) \<Rightarrow> (Some Panic, r))"

definition tls_node_id_of :: "'o session_env \<Rightarrow> (session_error, node_id option) outcome" where
  "tls_node_id_of env =
     (case env_peer_cert env of
        Some cert_der \<Rightarrow>
          (case env_cert_node_id env cert_der of
             Some node_id \<Rightarrow> Ok (Some node_id)
           | None \<Rightarrow> if sc_verify_node_id (env_config env) then Err SeCertificate else Ok None)
      | None \<Rightarrow> Ok None)"

definition run_inbound_with_messages :: "'o session_env \<Rightarrow> nat \<Rightarrow> session_input list \<Rightarrow> 'o
    \<Rightarrow> (node_id, channel) hmap \<Rightarrow> (session_error, unit) outcome option \<times> 'o session_run" where
  "run_inbound_with_messages env now inputs out registry =
     (let r = \<lparr>run_state = session_state_new, run_last_activity = now, run_buffer = [], run_out = out,
               run_events = [], run_registry = registry\<rparr>
      in case tls_node_id_of env of
           Ok tls_node_id \<Rightarrow>
             (case send_hello (env_crc env) (env_enc env) (env_write env) (sc_my_node_id (env_config env)) out of
                (Ok _, out) \<Rightarrow>
                  session_loop env tls_node_id inputs
                    (update_run_stats (\<lambda>st. st\<lparr>st_frames_sent := st_frames_sent st + 1\<rparr>) (r\<lparr>run_out := out\<rparr>))
              | (Err e, out) \<Rightarrow> (Some (Err e), r\<lparr>run_out := out\<rparr>)
              | (Panic, out) \<Rightarrow> (Some Panic, r\<lparr>run_out := out\<rparr>))
         | Err e \<Rightarrow> (Some (Err e), r)
         | Panic \<Rightarrow> (Some Panic, r))"

section \<open>Reconnecting\<close>

text \<open>
  The loop of \<open>run_outbound_with_messages\<close> over what happens to its attempts to connect: the time it
  sleeps after each.
\<close>

datatype connect_attempt = ConnectFailed | TlsFailed | SessionEnded

fun reconnect_delays :: "nat \<Rightarrow> connect_attempt list \<Rightarrow> nat list" where
  "reconnect_delays backoff [] = []"
| "reconnect_delays backoff (ConnectFailed # attempts) =
     backoff # reconnect_delays (min (backoff * 2) (30 * SECOND)) attempts"
| "reconnect_delays backoff (TlsFailed # attempts) = SECOND # reconnect_delays SECOND attempts"
| "reconnect_delays backoff (SessionEnded # attempts) = SECOND # reconnect_delays SECOND attempts"

definition run_outbound_delays :: "connect_attempt list \<Rightarrow> nat list" where
  "run_outbound_delays attempts = reconnect_delays SECOND attempts"

end
