(* ===== verification/Session_Ops.thy ===== *)
theory Session_Ops
  imports Session
begin

text \<open>
  What a session guarantees: frames are put together from arbitrary reads, the identity that was verified is the
  one that is announced, the end of a session is announced and undone in the registry, keepalive
  exchanges measure the round trip, and reconnection backs off within bounds.
\<close>

section \<open>Reading frames\<close>

lemma recv_chunks:
  assumes "frame_wf f" and "frame_encode f m = Ok bs" and "m \<le> DEFAULT_MAX_FRAME_SIZE"
    and "\<forall>c\<in>set chunks. c \<noteq> []" and "chunks \<noteq> []"
    and "buffer @ concat chunks = bs @ rest" and "length (buffer @ concat (butlast chunks)) < length bs"
  shows "recv_any_frame decoder_new buffer (map ReadBytes chunks) = (Received f, rest)"
  using assms(4-7)
proof (induction chunks arbitrary: buffer)
  case (Cons c cs)
  have size: "encoded_size f \<le> m" using assms(2) by (simp add: frame_encode_Ok)
  then have size: "encoded_size f - 4 \<le> decoder_new" "encoded_size f < 2 ^ 32"
    using assms(3) by (simp_all add: decoder_new_def DEFAULT_MAX_FRAME_SIZE_def)
  show ?case
  proof (cases "cs = []")
    case True
    with Cons.prems(1,3) frame_decode_encode[OF assms(1,2) size] show ?thesis by simp
  next
    case False
    then have short: "length (buffer @ c) < length bs" using Cons.prems(4) by simp
    have "buffer @ c = take (length (buffer @ c)) (buffer @ concat (c # cs))" by simp
    also have "\<dots> = take (length (buffer @ c)) bs" unfolding Cons.prems(3) using short by simp
    finally have eq: "take (length (buffer @ c)) bs = buffer @ c" ..
    have "frame_decode decoder_new (buffer @ c) = (Ok None, buffer @ c)"
      using frame_decode_incomplete[OF assms(2) size short] unfolding eq .
    moreover have "recv_any_frame decoder_new (buffer @ c) (map ReadBytes cs) = (Received f, rest)"
      using Cons.prems False by (intro Cons.IH) auto
    ultimately show ?thesis using Cons.prems(1) by simp
  qed
qed simp

section \<open>Identity\<close>

text \<open>What a session whose certificate names \<open>t\<close> keeps: it is known under no other name.\<close>

definition known_as :: "node_id \<Rightarrow> (node_id, channel) hmap \<Rightarrow> 'o session_run \<Rightarrow> bool" where
  "known_as t registry r \<longleftrightarrow>
     ses_remote_node_id (run_state r) \<in> {None, Some t}
     \<and> (\<forall>a n. Connected a n \<in> set (run_events r) \<longrightarrow> n = t)
     \<and> (\<forall>n d. PongEvent n d \<in> set (run_events r) \<longrightarrow> n = t)
     \<and> (\<forall>n. n \<noteq> t \<longrightarrow> hm_get (run_registry r) n = hm_get registry n)"

lemma known_as_simps [simp]:
  "known_as t g (update_run_stats h r) = known_as t g r"
  "known_as t g (r\<lparr>run_out := out\<rparr>) = known_as t g r"
  "known_as t g (r\<lparr>run_buffer := b\<rparr>) = known_as t g r"
  "known_as t g (r\<lparr>run_last_activity := n\<rparr>) = known_as t g r"
  "known_as t g (r\<lparr>run_state := (run_state r)\<lparr>ses_keepalive := k\<rparr>\<rparr>) = known_as t g r"
  "known_as t g (emit (MessageReceived m) r) = known_as t g r"
  "known_as t g (emit (TopologyUpdateEvent u) r) = known_as t g r"
  "known_as t g (emit (TopologyRequestEvent q) r) = known_as t g r"
  by (auto simp: known_as_def update_run_stats_def emit_def)

lemma known_as_out_buffer [simp]:
  "known_as t g (r\<lparr>run_out := out, run_state := (run_state r)\<lparr>ses_keepalive := k\<rparr>\<rparr>) = known_as t g r"
  by (auto simp: known_as_def)

lemma on_hello_known_as:
  assumes "known_as t g r" and "sc_verify_node_id (env_config env)"
  shows "known_as t g (snd (on_hello env (Some t) f r))"
  using assms by (auto simp: on_hello_def known_as_def emit_def Let_def split: option.splits)

lemma on_pong_known_as:
  assumes "known_as t g r"
  shows "known_as t g (snd (on_pong now f r))"
proof -
  have E: "known_as t g (emit (PongEvent n d) r')" if "known_as t g r'" "ses_remote_node_id (run_state r') = Some n" for n d r'
    using that by (auto simp: known_as_def emit_def)
  show ?thesis
    using assms by (auto simp: on_pong_def Let_def intro!: E split: prod.split option.split)
qed

lemma on_frame_known_as:
  assumes "known_as t g r" and "sc_verify_node_id (env_config env)"
  shows "known_as t g (snd (on_frame env (Some t) now f r))"
proof -
  define r' where "r' = update_run_stats (count_received f)
      (update_run_stats (\<lambda>st. st\<lparr>st_last_frame_in := Some now\<rparr>) (r\<lparr>run_last_activity := now\<rparr>))"
  have r': "known_as t g r'" using assms(1) by (simp add: r'_def)
  have "known_as t g (snd (on_ping env now f r'))" "known_as t g (snd (on_data env f r'))"
    "known_as t g (snd (on_topology_update env f r'))" "known_as t g (snd (on_topology_request env f r'))"
    using r' by (auto simp: on_ping_def on_data_def on_topology_update_def on_topology_request_def
        split: option.split prod.split bool.split)
  with r' on_hello_known_as[OF r' assms(2)] on_pong_known_as[OF r'] show ?thesis
    by (auto simp: on_frame_def r'_def[symmetric] split: frame_type.split)
qed

lemma session_step_known_as:
  assumes "known_as t g r" and "sc_verify_node_id (env_config env)"
  shows "known_as t g (snd (session_step env (Some t) i r))"
proof (cases i)
  case (PingTick e now)
  then show ?thesis
    using assms(1) by (auto simp: session_step_def on_ping_tick_def Let_def split: option.split prod.split bool.split)
next
  case (SocketRead now rd)
  then show ?thesis
    using assms on_frame_known_as[of t g "r\<lparr>run_buffer := b\<rparr>" for b]
    by (auto simp: session_step_def split: prod.split recv_result.split)
next
  case (OutboundReady now m)
  then show ?thesis
    using assms(1) by (auto simp: session_step_def on_outbound_def split: outcome.split prod.split bool.split)
next
  case (IdleTimer now)
  then show ?thesis using assms(1) by (simp add: session_step_def)
qed

lemma session_cleanup_known_as: "known_as t g r \<Longrightarrow> known_as t g (session_cleanup r)"
  by (auto simp: session_cleanup_def known_as_def emit_def Let_def split: option.splits)

lemma session_loop_known_as:
  assumes "known_as t g r" and "sc_verify_node_id (env_config env)"
  shows "known_as t g (snd (session_loop env (Some t) inputs r))"
  using assms(1)
proof (induction inputs arbitrary: r)
  case (Cons i inputs)
  obtain c r' where s: "session_step env (Some t) i r = (c, r')" by (metis surj_pair)
  with session_step_known_as[OF Cons.prems assms(2), of i] have "known_as t g r'" by simp
  with Cons.IH[of r'] show ?case
    by (cases c) (simp_all add: s session_cleanup_known_as)
qed simp

section \<open>The end of a session\<close>

text \<open>The nodes whose connection a session has announced, and the last of them.\<close>

definition connected_nodes :: "session_event list \<Rightarrow> node_id list" where
  "connected_nodes es = List.map_filter (\<lambda>e. case e of Connected _ n \<Rightarrow> Some n | _ \<Rightarrow> None) es"

definition last_connected :: "session_event list \<Rightarrow> node_id option" where
  "last_connected es = (if connected_nodes es = [] then None else Some (last (connected_nodes es)))"

lemma connected_nodes_simps [simp]:
  "connected_nodes [] = []"
  "connected_nodes (es @ [e]) = connected_nodes es @ (case e of Connected _ n \<Rightarrow> [n] | _ \<Rightarrow> [])"
  by (simp_all add: connected_nodes_def List.map_filter_def split: session_event.split)

text \<open>What the registry holds after these announcements, when \<open>tx\<close> is the channel of the session and \<open>g\<close> was the registry before it.\<close>

definition registered :: "channel option \<Rightarrow> (node_id, channel) hmap \<Rightarrow> session_event list \<Rightarrow> node_id \<Rightarrow> channel option" where
  "registered tx g es m = (if m \<in> set (connected_nodes es) \<and> tx \<noteq> None then tx else hm_get g m)"

text \<open>A run that has not announced its end: it is connected to the last node it has announced, and has registered its channel under all of them.\<close>

definition open_run :: "channel option \<Rightarrow> (node_id, channel) hmap \<Rightarrow> 'o session_run \<Rightarrow> bool" where
  "open_run tx g r \<longleftrightarrow> (\<forall>n. Disconnected n \<notin> set (run_events r))
     \<and> ses_remote_node_id (run_state r) = last_connected (run_events r)
     \<and> hm_get (run_registry r) = registered tx g (run_events r)"

lemma open_run_simps [simp]:
  "open_run tx g (update_run_stats h r) = open_run tx g r" "open_run tx g (r\<lparr>run_out := out\<rparr>) = open_run tx g r"
  "open_run tx g (r\<lparr>run_buffer := b\<rparr>) = open_run tx g r" "open_run tx g (r\<lparr>run_last_activity := n\<rparr>) = open_run tx g r"
  "open_run tx g (r\<lparr>run_state := (run_state r)\<lparr>ses_keepalive := k\<rparr>\<rparr>) = open_run tx g r"
  "open_run tx g (r\<lparr>run_out := out, run_state := (run_state r)\<lparr>ses_keepalive := k\<rparr>\<rparr>) = open_run tx g r"
  by (auto simp: open_run_def update_run_stats_def)

lemma open_run_emit [simp]:
  assumes "\<And>a n. e \<noteq> Connected a n" and "\<And>n. e \<noteq> Disconnected n"
  shows "open_run tx g (emit e r) = open_run tx g r"
proof -
  have "connected_nodes (es @ [e]) = connected_nodes es" for es using assms(1) by (cases e) (simp_all, blast)
  then show ?thesis using assms(2) by (auto simp: open_run_def emit_def last_connected_def registered_def fun_eq_iff)
qed

lemma on_hello_open:
  assumes "open_run (env_message_tx env) g r"
  shows "open_run (env_message_tx env) g (snd (on_hello env t f r))"
  using assms
  by (auto simp: on_hello_def open_run_def emit_def last_connected_def registered_def fun_eq_iff Let_def split: option.split)

lemmas frame_arms = on_ping_def on_pong_def on_data_def on_topology_update_def on_topology_request_def

lemma on_frame_open:
  "open_run (env_message_tx env) g r \<Longrightarrow> open_run (env_message_tx env) g (snd (on_frame env t now f r))"
  by (auto simp: on_frame_def frame_arms Let_def intro!: on_hello_open
      split: frame_type.split option.split prod.split bool.split)

lemma session_step_open:
  "open_run (env_message_tx env) g r \<Longrightarrow> open_run (env_message_tx env) g (snd (session_step env t i r))"
  by (auto simp: session_step_def on_ping_tick_def on_outbound_def Let_def intro!: on_frame_open
      split: session_input.split option.split outcome.split prod.split bool.split recv_result.split)

lemma session_loop_end:
  assumes "open_run (env_message_tx env) g r" and "session_loop env t inputs r = (res, r')"
  shows "if res = Some (Ok ())
    then \<exists>q. open_run (env_message_tx env) g q \<and> r' = session_cleanup q else open_run (env_message_tx env) g r'"
  using assms
proof (induction inputs arbitrary: r)
  case (Cons i inputs)
  obtain c q where s: "session_step env t i r = (c, q)" by (metis surj_pair)
  with session_step_open[OF Cons.prems(1), of t i] have "open_run (env_message_tx env) g q" by simp
  then show ?case
    using Cons.IH[of q] Cons.prems(2) by (cases c) (auto simp: s)
qed simp

section \<open>Keepalive frames\<close>

definition keepalive_meta :: "string \<Rightarrow> cbor_value" where
  "keepalive_meta content_type = CMap [(CText ''content-type'', CText content_type)]"

lemma keepalive_frame_decodes:
  assumes "enc (keepalive_meta ct) = Some raw" and "length raw \<le> MAX_META_SIZE"
  obtains bs where "frame_builder_build crc enc (keepalive_builder typ ct n c) (1024 * 1024) = Ok bs"
    and "bs \<noteq> []"
    and "frame_decode decoder_new bs = (Ok (Some \<lparr>fast = (fast_header_new typ n 0 0)\<lparr>fh_corr_id := c\<rparr>,
       hint = None, meta_raw = raw, payload_or_cipher = []\<rparr>), [])"
proof -
  let ?b = "keepalive_builder typ ct n c"
  have f: "fb_fast ?b = (fast_header_new typ n 0 0)\<lparr>fh_corr_id := c\<rparr>" "fb_hint_tlv ?b = None" "fb_payload ?b = []"
    by (simp_all add: keepalive_builder_def set_payload_def meta_insert_str_def frame_builder_new_def)
  have "built_meta crc ?b = [(''content-type'', CText ct)]"
    by (simp add: built_meta_def keepalive_builder_def set_payload_def meta_insert_str_def frame_builder_new_def
        meta_builder_new_def insert_str_def fast_header_new_def flags_contains_def HDR_CHECKSUM_def)
  then have m: "enc (meta_value (built_meta crc ?b)) = Some raw"
    using assms(1) by (simp add: meta_value_def keepalive_meta_def)
  have wf: "builder_wf ?b"
    unfolding keepalive_builder_def
    by (intro builder_wf_steps builder_wf_new) (simp_all add: fast_header_new_def header_wf_def)
  obtain bs where bs: "frame_builder_build crc enc ?b (1024 * 1024) = Ok bs"
    using m assms(2) by (auto simp: frame_builder_build_Ok frame_encode_Ok encoded_size_eq f hint_bytes_def MAX_META_SIZE_def)
  have d: "frame_decode decoder_new bs = (Ok (Some \<lparr>fast = (fast_header_new typ n 0 0)\<lparr>fh_corr_id := c\<rparr>,
       hint = None, meta_raw = raw, payload_or_cipher = []\<rparr>), [])"
    using built_frame_decodes[OF wf bs m assms(2), of decoder_new "[]"]
    by (simp add: f decoder_new_def DEFAULT_MAX_FRAME_SIZE_def)
  then have "bs \<noteq> []" by (auto simp: frame_decode_def)
  then show thesis using that bs d by blast
qed

lemma record_ping_get:
  "hm_get (record_ping now c k) c = Some now" if "hm_wf k"
  using that by (simp add: record_ping_def Let_def hm_get_retain SECOND_def)

section \<open>Reconnection\<close>

lemma reconnect_delays_bounds:
  "SECOND \<le> b \<Longrightarrow> b \<le> 30 * SECOND \<Longrightarrow> \<forall>d\<in>set (reconnect_delays b attempts). SECOND \<le> d \<and> d \<le> 30 * SECOND"
  by (induction b attempts rule: reconnect_delays.induct) (auto simp: SECOND_def)

lemma min_mult_cap: "1 \<le> p \<Longrightarrow> min (min x c * p) c = min (x * p) c" for x c p :: nat
proof (cases "x \<le> c")
  case False
  assume "1 \<le> p"
  then have "c \<le> c * p" by simp
  moreover have "c * p \<le> x * p" using False by (intro mult_right_mono) simp_all
  ultimately have "c \<le> x * p" by (rule order_trans)
  then show ?thesis using False \<open>c \<le> c * p\<close> by (simp add: min_absorb2)
qed (simp add: min_absorb1)

lemma reconnect_delays_failures:
  "k < n \<Longrightarrow> b \<le> 30 * SECOND \<Longrightarrow> reconnect_delays b (replicate n ConnectFailed) ! k = min (b * 2 ^ k) (30 * SECOND)"
proof (induction n arbitrary: b k)
  case (Suc n)
  show ?case
  proof (cases k)
    case (Suc j)
    with Suc.prems Suc.IH[of j "min (b * 2) (30 * SECOND)"] min_mult_cap[of "2 ^ j" "b * 2" "30 * SECOND"]
    show ?thesis by (simp add: mult.assoc)
  qed (use Suc.prems in simp)
qed simp

section \<open>The start of a session\<close>

definition initial_run :: "nat \<Rightarrow> 'o \<Rightarrow> (node_id, channel) hmap \<Rightarrow> 'o session_run" where
  "initial_run now out registry =
     \<lparr>run_state = session_state_new, run_last_activity = now, run_buffer = [], run_out = out,
      run_events = [], run_registry = registry\<rparr>"

lemma run_inbound_cases:
  assumes "run_inbound_with_messages env now inputs out registry = (res, r)"
  obtains (started) t out' where "tls_node_id_of env = Ok t"
      and "session_loop env t inputs (update_run_stats (\<lambda>st. st\<lparr>st_frames_sent := st_frames_sent st + 1\<rparr>)
        (initial_run now out' registry)) = (res, r)"
    | (refused) out' where "res \<noteq> Some (Ok ())" and "r = initial_run now out' registry"
proof -
  obtain h out' where h: "send_hello (env_crc env) (env_enc env) (env_write env) (sc_my_node_id (env_config env)) out = (h, out')"
    by (metis surj_pair)
  show thesis
  proof (cases "tls_node_id_of env")
    case (Ok t)
    with assms started[OF Ok, of out'] refused[of out'] show thesis
      by (cases h) (auto simp: run_inbound_with_messages_def initial_run_def h)
  qed (use assms refused[of out] in \<open>auto simp: run_inbound_with_messages_def initial_run_def\<close>)
qed

section \<open>Properties\<close>

text \<open>
  C25: A frame is received however the network cuts the stream into pieces: once the pieces, none of
  them empty, hold the whole of an encoded frame, reading returns that frame, and what came
  after it stays in the buffer.
\<close>

theorem frame_received_from_pieces:
  assumes "frame_wf f" and "frame_encode f DEFAULT_MAX_FRAME_SIZE = Ok bs"
    and "\<forall>c\<in>set pieces. c \<noteq> []" and "pieces \<noteq> []"
    and "concat pieces = bs @ rest" and "length (concat (butlast pieces)) < length bs"
  shows "recv_any_frame decoder_new [] (map ReadBytes pieces) = (Received f, rest)"
  using recv_chunks[OF assms(1,2) order_refl assms(3,4), of "[]"] assms(5,6) by simp

theorem frame_received_from_pieces_witness:
  "\<exists>f bs. frame_encode f DEFAULT_MAX_FRAME_SIZE = Ok bs \<and> payload_or_cipher f = [1, 2]
     \<and> recv_any_frame decoder_new [] [ReadBytes (take 3 bs), ReadBytes (drop 3 bs @ [9])] = (Received f, [9])"
proof -
  let ?f = "frame_new (fast_header_new Data 1 2 3) [160] [1, 2]"
  have wf: "frame_wf ?f"
    by (simp add: frame_wf_def frame_new_def fast_header_new_def header_wf_def MAX_META_SIZE_def)
  have size: "encoded_size ?f = 59" by (simp add: encoded_size_eq frame_new_def hint_bytes_def)
  then obtain bs where bs: "frame_encode ?f DEFAULT_MAX_FRAME_SIZE = Ok bs"
    by (auto simp: frame_encode_Ok DEFAULT_MAX_FRAME_SIZE_def)
  have "length bs = 59" using length_frame_encode[OF bs] size by simp
  then have "recv_any_frame decoder_new [] (map ReadBytes [take 3 bs, drop 3 bs @ [9]]) = (Received ?f, [9])"
    by (intro frame_received_from_pieces[OF wf bs]) auto
  with bs show ?thesis by (intro exI[of _ ?f] exI[of _ bs]) (simp add: frame_new_def)
qed

text \<open>
  A peer cannot pose as another node. When verification is on and the certificate of the peer names node \<open>t\<close>,
  then, whatever the peer sends and in whatever order, the session announces a connection and round trips under no
  other node than \<open>t\<close>, and changes the registry of message channels at no other node.
\<close>

lemma verified_identity:
  assumes "sc_verify_node_id (env_config env)" and "env_peer_cert env = Some cert"
    and "env_cert_node_id env cert = Some t"
    and "run_inbound_with_messages env now inputs out registry = (res, r)"
  shows "(\<forall>a n. Connected a n \<in> set (run_events r) \<longrightarrow> n = t)
    \<and> (\<forall>n d. PongEvent n d \<in> set (run_events r) \<longrightarrow> n = t)
    \<and> (\<forall>n. n \<noteq> t \<longrightarrow> hm_get (run_registry r) n = hm_get registry n)"
proof -
  have t: "tls_node_id_of env = Ok (Some t)" using assms(2,3) by (simp add: tls_node_id_of_def)
  have init: "known_as t registry (initial_run now out' registry)" for out' :: 'a
    by (simp add: known_as_def initial_run_def session_state_new_def)
  from assms(4) have "known_as t registry r"
  proof (cases rule: run_inbound_cases)
    case (started t' out')
    have "t' = Some t" using started(1) t by simp
    have "known_as t registry (update_run_stats (\<lambda>st. st\<lparr>st_frames_sent := st_frames_sent st + 1\<rparr>)
        (initial_run now out' registry))" by (simp add: init)
    from session_loop_known_as[OF this assms(1), of inputs] started(2) \<open>t' = Some t\<close> show ?thesis by simp
  qed (simp add: init)
  then show ?thesis by (simp add: known_as_def)
qed

text \<open>
  C22: What a session leaves behind. One that leaves its loop (lost connection, idle timeout, termination message) announces as its last event,
  and once, the end of the connection with the node it has announced last, and takes that node out of the registry of message channels;
  one that is still running, was refused or has failed has announced no end. Every other node the session has announced, and
  in a session that has not ended in this way every one, still has the channel of the session in the
  registry, and nothing else in the registry has changed.
\<close>

theorem session_end_announced:
  assumes "run_inbound_with_messages env now inputs out registry = (res, r)"
  shows "\<exists>es. (\<forall>n. Disconnected n \<notin> set es)
    \<and> run_events r = es @ (if res = Some (Ok ()) then [Disconnected (last_connected es)] else [])
    \<and> (\<forall>m. hm_get (run_registry r) m =
        (if res = Some (Ok ()) \<and> last_connected es = Some m then None
         else if m \<in> set (connected_nodes es) \<and> env_message_tx env \<noteq> None then env_message_tx env
         else hm_get registry m))"
proof -
  let ?open = "open_run (env_message_tx env) registry :: 'a session_run \<Rightarrow> bool"
  have init: "?open (initial_run now out' registry)" for out' :: 'a
    by (simp add: open_run_def initial_run_def session_state_new_def last_connected_def registered_def fun_eq_iff)
  from assms have "if res = Some (Ok ()) then \<exists>q. ?open q \<and> r = session_cleanup q else ?open r"
  proof (cases rule: run_inbound_cases)
    case (started t out')
    show ?thesis by (rule session_loop_end[OF _ started(2)]) (simp add: init)
  qed (simp add: init)
  then show ?thesis
  proof (cases "res = Some (Ok ())")
    case True
    with \<open>if res = Some (Ok ()) then _ else _\<close> obtain q where q: "?open q" "r = session_cleanup q" by auto
    with True show ?thesis
      by (intro exI[of _ "run_events q"])
        (auto simp: open_run_def session_cleanup_def emit_def registered_def fun_eq_iff Let_def split: option.split)
  next
    case False
    with \<open>if res = Some (Ok ()) then _ else _\<close> show ?thesis
      by (intro exI[of _ "run_events r"]) (auto simp: open_run_def registered_def fun_eq_iff)
  qed
qed

text \<open>
  C26: A keepalive exchange between two sessions measures the round trip. The bytes that one writes
  at a tick make the other write a \<open>PONG\<close> with the same correlation identifier, and these make the first announce the
  time since the tick; the identifier is then settled.
\<close>

theorem ping_pong_exchange:
  fixes ra rb :: "bytes list session_run"
  assumes "env_write A = collect" and "env_write B = collect" and "run_buffer ra = []" and "run_buffer rb = []"
    and "env_enc A (keepalive_meta ''application/x-ping'') = Some raw1" and "length raw1 \<le> MAX_META_SIZE"
    and "env_enc B (keepalive_meta ''application/x-pong'') = Some raw2" and "length raw2 \<le> MAX_META_SIZE"
    and "hm_wf (ses_keepalive (run_state ra))" and "ses_remote_node_id (run_state ra) = Some b"
  shows "\<exists>ping pong ra1 rb1 ra2.
      session_step A ta (PingTick e now) ra = (Continue, ra1) \<and> run_out ra1 = run_out ra @ [ping]
    \<and> session_step B tb (SocketRead now' (ReadBytes ping)) rb = (Continue, rb1) \<and> run_out rb1 = run_out rb @ [pong]
    \<and> session_step A ta (SocketRead now'' (ReadBytes pong)) ra1 = (Continue, ra2)
    \<and> run_events ra2 = run_events ra @ [PongEvent b (now'' - now)]
    \<and> hm_get (ses_keepalive (run_state ra2)) (now_corr_id e) = None"
proof -
  let ?c = "now_corr_id e"
  obtain ping where ping: "frame_builder_build (env_crc A) (env_enc A)
        (keepalive_builder Ping ''application/x-ping'' (sc_my_node_id (env_config A)) ?c) (1024 * 1024) = Ok ping"
      "ping \<noteq> []" "frame_decode decoder_new ping = (Ok (Some \<lparr>fast = (fast_header_new Ping (sc_my_node_id (env_config A)) 0 0)
         \<lparr>fh_corr_id := ?c\<rparr>, hint = None, meta_raw = raw1, payload_or_cipher = []\<rparr>), [])"
    by (rule keepalive_frame_decodes[where enc = "env_enc A", OF assms(5,6)])
  obtain pong where pong: "frame_builder_build (env_crc B) (env_enc B)
        (keepalive_builder Pong ''application/x-pong'' (sc_my_node_id (env_config B)) ?c) (1024 * 1024) = Ok pong"
      "pong \<noteq> []" "frame_decode decoder_new pong = (Ok (Some \<lparr>fast = (fast_header_new Pong (sc_my_node_id (env_config B)) 0 0)
         \<lparr>fh_corr_id := ?c\<rparr>, hint = None, meta_raw = raw2, payload_or_cipher = []\<rparr>), [])"
    by (rule keepalive_frame_decodes[where enc = "env_enc B", OF assms(7,8)])
  define ra1 where "ra1 = snd (session_step A ta (PingTick e now) ra)"
  have a1: "session_step A ta (PingTick e now) ra = (Continue, ra1)" "run_out ra1 = run_out ra @ [ping]"
      "run_buffer ra1 = []" "run_events ra1 = run_events ra" "ses_remote_node_id (run_state ra1) = Some b"
      "ses_keepalive (run_state ra1) = record_ping now ?c (ses_keepalive (run_state ra))"
    using assms(1,3,10) ping(1)
    by (simp_all add: ra1_def session_step_def on_ping_tick_def build_ping_def collect_def update_run_stats_def Let_def)
  define rb1 where "rb1 = snd (session_step B tb (SocketRead now' (ReadBytes ping)) rb)"
  have b1: "session_step B tb (SocketRead now' (ReadBytes ping)) rb = (Continue, rb1)"
      "run_out rb1 = run_out rb @ [pong]"
    using assms(2,4) ping(2,3) pong(1)
    by (simp_all add: rb1_def session_step_def on_frame_def fast_header_new_def on_ping_def build_pong_def
        collect_def update_run_stats_def Let_def)
  have k: "hm_get (ses_keepalive (run_state ra1)) ?c = Some now" using a1(6) record_ping_get[OF assms(9)] by simp
  define ra2 where "ra2 = snd (session_step A ta (SocketRead now'' (ReadBytes pong)) ra1)"
  have "session_step A ta (SocketRead now'' (ReadBytes pong)) ra1 = (Continue, ra2)"
      "run_events ra2 = run_events ra @ [PongEvent b (now'' - now)]"
      "hm_get (ses_keepalive (run_state ra2)) ?c = None"
    using a1(3,4,5) pong(2,3) k
    by (simp_all add: ra2_def session_step_def on_frame_def fast_header_new_def on_pong_def process_pong_def
        emit_def update_run_stats_def Let_def)
  with a1(1,2) b1 show ?thesis by blast
qed

text \<open>
  Reconnection backs off exponentially within bounds: the wait after the \<open>k\<close>-th consecutive failure
  is \<open>2 ^ k\<close> seconds up to thirty, and no wait, whatever the sequence of
  failures and successes, is shorter than one second or longer than thirty.
\<close>

lemma reconnect_backoff:
  "(k < n \<longrightarrow> run_outbound_delays (replicate n ConnectFailed) ! k = min (2 ^ k) 30 * SECOND)
   \<and> (\<forall>d\<in>set (run_outbound_delays attempts). SECOND \<le> d \<and> d \<le> 30 * SECOND)
   \<and> length (run_outbound_delays attempts) = length attempts"
proof -
  have len: "length (reconnect_delays b attempts) = length attempts" for b
    by (induction b attempts rule: reconnect_delays.induct) auto
  have cap: "min (SECOND * 2 ^ k) (30 * SECOND) = min (2 ^ k) 30 * SECOND"
    by (simp only: nat_mult_min_left mult.commute[of SECOND])
  have b: "SECOND \<le> 30 * SECOND" by simp
  show ?thesis
    unfolding run_outbound_delays_def
    by (intro conjI impI) (rule trans[OF reconnect_delays_failures[OF _ b] cap], assumption,
      rule reconnect_delays_bounds[OF order_refl b], rule len)
qed

section \<open>Witnesses\<close>

text \<open>A session environment whose writer accepts everything.\<close>

definition ex_env :: "node_id \<Rightarrow> bytes list session_env" where
  "ex_env me =
     \<lparr>env_config = session_config_default\<lparr>sc_my_node_id := me\<rparr>, env_peer_addr = ''peer'',
      env_peer_cert = Some [7], env_message_tx = Some 3, env_crc = ex_crc, env_enc = ex_enc,
      env_dec = (\<lambda>_. None), env_update_dec = (\<lambda>_. None), env_request_dec = (\<lambda>_. None),
      env_cert_node_id = (\<lambda>_. Some 7), env_write = collect\<rparr>"

lemma ex_hello:
  obtains bs f where "frame_builder_build ex_crc ex_enc (hello_builder n) (16 * 1024 * 1024) = Ok bs" and "bs \<noteq> []"
    and "frame_decode decoder_new bs = (Ok (Some f), [])" and "fh_typ (fast f) = Hello" and "fh_src_node (fast f) = n"
proof -
  let ?b = "hello_builder n"
  have f: "fb_fast ?b = fast_header_new Hello n 0 0"
    by (simp add: hello_builder_def set_payload_def meta_insert_u32_def meta_insert_str_def frame_builder_new_def)
  have wf: "builder_wf ?b"
    unfolding hello_builder_def by (intro builder_wf_steps builder_wf_new) (simp_all add: fast_header_new_def header_wf_def)
  obtain bs where bs: "frame_builder_build ex_crc ex_enc ?b (16 * 1024 * 1024) = Ok bs"
    by (auto simp: frame_builder_build_Ok ex_enc_def frame_encode_Ok encoded_size_eq hello_builder_def
        set_payload_def meta_insert_u32_def meta_insert_str_def frame_builder_new_def hint_bytes_def)
  have "frame_decode decoder_new bs = (Ok (Some \<lparr>fast = fb_fast ?b, hint = fb_hint_tlv ?b, meta_raw = [160],
      payload_or_cipher = fb_payload ?b\<rparr>), [])"
    using built_frame_decodes[OF wf bs, of "[160]" decoder_new "[]"]
    by (simp add: ex_enc_def decoder_new_def DEFAULT_MAX_FRAME_SIZE_def MAX_META_SIZE_def)
  moreover from this have "bs \<noteq> []" by (auto simp: frame_decode_def)
  ultimately show thesis using that[OF bs] by (simp add: f fast_header_new_def)
qed

text \<open>A session with node 7 that falls silent, beside one with node 9.\<close>

theorem session_end_announced_witness:
  "\<exists>bs r. run_inbound_with_messages (ex_env 1) 0 [SocketRead 5 (ReadBytes bs), IdleTimer (31 * SECOND)] [] [(9, 4)] = (Some (Ok ()), r)
     \<and> run_events r = [Connected ''peer'' 7, Disconnected (Some 7)]
     \<and> hm_get (run_registry r) 7 = None \<and> hm_get (run_registry r) 9 = Some 4"
proof -
  obtain hello f' where mine: "frame_builder_build ex_crc ex_enc (hello_builder 1) (16 * 1024 * 1024) = Ok hello" by (rule ex_hello)
  obtain bs f where bs: "bs \<noteq> []" "frame_decode decoder_new bs = (Ok (Some f), [])" "fh_typ (fast f) = Hello" "fh_src_node (fast f) = 7"
    by (rule ex_hello[of 7])
  obtain res r where r: "run_inbound_with_messages (ex_env 1) 0 [SocketRead 5 (ReadBytes bs), IdleTimer (31 * SECOND)] [] [(9, 4)] = (res, r)"
    by (metis surj_pair)
  have run: "res = Some (Ok ())" "run_events r = [Connected ''peer'' 7, Disconnected (Some 7)]"
    using r bs mine by (auto simp: run_inbound_with_messages_def ex_env_def session_config_default_def tls_node_id_of_def
        send_hello_def collect_def session_step_def update_run_stats_def SECOND_def on_frame_def on_hello_def session_cleanup_def
        emit_def get_or_def session_state_new_def Let_def)
  have "\<exists>es. [Connected ''peer'' 7, Disconnected (Some 7)] = es @ [Disconnected (last_connected es)]
      \<and> (\<forall>m. hm_get (run_registry r) m = (if last_connected es = Some m then None
           else if m \<in> set (connected_nodes es) \<and> env_message_tx (ex_env 1) \<noteq> None then env_message_tx (ex_env 1)
           else hm_get [(9, 4)] m))"
    using session_end_announced[OF r] run by auto
  then obtain es where e: "[Connected ''peer'' 7, Disconnected (Some 7)] = es @ [Disconnected (last_connected es)]"
    and reg: "\<forall>m. hm_get (run_registry r) m = (if last_connected es = Some m then None
           else if m \<in> set (connected_nodes es) \<and> env_message_tx (ex_env 1) \<noteq> None then env_message_tx (ex_env 1)
           else hm_get [(9, 4)] m)" by blast
  have "butlast [Connected ''peer'' 7, Disconnected (Some 7)] = es" unfolding e by simp
  then have es: "es = [Connected ''peer'' 7]" by simp
  have "connected_nodes es = [7]" using es connected_nodes_simps(2)[of "[]" "Connected ''peer'' 7"] by simp
  then have "hm_get (run_registry r) 7 = None" "hm_get (run_registry r) 9 = Some 4"
    using reg by (simp_all add: last_connected_def hm_get_Cons)
  with r run show ?thesis by blast
qed

theorem ping_pong_exchange_witness:
  "\<exists>ping pong ra1 rb1 ra2.
      session_step (ex_env 1) None (PingTick 5 100) (initial_run 0 [] []\<lparr>run_state :=
        session_state_new\<lparr>ses_remote_node_id := Some 2\<rparr>\<rparr>) = (Continue, ra1)
    \<and> session_step (ex_env 2) None (SocketRead 120 (ReadBytes ping)) (initial_run 0 [] []) = (Continue, rb1)
    \<and> run_out rb1 = [pong]
    \<and> session_step (ex_env 1) None (SocketRead 150 (ReadBytes pong)) ra1 = (Continue, ra2)
    \<and> run_events ra2 = [PongEvent 2 50]"
proof -
  let ?ra = "initial_run 0 [] []\<lparr>run_state := session_state_new\<lparr>ses_remote_node_id := Some 2\<rparr>\<rparr>"
  have env: "env_write (ex_env n) = collect" "env_enc (ex_env n) v = Some [160]" for n v
    by (simp_all add: ex_env_def ex_enc_def)
  have start: "run_buffer ?ra = []" "run_buffer (initial_run 0 [] [] :: bytes list session_run) = []"
    "length [160 :: 8 word] \<le> MAX_META_SIZE" "hm_wf (ses_keepalive (run_state ?ra))"
    "ses_remote_node_id (run_state ?ra) = Some 2" "run_events ?ra = []"
    "run_out (initial_run 0 [] [] :: bytes list session_run) = []"
    by (simp_all add: initial_run_def session_state_new_def MAX_META_SIZE_def)
  have "(150 - 100 :: nat) = 50" by simp
  with ping_pong_exchange[OF env(1) env(1) start(1,2) env(2) start(3) env(2) start(3,4,5),
      where ta = None and e = 5 and now = 100 and tb = None and now' = 120 and now'' = 150]
  show ?thesis unfolding start(6,7) append_Nil by metis
qed

section \<open>Deviations\<close>

text \<open>
  Reading comes before decoding: a complete frame that is already in the buffer is not returned until more
  bytes arrive, and is lost when the stream ends instead.
\<close>

lemma buffered_frame_lost:
  assumes "frame_decode decoder_new buffer = (Ok (Some f), rest)"
  shows "recv_any_frame decoder_new buffer [] = (Waiting, buffer)
    \<and> recv_any_frame decoder_new buffer [ReadBytes []] = (RecvFailed SeEof, buffer)"
  by simp

text \<open>Data frames are counted twice: once for every frame and once more in their own arm.\<close>

lemma data_frame_counted_twice:
  assumes "fh_typ (fast f) = Data"
  shows "st_frames_received (ses_stats (run_state (snd (on_frame env t now f r)))) =
    st_frames_received (ses_stats (run_state r)) + 2"
  using assms by (simp add: on_frame_def on_data_def update_run_stats_def emit_def count_received_def Let_def)

text \<open>
  A \<open>HELLO\<close> under another name, after one under the right name, ends the session without any clean-up: the channel stays
  registered and no end is announced.
\<close>

lemma refused_hello_leaves_channel:
  assumes "sc_verify_node_id (env_config env)" and "fh_typ (fast f) = Hello" and "fh_src_node (fast f) \<noteq> t"
    and "frame_decode decoder_new (run_buffer r @ bs) = (Ok (Some f), [])" and "bs \<noteq> []"
    and "hm_get (run_registry r) t = Some c"
  shows "\<exists>r'. session_loop env (Some t) [SocketRead now (ReadBytes bs)] r = (Some (Err SeNodeIdMismatch), r')
    \<and> hm_get (run_registry r') t = Some c \<and> run_events r' = run_events r"
  using assms by (simp add: session_step_def on_frame_def on_hello_def update_run_stats_def Let_def)

text \<open>
  Without a certificate a second \<open>HELLO\<close> under another name registers the same channel again; the
  end of the session removes the second name only.
\<close>

lemma second_hello_leaves_channel:
  assumes "env_message_tx env = Some c" and "fh_src_node (fast f) = a" and "fh_src_node (fast g) = b" and "a \<noteq> b"
  shows "hm_get (run_registry (session_cleanup (snd (on_hello env None g (snd (on_hello env None f r)))))) a = Some c"
  using assms by (simp add: on_hello_def session_cleanup_def emit_def Let_def)

end
