(* ===== verification/Manager.thy ===== *)
theory Manager
  imports Session_Ops
begin

text \<open>
  The session manager: \<open>mesh-session/src/manager.rs\<close>. It owns the table of sessions, asks the
  routing table about every message and puts it on the channel of the next hop or hands it to the local node.
  Channels are the queues of what was sent on them; a channel whose receiver is gone is absent, and a
  send on it fails. An optional sender of the code is an optional list of what was sent.
\<close>

section \<open>State\<close>

record session_info =
  si_remote_node_id :: node_id
  si_remote_addr :: string
  si_message_tx :: channel

record routing_feedback =
  rf_msg_id :: u64
  rf_decision :: routing_decision
  rf_message :: string

record session_manager =
  sm_local_node_id :: node_id
  sm_routing_table :: routing_table
  sm_sessions :: "(node_id, session_info) hmap"
  sm_outbound_set :: bool
  sm_topology_update_set :: bool
  sm_delivery :: "inbound_message list option"
  sm_received_topology :: "topology_update list option"
  sm_routing_feedback :: "routing_feedback list option"
  sm_channels :: "(channel, outbound_message list) hmap"
  sm_registry :: "(node_id, channel) hmap"

definition session_manager_new :: "node_id \<Rightarrow> routing_table \<Rightarrow> session_manager" where
  "session_manager_new local_node_id routing_table =
     \<lparr>sm_local_node_id = local_node_id, sm_routing_table = routing_table, sm_sessions = [],
      sm_outbound_set = False, sm_topology_update_set = False, sm_delivery = None, sm_received_topology = None,
      sm_routing_feedback = None, sm_channels = [], sm_registry = []\<rparr>"

definition set_outbound_receiver :: "session_manager \<Rightarrow> session_manager" where
  "set_outbound_receiver m = m\<lparr>sm_outbound_set := True\<rparr>"

definition set_topology_update_receiver :: "session_manager \<Rightarrow> session_manager" where
  "set_topology_update_receiver m = m\<lparr>sm_topology_update_set := True\<rparr>"

definition set_delivery_sender :: "session_manager \<Rightarrow> session_manager" where
  "set_delivery_sender m = m\<lparr>sm_delivery := Some []\<rparr>"

definition set_received_topology_sender :: "session_manager \<Rightarrow> session_manager" where
  "set_received_topology_sender m = m\<lparr>sm_received_topology := Some []\<rparr>"

definition set_routing_feedback_sender :: "session_manager \<Rightarrow> session_manager" where
  "set_routing_feedback_sender m = m\<lparr>sm_routing_feedback := Some []\<rparr>"

text \<open>\<open>UnboundedSender::send\<close>: whether there is a receiver, and the channels afterwards.\<close>

definition channel_send :: "channel \<Rightarrow> outbound_message \<Rightarrow> (channel, outbound_message list) hmap
    \<Rightarrow> bool \<times> (channel, outbound_message list) hmap" where
  "channel_send c message channels =
     (case hm_get channels c of
        Some queue \<Rightarrow> (True, hm_insert c (queue @ [message]) channels)
      | None \<Rightarrow> (False, channels))"

text \<open>Decimal numbers in messages.\<close>

fun string_of_nat :: "nat \<Rightarrow> string" where
  "string_of_nat n =
     (if n < 10 then [char_of (48 + n)] else string_of_nat (n div 10) @ [char_of (48 + n mod 10)])"

declare string_of_nat.simps [simp del]

section \<open>Messages\<close>

definition inbound_of :: "outbound_message \<Rightarrow> inbound_message" where
  "inbound_of message =
     \<lparr>im_src_node = om_src_node message, im_dst_node = om_dst_node message, im_payload = om_payload message,
      im_headers = om_headers message, im_corr_id = om_corr_id message, im_msg_id = om_msg_id message,
      im_require_ack = om_require_ack message\<rparr>"

definition outbound_of :: "inbound_message \<Rightarrow> outbound_message" where
  "outbound_of message =
     \<lparr>om_src_node = im_src_node message, om_dst_node = im_dst_node message, om_payload = im_payload message,
      om_headers = im_headers message, om_corr_id = im_corr_id message, om_msg_id = im_msg_id message,
      om_require_ack = im_require_ack message\<rparr>"

definition deliver_locally :: "inbound_message \<Rightarrow> session_manager \<Rightarrow> session_manager" where
  "deliver_locally message m = m\<lparr>sm_delivery := map_option (\<lambda>ds. ds @ [message]) (sm_delivery m)\<rparr>"

definition feedback_message :: "routing_decision \<Rightarrow> string" where
  "feedback_message decision =
     (case decision of
        Forward ecmp \<Rightarrow> ''Message forwarded to next hop node '' @ string_of_nat (unat (nh_node_id (ed_next_hop ecmp)))
      | Local \<Rightarrow> ''Message delivered locally''
      | Drop reason \<Rightarrow> ''Message dropped: '' @ drop_reason_to_string reason)"

definition send_routing_feedback :: "u64 \<Rightarrow> routing_decision \<Rightarrow> session_manager \<Rightarrow> session_manager" where
  "send_routing_feedback msg_id decision m =
     m\<lparr>sm_routing_feedback := map_option (\<lambda>fs. fs @ [\<lparr>rf_msg_id = msg_id, rf_decision = decision,
        rf_message = feedback_message decision\<rparr>]) (sm_routing_feedback m)\<rparr>"

text \<open>Every path of the function returns \<open>Ok(())\<close>.\<close>

definition handle_outbound_message :: "(u64 list \<Rightarrow> u64) \<Rightarrow> outbound_message \<Rightarrow> session_manager \<Rightarrow> session_manager" where
  "handle_outbound_message hash message m =
     (if om_dst_node message = sm_local_node_id m then deliver_locally (inbound_of message) m
      else let ctx = \<lparr>rc_src_node = sm_local_node_id m, rc_dst_node = om_dst_node message, rc_ttl = 64,
                      rc_corr_id = om_corr_id message, rc_route_class = 0, rc_partition = 0, rc_epoch = 0\<rparr>;
               (decision, table) = decide hash (sm_routing_table m) ctx;
               m = m\<lparr>sm_routing_table := table\<rparr>;
               m = (case om_msg_id message of
                      Some msg_id \<Rightarrow> send_routing_feedback msg_id decision m | None \<Rightarrow> m)
           in case decision of
                Forward ecmp_decision \<Rightarrow>
                  (case hm_get (sm_sessions m) (nh_node_id (ed_next_hop ecmp_decision)) of
                     Some info \<Rightarrow> m\<lparr>sm_channels := snd (channel_send (si_message_tx info) message (sm_channels m))\<rparr>
                   | None \<Rightarrow> m)
              | Local \<Rightarrow> deliver_locally (inbound_of message) m
              | Drop reason \<Rightarrow> m)"

section \<open>Session events\<close>

definition handle_session_event :: "(u64 list \<Rightarrow> u64) \<Rightarrow> session_event \<Rightarrow> session_manager \<Rightarrow> session_manager" where
  "handle_session_event hash event m =
     (case event of
        Connected peer remote_node_id \<Rightarrow>
          (case hm_get (sm_registry m) remote_node_id of
             Some message_tx \<Rightarrow>
               m\<lparr>sm_sessions := hm_insert remote_node_id
                  \<lparr>si_remote_node_id = remote_node_id, si_remote_addr = peer, si_message_tx = message_tx\<rparr>
                  (sm_sessions m)\<rparr>
           | None \<Rightarrow> m)
      | Disconnected remote_node_id \<Rightarrow>
          (case remote_node_id of
             Some node_id \<Rightarrow> m\<lparr>sm_sessions := hm_remove node_id (sm_sessions m)\<rparr> | None \<Rightarrow> m)
      | PongEvent remote_node_id rtt \<Rightarrow> m
      | MessageReceived message \<Rightarrow>
          if im_dst_node message = sm_local_node_id m then deliver_locally message m
          else handle_outbound_message hash (outbound_of message) m
      | TopologyUpdateEvent update \<Rightarrow>
          m\<lparr>sm_received_topology := map_option (\<lambda>us. us @ [update]) (sm_received_topology m)\<rparr>
      | TopologyRequestEvent request \<Rightarrow> m)"

section \<open>Broadcasting topology updates\<close>

definition topology_message :: "node_id \<Rightarrow> node_id \<Rightarrow> bytes \<Rightarrow> outbound_message" where
  "topology_message local_node_id node_id payload =
     \<lparr>om_src_node = local_node_id, om_dst_node = node_id, om_payload = payload,
      om_headers = hm_insert ''frame_type'' (str_bytes ''topology_update'') [],
      om_corr_id = TOPOLOGY_CORR_ID, om_msg_id = None, om_require_ack = False\<rparr>"

fun broadcast_loop :: "node_id \<Rightarrow> bytes \<Rightarrow> (node_id \<times> session_info) list
    \<Rightarrow> (channel, outbound_message list) hmap \<Rightarrow> (channel, outbound_message list) hmap" where
  "broadcast_loop local_node_id payload [] channels = channels"
| "broadcast_loop local_node_id payload ((node_id, info) # sessions) channels =
     broadcast_loop local_node_id payload sessions
       (snd (channel_send (si_message_tx info) (topology_message local_node_id node_id payload) channels))"

datatype manager_error = TopologySerialize | OutboundNotSet

definition broadcast_topology_update :: "(topology_update \<Rightarrow> bytes option) \<Rightarrow> topology_update \<Rightarrow> session_manager
    \<Rightarrow> (manager_error, unit) outcome \<times> session_manager" where
  "broadcast_topology_update update_enc update m =
     (if sm_sessions m = [] then (Ok (), m)
      else case update_enc update of
             Some payload \<Rightarrow>
               (Ok (), m\<lparr>sm_channels := broadcast_loop (sm_local_node_id m) payload (sm_sessions m) (sm_channels m)\<rparr>)
           | None \<Rightarrow> (Err TopologySerialize, m))"

section \<open>Registration\<close>

definition register_session :: "node_id \<Rightarrow> string \<Rightarrow> channel \<Rightarrow> session_manager \<Rightarrow> session_manager" where
  "register_session remote_node_id remote_addr message_tx m =
     m\<lparr>sm_sessions := hm_insert remote_node_id
        \<lparr>si_remote_node_id = remote_node_id, si_remote_addr = remote_addr, si_message_tx = message_tx\<rparr>
        (sm_sessions m)\<rparr>"

definition get_sessions :: "session_manager \<Rightarrow> (node_id, session_info) hmap" where
  "get_sessions m = sm_sessions m"

definition register_session_with_registry :: "node_id \<Rightarrow> string \<Rightarrow> channel
    \<Rightarrow> (node_id, session_info) hmap \<Rightarrow> (node_id, session_info) hmap" where
  "register_session_with_registry remote_node_id remote_addr message_tx sessions =
     hm_insert remote_node_id
       \<lparr>si_remote_node_id = remote_node_id, si_remote_addr = remote_addr, si_message_tx = message_tx\<rparr> sessions"

definition unregister_session_with_registry :: "node_id \<Rightarrow> (node_id, session_info) hmap
    \<Rightarrow> (node_id, session_info) hmap" where
  "unregister_session_with_registry remote_node_id sessions = hm_remove remote_node_id sessions"

definition register_global_session_channel :: "node_id \<Rightarrow> channel \<Rightarrow> (node_id, channel) hmap
    \<Rightarrow> (node_id, channel) hmap" where
  "register_global_session_channel node_id message_tx registry = hm_insert node_id message_tx registry"

definition unregister_global_session_channel :: "node_id \<Rightarrow> (node_id, channel) hmap \<Rightarrow> (node_id, channel) hmap" where
  "unregister_global_session_channel node_id registry = hm_remove node_id registry"

definition get_global_session_channel :: "node_id \<Rightarrow> (node_id, channel) hmap \<Rightarrow> channel option" where
  "get_global_session_channel node_id registry = hm_get registry node_id"

section \<open>The main loop\<close>

text \<open>
  The arms of the \<open>select!\<close>. An error of an arm is logged and the loop goes on; without a receiver for
  topology updates their arm is never taken.
\<close>

datatype manager_input = FromGrpc outbound_message | FromSession session_event | FromTopology topology_update

definition manager_step :: "(u64 list \<Rightarrow> u64) \<Rightarrow> (topology_update \<Rightarrow> bytes option) \<Rightarrow> manager_input
    \<Rightarrow> session_manager \<Rightarrow> session_manager" where
  "manager_step hash update_enc i m =
     (case i of
        FromGrpc message \<Rightarrow> handle_outbound_message hash message m
      | FromSession event \<Rightarrow> handle_session_event hash event m
      | FromTopology update \<Rightarrow>
          if sm_topology_update_set m then snd (broadcast_topology_update update_enc update m) else m)"

definition manager_run :: "(u64 list \<Rightarrow> u64) \<Rightarrow> (topology_update \<Rightarrow> bytes option) \<Rightarrow> manager_input list
    \<Rightarrow> session_manager \<Rightarrow> (manager_error, unit) outcome \<times> session_manager" where
  "manager_run hash update_enc inputs m =
     (if \<not> sm_outbound_set m then (Err OutboundNotSet, m)
      else (Ok (), fold (manager_step hash update_enc) inputs m))"

section \<open>Lemmas\<close>

lemma outbound_of_inbound_of [simp]: "outbound_of (inbound_of m) = m" "inbound_of (outbound_of i) = i"
  by (simp_all add: outbound_of_def inbound_of_def)

lemma channel_send_get:
  "hm_get (snd (channel_send c m chs)) c' =
     (if c' = c then map_option (\<lambda>q. q @ [m]) (hm_get chs c) else hm_get chs c')"
  by (simp add: channel_send_def split: option.split)

lemma send_routing_feedback_fields [simp]:
  "sm_local_node_id (send_routing_feedback i d m) = sm_local_node_id m"
  "sm_routing_table (send_routing_feedback i d m) = sm_routing_table m"
  "sm_sessions (send_routing_feedback i d m) = sm_sessions m"
  "sm_delivery (send_routing_feedback i d m) = sm_delivery m"
  "sm_received_topology (send_routing_feedback i d m) = sm_received_topology m"
  "sm_channels (send_routing_feedback i d m) = sm_channels m"
  "sm_registry (send_routing_feedback i d m) = sm_registry m"
  by (simp_all add: send_routing_feedback_def)

lemma handle_outbound_local:
  "om_dst_node msg = sm_local_node_id m \<Longrightarrow> handle_outbound_message hash msg m = deliver_locally (inbound_of msg) m"
  by (simp add: handle_outbound_message_def)

lemma handle_outbound_forward:
  assumes "om_dst_node msg \<noteq> sm_local_node_id m"
    and "fst (decide hash (sm_routing_table m)
      \<lparr>rc_src_node = sm_local_node_id m, rc_dst_node = om_dst_node msg, rc_ttl = 64,
       rc_corr_id = om_corr_id msg, rc_route_class = 0, rc_partition = 0, rc_epoch = 0\<rparr>) = Forward d"
    and "hm_get (sm_sessions m) (nh_node_id (ed_next_hop d)) = Some info"
  shows "sm_channels (handle_outbound_message hash msg m) = snd (channel_send (si_message_tx info) msg (sm_channels m))"
    and "sm_delivery (handle_outbound_message hash msg m) = sm_delivery m"
    and "sm_sessions (handle_outbound_message hash msg m) = sm_sessions m"
  using assms
  by (auto simp: handle_outbound_message_def Let_def split: prod.splits option.splits)

lemma broadcast_loop_get:
  assumes "distinct (map (si_message_tx \<circ> snd) sessions)"
  shows "hm_get (broadcast_loop n payload sessions chs) c =
    (case find (\<lambda>(v, info). si_message_tx info = c) sessions of
       Some (v, info) \<Rightarrow> map_option (\<lambda>q. q @ [topology_message n v payload]) (hm_get chs c)
     | None \<Rightarrow> hm_get chs c)"
  using assms
proof (induction n payload sessions chs rule: broadcast_loop.induct)
  case (2 n payload v info sessions chs)
  show ?case
  proof (cases "si_message_tx info = c")
    case True
    then have "find (\<lambda>(v, info). si_message_tx info = c) sessions = None"
      using 2(2) by (force simp: find_None_iff)
    with True 2 show ?thesis by (simp add: channel_send_get)
  next
    case False
    with 2 show ?thesis by (auto simp: channel_send_get split: option.splits)
  qed
qed simp

lemma topology_message_frame:
  assumes "build_data_frame crc enc me (topology_message n v payload) = Ok bs"
  obtains f where "frame_decode decoder_new (bs @ rest) = (Ok (Some f), rest)"
    and "fh_typ (fast f) = TopologyUpdate" and "payload_or_cipher f = payload"
proof -
  let ?b = "message_builder (topology_message n v payload)"
  have b: "fb_fast ?b = (fast_header_new TopologyUpdate n v 0)\<lparr>fh_corr_id := TOPOLOGY_CORR_ID\<rparr>"
      "fb_payload ?b = payload" "fb_hint_tlv ?b = None"
    by (simp_all add: has_frame_type_def) (simp_all add: topology_message_def hm_get_Cons)
  have wf: "builder_wf ?b" by (rule message_builder_wf) (simp add: topology_message_def hm_wf_def)
  from assms obtain raw where raw: "enc (meta_value (built_meta crc ?b)) = Some raw"
      and fe: "frame_encode \<lparr>fast = fb_fast ?b, hint = fb_hint_tlv ?b, meta_raw = raw, payload_or_cipher = fb_payload ?b\<rparr> 65536 = Ok bs"
    by (auto simp: build_data_frame_def frame_builder_build_Ok)
  then have "length raw \<le> MAX_META_SIZE"
    by (simp add: frame_encode_Ok encoded_size_eq MAX_META_SIZE_def)
  from built_frame_decodes[OF wf assms[unfolded build_data_frame_def] raw this, of decoder_new rest]
  have "frame_decode decoder_new (bs @ rest) = (Ok (Some \<lparr>fast = fb_fast ?b, hint = fb_hint_tlv ?b,
      meta_raw = raw, payload_or_cipher = fb_payload ?b\<rparr>), rest)"
    by (simp add: decoder_new_def DEFAULT_MAX_FRAME_SIZE_def)
  then show thesis by (rule that) (simp_all only: b frame.simps, simp add: fast_header_new_def)
qed

section \<open>Properties\<close>

text \<open>
  C27: A topology update that a node floods reaches the manager of every neighbour. Broadcasting puts
  one message on the channel of every session; the frame a session writes for it makes the session at the other
  end announce the very update, and the manager there passes it on to its topology database. The
  channels of no other sessions change.
\<close>

theorem broadcast_reaches_neighbours:
  assumes "update_enc u = Some payload" and "update_dec payload = Some u"
    and "distinct (map (si_message_tx \<circ> snd) (sm_sessions m))" and "(v, info) \<in> set (sm_sessions m)"
    and "hm_get (sm_channels m) (si_message_tx info) = Some queue"
    and "build_data_frame crc enc me (topology_message (sm_local_node_id m) v payload) = Ok bs"
    and "env_update_dec env = update_dec" and "run_buffer r = []"
    and "sm_received_topology m' = Some us"
  shows "\<exists>chs r'.
      broadcast_topology_update update_enc u m = (Ok (), m\<lparr>sm_channels := chs\<rparr>)
    \<and> hm_get chs (si_message_tx info) = Some (queue @ [topology_message (sm_local_node_id m) v payload])
    \<and> (\<forall>c. c \<notin> set (map (si_message_tx \<circ> snd) (sm_sessions m)) \<longrightarrow> hm_get chs c = hm_get (sm_channels m) c)
    \<and> session_step env t (SocketRead now (ReadBytes bs)) r = (Continue, r')
    \<and> run_events r' = run_events r @ [TopologyUpdateEvent u]
    \<and> sm_received_topology (handle_session_event hash (TopologyUpdateEvent u) m') = Some (us @ [u])"
proof -
  let ?n = "sm_local_node_id m" and ?chs = "broadcast_loop (sm_local_node_id m) payload (sm_sessions m) (sm_channels m)"
  obtain v' info' where f: "find (\<lambda>(w, i). si_message_tx i = si_message_tx info) (sm_sessions m) = Some (v', info')"
    using assms(4) by (cases "find (\<lambda>(w, i). si_message_tx i = si_message_tx info) (sm_sessions m)")
      (auto simp: find_None_iff)
  then have "(v', info') \<in> set (sm_sessions m)" "si_message_tx info' = si_message_tx info"
    by (auto simp: find_Some_iff in_set_conv_nth)
  then have "(v', info') = (v, info)"
    using assms(3,4) by (auto simp: distinct_map inj_on_def) (metis snd_conv prod.inject)+
  with f have chs: "hm_get ?chs (si_message_tx info) = Some (queue @ [topology_message ?n v payload])"
    using broadcast_loop_get[OF assms(3), of ?n payload "sm_channels m" "si_message_tx info"] assms(5) by simp
  have other: "hm_get ?chs c = hm_get (sm_channels m) c"
    if "c \<notin> set (map (si_message_tx \<circ> snd) (sm_sessions m))" for c
  proof -
    have "find (\<lambda>(w, i). si_message_tx i = c) (sm_sessions m) = None"
      using that by (force simp: find_None_iff)
    then show ?thesis using broadcast_loop_get[OF assms(3), of ?n payload "sm_channels m" c] by simp
  qed
  obtain f where f: "frame_decode decoder_new (bs @ []) = (Ok (Some f), [])"
      "fh_typ (fast f) = TopologyUpdate" "payload_or_cipher f = payload"
    by (rule topology_message_frame[OF assms(6)])
  then have "bs \<noteq> []" by (auto simp: frame_decode_def)
  define r' where "r' = snd (session_step env t (SocketRead now (ReadBytes bs)) r)"
  have "session_step env t (SocketRead now (ReadBytes bs)) r = (Continue, r')"
    "run_events r' = run_events r @ [TopologyUpdateEvent u]"
    using f \<open>bs \<noteq> []\<close> assms(2,7,8)
    by (simp_all add: r'_def session_step_def on_frame_def on_topology_update_def update_run_stats_def emit_def Let_def)
  moreover have "broadcast_topology_update update_enc u m = (Ok (), m\<lparr>sm_channels := ?chs\<rparr>)"
    using assms(1,4) by (auto simp: broadcast_topology_update_def)
  ultimately show ?thesis
    using chs other assms(9) by (intro exI[of _ ?chs] exI[of _ r']) (simp add: handle_session_event_def)
qed

theorem broadcast_reaches_neighbours_witness:
  "\<exists>chs r' bs. broadcast_topology_update (\<lambda>_. Some [1]) (topology_update_new 0 1 4 [] 8)
        (register_session 2 ''b'' 5 (session_manager_new 1 (routing_table_new 1))\<lparr>sm_channels := [(5, [])]\<rparr>) =
      (Ok (), register_session 2 ''b'' 5 (session_manager_new 1 (routing_table_new 1))\<lparr>sm_channels := chs\<rparr>)
    \<and> session_step ((ex_env 2)\<lparr>env_update_dec := \<lambda>_. Some (topology_update_new 0 1 4 [] 8)\<rparr>) None
        (SocketRead 9 (ReadBytes bs)) (initial_run 0 [] []) = (Continue, r')
    \<and> run_events r' = [TopologyUpdateEvent (topology_update_new 0 1 4 [] 8)]"
proof -
  let ?u = "topology_update_new 0 1 4 [] 8"
  let ?m = "register_session 2 ''b'' 5 (session_manager_new 1 (routing_table_new 1))\<lparr>sm_channels := [(5, [])]\<rparr>"
  let ?info = "\<lparr>si_remote_node_id = 2, si_remote_addr = ''b'', si_message_tx = 5\<rparr>"
  let ?env = "(ex_env 2)\<lparr>env_update_dec := \<lambda>_. Some ?u\<rparr>"
  obtain bs where bs: "build_data_frame ex_crc ex_enc 1 (topology_message (sm_local_node_id ?m) 2 [1]) = Ok bs"
    by (auto simp: build_data_frame_def frame_builder_build_Ok ex_enc_def frame_encode_Ok encoded_size_eq
        hint_bytes_def topology_message_def)
  have m: "sm_sessions ?m = [(2, ?info)]" "hm_get (sm_channels ?m) (si_message_tx ?info) = Some []"
    by (simp_all add: register_session_def session_manager_new_def hm_get_Cons)
  have r: "run_buffer (initial_run 0 [] [] :: bytes list session_run) = []"
    "run_events (initial_run 0 [] [] :: bytes list session_run) = []" by (simp_all add: initial_run_def)
  have "sm_received_topology (set_received_topology_sender ?m) = Some []"
    by (simp add: set_received_topology_sender_def)
  with broadcast_reaches_neighbours[where update_enc = "\<lambda>_. Some [1]" and update_dec = "\<lambda>_. Some ?u" and u = ?u
      and m = ?m and v = 2 and info = ?info and env = ?env and r = "initial_run 0 [] []" and t = None and now = 9
      and hash = "\<lambda>_. 0", OF refl refl _ _ m(2) bs _ r(1)]
  show ?thesis unfolding m(1) r(2) by fastforce
qed

section \<open>Deviations\<close>

text \<open>
  The registry and the table of sessions know a node, not a connection: when a node has reconnected
  before its old session ends, the end of the old session removes the channel and the entry of the new one.
\<close>

lemma stale_disconnect_removes_session:
  assumes "hm_get (sm_sessions m) v = Some new_info"
  shows "hm_get (sm_sessions (handle_session_event hash (Disconnected (Some v)) m)) v = None
    \<and> get_global_session_channel v (unregister_global_session_channel v (sm_registry m)) = None"
  by (simp add: handle_session_event_def get_global_session_channel_def unregister_global_session_channel_def)

text \<open>Every hop decides with a fresh hop limit of 64: no message is ever dropped for its age.\<close>

lemma relayed_hop_limit_never_expires:
  "fst (decide hash t \<lparr>rc_src_node = s, rc_dst_node = d, rc_ttl = 64, rc_corr_id = c, rc_route_class = 0,
     rc_partition = 0, rc_epoch = 0\<rparr>) \<noteq> Drop TtlExpired"
  by (simp add: decide_def is_ttl_expired_def Let_def split: option.split)

end
