(* ===== verification/Network.thy ===== *)
theory Network
  imports Manager
begin

text \<open>
  A network of nodes: what becomes of a message that one of them sends, as the managers, the
  sessions, the wire format and the routes of the topology databases work together. A node is its manager;
  a message that a manager has put on the channel of a session is written as a frame by that session, decoded by the session at the
  other end and handed to the manager there.
\<close>

section \<open>Carrying a message\<close>

definition queue_of :: "session_manager \<Rightarrow> channel \<Rightarrow> outbound_message list" where
  "queue_of m c = get_or [] (hm_get (sm_channels m) c)"

text \<open>What a step of a manager has handed to the local node, and what it has put on a channel, for whom.\<close>

definition handed_over :: "session_manager \<Rightarrow> session_manager \<Rightarrow> inbound_message option" where
  "handed_over m m' =
     (case (sm_delivery m, sm_delivery m') of
        (Some ds, Some ds') \<Rightarrow> if length ds < length ds' then Some (last ds') else None
      | _ \<Rightarrow> None)"

definition queued_on :: "session_manager \<Rightarrow> session_manager \<Rightarrow> (node_id \<times> outbound_message) option" where
  "queued_on m m' =
     map_option (\<lambda>(v, info). (v, last (queue_of m' (si_message_tx info))))
       (find (\<lambda>(v, info). length (queue_of m (si_message_tx info)) < length (queue_of m' (si_message_tx info)))
         (sm_sessions m))"

text \<open>
  A link: the session of \<open>me\<close> takes the message from its channel and writes a frame, the session at the other
  end reads it and announces a message.
\<close>

definition link_env :: "(bytes \<Rightarrow> u32) \<Rightarrow> (cbor_value \<Rightarrow> bytes option) \<Rightarrow> (bytes \<Rightarrow> cbor_value option)
    \<Rightarrow> node_id \<Rightarrow> bytes list session_env" where
  "link_env crc enc dec me =
     \<lparr>env_config = session_config_default\<lparr>sc_my_node_id := me\<rparr>, env_peer_addr = [], env_peer_cert = None,
      env_message_tx = None, env_crc = crc, env_enc = enc, env_dec = dec, env_update_dec = (\<lambda>_. None),
      env_request_dec = (\<lambda>_. None), env_cert_node_id = (\<lambda>_. None), env_write = collect\<rparr>"

definition transfer :: "(bytes \<Rightarrow> u32) \<Rightarrow> (cbor_value \<Rightarrow> bytes option) \<Rightarrow> (bytes \<Rightarrow> cbor_value option)
    \<Rightarrow> node_id \<Rightarrow> node_id \<Rightarrow> outbound_message \<Rightarrow> inbound_message option" where
  "transfer crc enc dec me peer message =
     (case session_step (link_env crc enc dec me) None (OutboundReady 0 message) (initial_run 0 [] []) of
        (Continue, r) \<Rightarrow>
          (case session_step (link_env crc enc dec peer) None (SocketRead 0 (ReadBytes (concat (run_out r))))
                  (initial_run 0 [] []) of
             (Continue, r') \<Rightarrow> (case run_events r' of [MessageReceived i] \<Rightarrow> Some i | _ \<Rightarrow> None)
           | _ \<Rightarrow> None)
      | _ \<Rightarrow> None)"

text \<open>Where a message ends up, within a number of hops, when node \<open>s\<close> has gone from \<open>M s\<close> to \<open>m'\<close>.\<close>

fun carry :: "(u64 list \<Rightarrow> u64) \<Rightarrow> (bytes \<Rightarrow> u32) \<Rightarrow> (cbor_value \<Rightarrow> bytes option) \<Rightarrow> (bytes \<Rightarrow> cbor_value option)
    \<Rightarrow> (node_id \<Rightarrow> session_manager) \<Rightarrow> nat \<Rightarrow> node_id \<Rightarrow> session_manager \<Rightarrow> (node_id \<times> inbound_message) option" where
  "carry hash crc enc dec M 0 s m' = map_option (Pair s) (handed_over (M s) m')"
| "carry hash crc enc dec M (Suc k) s m' =
     (case handed_over (M s) m' of
        Some i \<Rightarrow> Some (s, i)
      | None \<Rightarrow>
          Option.bind (queued_on (M s) m') (\<lambda>(v, message).
          Option.bind (transfer crc enc dec s v message) (\<lambda>i.
          carry hash crc enc dec M k v (handle_session_event hash (MessageReceived i) (M v)))))"

definition mesh_send :: "(u64 list \<Rightarrow> u64) \<Rightarrow> (bytes \<Rightarrow> u32) \<Rightarrow> (cbor_value \<Rightarrow> bytes option)
    \<Rightarrow> (bytes \<Rightarrow> cbor_value option) \<Rightarrow> (node_id \<Rightarrow> session_manager) \<Rightarrow> nat \<Rightarrow> node_id \<Rightarrow> outbound_message
    \<Rightarrow> (node_id \<times> inbound_message) option" where
  "mesh_send hash crc enc dec M k s message =
     carry hash crc enc dec M k s (handle_outbound_message hash message (M s))"

section \<open>A network at rest\<close>

text \<open>
  Every node routes by its topology database, takes deliveries, and has a session with an
  open channel of its own for each of its links.
\<close>

definition node_ready :: "lsdb \<Rightarrow> topology_database \<Rightarrow> node_id \<Rightarrow> session_manager \<Rightarrow> bool" where
  "node_ready N db v m \<longleftrightarrow>
     sm_local_node_id m = v
     \<and> rt_local_node_id (sm_routing_table m) = v
     \<and> (\<forall>dst. dst \<noteq> v \<longrightarrow> table_get_route (sm_routing_table m) dst =
          map_option (\<lambda>cr. single (next_hop_new (cr_next_hop cr) (cr_total_cost cr))) (get_route db dst))
     \<and> sm_delivery m \<noteq> None
     \<and> hm_wf (sm_sessions m) \<and> distinct (map (si_message_tx \<circ> snd) (sm_sessions m))
     \<and> (\<forall>u w. edge N v u w \<longrightarrow>
          (case hm_get (sm_sessions m) u of
             Some info \<Rightarrow> hm_contains (sm_channels m) (si_message_tx info) | None \<Rightarrow> False))"

definition mesh_ready :: "node_id set \<Rightarrow> lsdb \<Rightarrow> (node_id \<Rightarrow> topology_database) \<Rightarrow> (node_id \<Rightarrow> session_manager) \<Rightarrow> bool" where
  "mesh_ready V N D M \<longleftrightarrow> converged V N D \<and> positive_costs N \<and> (\<forall>v\<in>V. node_ready N (D v) v (M v))"

section \<open>Lemmas\<close>

lemma same_message_ok: "message_ok m \<Longrightarrow> same_message m i \<Longrightarrow> message_ok (outbound_of i)"
  by (simp add: message_ok_def same_message_def outbound_of_def)

lemma build_data_frame_same:
  assumes "message_ok m" and "same_message m i"
  shows "build_data_frame crc enc me (outbound_of i) = build_data_frame crc enc me' m"
proof -
  have ok: "message_ok (outbound_of i)" by (rule same_message_ok[OF assms])
  have wf: "bt_wf (fb_meta (message_builder m))" "bt_wf (fb_meta (message_builder (outbound_of i)))"
    using message_builder_wf assms(1) ok by (auto simp: message_ok_def builder_wf_def)
  have "fb_meta (message_builder (outbound_of i)) = fb_meta (message_builder m)"
    by (rule bt_ext[OF wf(2,1)], simp only: message_meta[OF ok] message_meta[OF assms(1)])
      (use assms(2) in \<open>simp add: same_message_def outbound_of_def\<close>)
  moreover have "fb_crypto (message_builder x) = None" for x
    by (simp add: message_builder_def Let_def set_payload_def frame_builder_new_def meta_insert_str_def)
  moreover have "has_frame_type t (outbound_of i) = has_frame_type t m" for t
    using assms(2) by (simp add: has_frame_type_def same_message_def outbound_of_def)
  ultimately have "message_builder (outbound_of i) = message_builder m"
    using assms(2) by (intro frame_builder.equality) (simp_all add: same_message_def outbound_of_def)
  then show ?thesis by (simp add: build_data_frame_def)
qed

lemma same_message_inbound_of: "message_ok m \<Longrightarrow> same_message m (inbound_of m)"
  by (simp add: same_message_def inbound_of_def message_ok_def)

lemma same_message_trans: "same_message m i \<Longrightarrow> same_message (outbound_of i) j \<Longrightarrow> same_message m j"
  by (simp add: same_message_def outbound_of_def)

lemma transfer_same:
  assumes "message_ok m" and "build_data_frame crc enc me m = Ok bs"
    and "\<forall>v raw. enc v = Some raw \<longrightarrow> dec raw = Some v"
  obtains i where "transfer crc enc dec me peer m = Some i" and "same_message m i"
proof -
  obtain f where f: "frame_decode decoder_new bs = (Ok (Some f), [])" "fh_typ (fast f) = Data"
      "same_message m (message_of_frame dec f)"
    using message_over_link[OF assms, of "[]"] by auto
  then have "bs \<noteq> []" by (auto simp: frame_decode_def)
  have "\<not> is_termination_message m"
    using assms(1) by (auto simp: message_ok_def is_termination_message_def has_frame_type_def)
  then have "transfer crc enc dec me peer m = Some (message_of_frame dec f)"
    using assms(2) f \<open>bs \<noteq> []\<close>
    by (simp add: transfer_def link_env_def session_step_def on_outbound_def collect_def initial_run_def
        update_run_stats_def on_frame_def on_data_def emit_def)
  with f(3) show thesis by (rule that[rotated])
qed

lemma event_is_outbound:
  "handle_session_event hash (MessageReceived i) m = handle_outbound_message hash (outbound_of i) m"
proof (cases "im_dst_node i = sm_local_node_id m")
  case True
  then have "om_dst_node (outbound_of i) = sm_local_node_id m" by (simp add: outbound_of_def)
  with True show ?thesis by (simp add: handle_session_event_def handle_outbound_local)
qed (simp add: handle_session_event_def)

lemma handed_over_local:
  assumes "sm_delivery m \<noteq> None"
  shows "handed_over m (deliver_locally i m) = Some i"
  using assms by (auto simp: handed_over_def deliver_locally_def)

lemma ready_forwards:
  assumes "node_ready N db v m" and "get_route db dst = Some r" and "dst \<noteq> v"
    and "om_dst_node msg = dst" and "edge N v (cr_next_hop r) w"
  shows "handed_over m (handle_outbound_message hash msg m) = None"
    and "queued_on m (handle_outbound_message hash msg m) = Some (cr_next_hop r, msg)"
proof -
  let ?u = "cr_next_hop r" and ?m = "handle_outbound_message hash msg m"
  have loc: "sm_local_node_id m = v" "rt_local_node_id (sm_routing_table m) = v"
    using assms(1) by (simp_all add: node_ready_def)
  have "hm_get (rt_routes (sm_routing_table m)) dst = Some (single (next_hop_new ?u (cr_total_cost r)))"
    using assms(1-3) by (simp add: node_ready_def table_get_route_def)
  with loc(2) obtain d where d: "fst (decide hash (sm_routing_table m)
      \<lparr>rc_src_node = sm_local_node_id m, rc_dst_node = om_dst_node msg, rc_ttl = 64,
       rc_corr_id = om_corr_id msg, rc_route_class = 0, rc_partition = 0, rc_epoch = 0\<rparr>) = Forward d"
      "nh_node_id (ed_next_hop d) = ?u"
    using assms(3,4) by (simp add: fst_decide select_hop_def hop_set_is_empty_def single_def set_insert_def
        next_hop_new_def ecmp_decision_new_def)
  obtain info q where i: "hm_get (sm_sessions m) ?u = Some info" "hm_get (sm_channels m) (si_message_tx info) = Some q"
    using assms(1,5) by (force simp: node_ready_def hm_contains_def split: option.splits)
  have "om_dst_node msg \<noteq> sm_local_node_id m" using assms(3,4) loc(1) by simp
  note fw = handle_outbound_forward[OF this d(1) i(1)[folded d(2)]]
  show "handed_over m ?m = None" using fw(2) by (simp add: handed_over_def split: option.split)
  have queue: "queue_of ?m c = (if c = si_message_tx info then queue_of m c @ [msg] else queue_of m c)" for c
    by (simp add: queue_of_def fw(1) channel_send_get i(2))
  have mem: "(?u, info) \<in> set (sm_sessions m)" using i(1) by (rule hm_get_Some_mem)
  let ?P = "\<lambda>(v :: node_id, info' :: session_info). si_message_tx info' = si_message_tx info"
  have "find (\<lambda>(v, info). length (queue_of m (si_message_tx info)) < length (queue_of ?m (si_message_tx info)))
      (sm_sessions m) = find ?P (sm_sessions m)"
    by (rule find_cong[OF refl]) (simp add: queue split: prod.split)
  moreover have "find ?P (sm_sessions m) = Some (?u, info)"
  proof (cases "find ?P (sm_sessions m)")
    case None
    then show ?thesis using mem by (force simp: find_None_iff)
  next
    case (Some x)
    then have x: "x \<in> set (sm_sessions m)" "?P x" by (auto simp: find_Some_iff in_set_conv_nth)
    have "inj_on (si_message_tx \<circ> snd) (set (sm_sessions m))"
      using assms(1) by (simp add: node_ready_def distinct_map)
    from inj_onD[OF this _ x(1) mem] x(2) have "x = (?u, info)" by (simp add: split_def)
    with Some show ?thesis by simp
  qed
  ultimately show "queued_on m ?m = Some (?u, msg)"
    by (simp add: queued_on_def queue)
qed

text \<open>A table that has taken over the routes of a database.\<close>

lemma new_table_routes:
  assumes "hm_wf (db_routes db)"
  shows "rt_local_node_id (update_routes_from_topology (get_routes db) (routing_table_new v)) = v"
    and "dst \<noteq> v \<Longrightarrow> table_get_route (update_routes_from_topology (get_routes db) (routing_table_new v)) dst =
      map_option (\<lambda>cr. single (next_hop_new (cr_next_hop cr) (cr_total_cost cr))) (get_route db dst)"
proof -
  show "rt_local_node_id (update_routes_from_topology (get_routes db) (routing_table_new v)) = v"
    by (simp add: update_routes_from_topology_def routing_table_new_def Let_def)
  show "dst \<noteq> v \<Longrightarrow> table_get_route (update_routes_from_topology (get_routes db) (routing_table_new v)) dst =
      map_option (\<lambda>cr. single (next_hop_new (cr_next_hop cr) (cr_total_cost cr))) (get_route db dst)"
    using update_routes_from_topology_get[of "get_routes db" "routing_table_new v" dst] assms
    by (simp add: get_routes_def get_route_def routing_table_new_def)
qed

lemma carry_along_path:
  assumes "mesh_ready V N D M" and "\<forall>v raw. enc v = Some raw \<longrightarrow> dec raw = Some v"
    and "build_data_frame crc enc me msg0 = Ok bs" and "message_ok msg0"
    and "s \<in> V" and "forward_path D k s dst = Some path" and "same_message msg0 i0" and "im_dst_node i0 = dst"
  shows "\<exists>i. carry hash crc enc dec M k s (handle_outbound_message hash (outbound_of i0) (M s)) = Some (dst, i)
    \<and> same_message msg0 i"
  using assms(5-8)
proof (induction k arbitrary: s path i0)
  have conv: "converged V N D" using assms(1) by (simp add: mesh_ready_def)
  have ready: "node_ready N (D v) v (M v)" if "v \<in> V" for v
    using assms(1) that by (simp add: mesh_ready_def)
  have arrived: "\<exists>i. carry hash crc enc dec M k s (handle_outbound_message hash (outbound_of i0) (M s)) = Some (dst, i)
      \<and> same_message msg0 i" if "s = dst" "same_message msg0 i0" "im_dst_node i0 = dst" "s \<in> V" for k s i0
  proof -
    have "om_dst_node (outbound_of i0) = sm_local_node_id (M s)"
      using that ready[of s] by (simp add: outbound_of_def node_ready_def)
    moreover have "sm_delivery (M s) \<noteq> None" using ready[OF that(4)] by (simp add: node_ready_def)
    ultimately show ?thesis
      using that by (cases k) (auto simp: handle_outbound_local handed_over_local)
  qed
  { case 0
    then show ?case using arrived[of s i0 0] by (simp split: if_splits)
  next
    case (Suc k)
    show ?case
    proof (cases "s = dst")
      case False
      then obtain r path' where r: "get_route (D s) dst = Some r" "forward_path D k (cr_next_hop r) dst = Some path'"
        using Suc.prems(2) by (auto split: option.splits)
      have "route_ok N s dst r" and h: "cr_next_hop r \<in> V"
        using converged_routes(1)[OF conv Suc.prems(1) r(1)] by simp_all
      then obtain w where e: "edge N s (cr_next_hop r) w" by (auto simp: route_ok_def)
      have d: "om_dst_node (outbound_of i0) = dst" using Suc.prems(4) by (simp add: outbound_of_def)
      note fw = ready_forwards[OF ready[OF Suc.prems(1)] r(1) False[symmetric] d e, of hash]
      have ok: "message_ok (outbound_of i0)" by (rule same_message_ok[OF assms(4) Suc.prems(3)])
      have "build_data_frame crc enc s (outbound_of i0) = Ok bs"
        using build_data_frame_same[OF assms(4) Suc.prems(3)] assms(3) by metis
      then obtain i where i: "transfer crc enc dec s (cr_next_hop r) (outbound_of i0) = Some i" "same_message (outbound_of i0) i"
        by (rule transfer_same[where enc = enc and dec = dec and peer = "cr_next_hop r", OF ok _ assms(2)])
      have s: "same_message msg0 i" by (rule same_message_trans[OF Suc.prems(3) i(2)])
      have "im_dst_node i = dst" using s Suc.prems(3,4) by (simp add: same_message_def)
      from Suc.IH[OF h r(2) s this] fw i(1) show ?thesis by (simp add: event_is_outbound)
    qed (use arrived[of s i0 "Suc k"] Suc.prems in blast)
  }
qed

text \<open>
  A message reaches the node it is for. In a network at rest, where every node has a session for each of its
  links and routes by its topology database, a message that a node sends to a destination it has a route to passes from
  manager to session to manager along the route and is handed to the destination node, unchanged, after no more hops than
  the route costs.
\<close>

lemma mesh_send_delivers:
  assumes "mesh_ready V N D M" and "\<forall>v raw. enc v = Some raw \<longrightarrow> dec raw = Some v"
    and "message_ok msg" and "build_data_frame crc enc s msg = Ok bs"
    and "s \<in> V" and "get_route (D s) (om_dst_node msg) = Some r"
  shows "\<exists>i. mesh_send hash crc enc dec M (unat (cr_total_cost r)) s msg = Some (om_dst_node msg, i)
    \<and> same_message msg i"
proof -
  have "converged V N D" "positive_costs N" using assms(1) by (simp_all add: mesh_ready_def)
  from forward_path_reaches[OF this assms(5,6) order_refl]
  obtain path where "forward_path D (unat (cr_total_cost r)) s (om_dst_node msg) = Some path" by blast
  moreover have "im_dst_node (inbound_of msg) = om_dst_node msg" by (simp add: inbound_of_def)
  ultimately show ?thesis
    using carry_along_path[where dec = dec and hash = hash, OF assms(1,2,4,3,5) _ same_message_inbound_of[OF assms(3)]]
    by (simp add: mesh_send_def)
qed

section \<open>Plain messages\<close>

text \<open>A message without headers, and a codec that has one metadata record only.\<close>

definition plain_message :: "node_id \<Rightarrow> node_id \<Rightarrow> u64 \<Rightarrow> outbound_message" where
  "plain_message src dst k = \<lparr>om_src_node = src, om_dst_node = dst, om_payload = [9], om_headers = [], om_corr_id = 4,
     om_msg_id = Some k, om_require_ack = False\<rparr>"

definition tiny_enc :: "cbor_value \<Rightarrow> bytes option" where
  "tiny_enc v = (if v = CMap [] then Some [1] else None)"

definition tiny_dec :: "bytes \<Rightarrow> cbor_value option" where
  "tiny_dec raw = Some (CMap [])"

lemma tiny_codec: "\<forall>v raw. tiny_enc v = Some raw \<longrightarrow> tiny_dec raw = Some v"
  by (simp add: tiny_enc_def tiny_dec_def)

lemma plain_message_fields:
  "om_src_node (plain_message src dst k) = src" "om_dst_node (plain_message src dst k) = dst"
  "om_payload (plain_message src dst k) = [9]" "om_headers (plain_message src dst k) = []"
  "om_msg_id (plain_message src dst k) = Some k" "om_require_ack (plain_message src dst k) = False"
  by (simp_all add: plain_message_def)

lemma plain_message_ok: "k \<noteq> 0 \<Longrightarrow> message_ok (plain_message src dst k)"
  by (simp add: plain_message_def message_ok_def hm_wf_def)

lemma plain_message_frame:
  assumes "enc (CMap []) = Some [1]"
  shows "\<exists>bs. build_data_frame (\<lambda>_. 0) enc me (plain_message src dst k) = Ok bs"
proof -
  have "built_meta (\<lambda>_. 0) (message_builder (plain_message src dst k)) = []"
    by (simp add: plain_message_def built_meta_def message_builder_def set_payload_def frame_builder_new_def meta_builder_new_def
        fast_header_new_def flags_contains_def HDR_CHECKSUM_def has_frame_type_def)
  then have "enc (meta_value (built_meta (\<lambda>_. 0) (message_builder (plain_message src dst k)))) = Some [1]"
    using assms by (simp add: meta_value_def)
  then show ?thesis
    by (auto simp: build_data_frame_def frame_builder_build_Ok frame_encode_Ok encoded_size_eq hint_bytes_def
        plain_message_fields)
qed

end
