(* ===== verification/Delivery.thy ===== *)
theory Delivery
  imports Network
begin

text \<open>
  The local delivery queue: \<open>mesh-grpc/src/delivery.rs\<close>. Subscribers with their filters, and the
  delivery of a message to those that match. A subscriber's channel is the list of what was sent on it, and
  absent when the receiver is gone. The \<open>broadcast\<close> channel has no receiver anywhere, so a
  send on it always fails and the result is ignored; it is left out, as is the per-subscriber buffer, which no
  operation touches.
\<close>

section \<open>State\<close>

record header =
  hd_key :: string
  hd_value :: bytes

record received =
  rc_src :: node_id
  rc_dst :: node_id
  rc_msg_id :: u64
  rc_corr :: u64
  rc_headers :: "header list"
  rc_payload :: bytes
  rc_require_ack :: bool

record subscribe_request =
  sr_partition :: u32
  sr_qos_class :: u32
  sr_src_node :: node_id

record subscription_filter =
  sf_partition :: "u32 option"
  sf_qos_class :: "u32 option"
  sf_src_node :: "node_id option"

definition subscription_filter_of :: "subscribe_request \<Rightarrow> subscription_filter" where
  "subscription_filter_of req =
     \<lparr>sf_partition = (if sr_partition req = 0 then None else Some (sr_partition req)),
      sf_qos_class = (if sr_qos_class req = 0 then None else Some (sr_qos_class req)),
      sf_src_node = (if sr_src_node req = 0 then None else Some (sr_src_node req))\<rparr>"

definition filter_matches :: "subscription_filter \<Rightarrow> received \<Rightarrow> bool" where
  "filter_matches f msg =
     (case sf_src_node f of Some src_node \<Rightarrow> rc_src msg = src_node | None \<Rightarrow> True)"

text \<open>A subscriber: its filter and what its channel holds, \<open>None\<close> once the receiver was dropped.\<close>

record subscriber =
  sub_filter :: subscription_filter
  sub_sent :: "received list option"

record delivery_queue =
  dq_subscribers :: "(u64, subscriber) hmap"
  dq_next_sub_id :: u64

definition delivery_queue_new :: delivery_queue where
  "delivery_queue_new = \<lparr>dq_subscribers = [], dq_next_sub_id = 1\<rparr>"

section \<open>Operations\<close>

definition subscribe :: "subscription_filter \<Rightarrow> delivery_queue \<Rightarrow> u64 \<times> delivery_queue" where
  "subscribe f q =
     (let sub_id = dq_next_sub_id q
      in (sub_id, q\<lparr>dq_next_sub_id := sub_id + 1,
                    dq_subscribers := hm_insert sub_id \<lparr>sub_filter = f, sub_sent = Some []\<rparr> (dq_subscribers q)\<rparr>))"

definition unsubscribe :: "u64 \<Rightarrow> delivery_queue \<Rightarrow> delivery_queue" where
  "unsubscribe sub_id q = q\<lparr>dq_subscribers := hm_remove sub_id (dq_subscribers q)\<rparr>"

text \<open>The environment: the receiver of a subscriber goes away.\<close>

definition drop_receiver :: "u64 \<Rightarrow> delivery_queue \<Rightarrow> delivery_queue" where
  "drop_receiver sub_id q =
     (case hm_get (dq_subscribers q) sub_id of
        Some s \<Rightarrow> q\<lparr>dq_subscribers := hm_insert sub_id (s\<lparr>sub_sent := None\<rparr>) (dq_subscribers q)\<rparr>
      | None \<Rightarrow> q)"

text \<open>The loop over the subscribers: the entries afterwards, the count, the failed deliveries.\<close>

fun deliver_loop :: "received \<Rightarrow> (u64 \<times> subscriber) list \<Rightarrow> (u64 \<times> subscriber) list \<times> nat \<times> u64 list" where
  "deliver_loop message [] = ([], 0, [])"
| "deliver_loop message ((sub_id, s) # subs) =
     (let (subs', delivered_count, failed_deliveries) = deliver_loop message subs
      in if \<not> filter_matches (sub_filter s) message
         then ((sub_id, s) # subs', delivered_count, failed_deliveries)
         else case sub_sent s of
                Some ms \<Rightarrow>
                  ((sub_id, s\<lparr>sub_sent := Some (ms @ [message])\<rparr>) # subs', delivered_count + 1, failed_deliveries)
              | None \<Rightarrow> ((sub_id, s) # subs', delivered_count, sub_id # failed_deliveries))"

definition deliver :: "received \<Rightarrow> delivery_queue \<Rightarrow> nat \<times> delivery_queue" where
  "deliver message q =
     (let (subs, delivered_count, failed_deliveries) = deliver_loop message (dq_subscribers q)
      in (delivered_count, q\<lparr>dq_subscribers := fold hm_remove failed_deliveries subs\<rparr>))"

definition subscriber_count :: "delivery_queue \<Rightarrow> nat" where
  "subscriber_count q = length (dq_subscribers q)"

definition get_subscriber_info :: "delivery_queue \<Rightarrow> (u64 \<times> subscription_filter) list" where
  "get_subscriber_info q = map (\<lambda>(sub_id, s). (sub_id, sub_filter s)) (dq_subscribers q)"

section \<open>Lemmas\<close>

text \<open>What a delivery does to one subscriber: \<open>None\<close> is its removal.\<close>

definition take_message :: "received \<Rightarrow> subscriber \<Rightarrow> subscriber option" where
  "take_message message s =
     (if filter_matches (sub_filter s) message
      then map_option (\<lambda>ms. s\<lparr>sub_sent := Some (ms @ [message])\<rparr>) (sub_sent s) else Some s)"

lemma deliver_loop_spec:
  assumes "deliver_loop message subs = (subs', n, failed)" and "hm_wf subs"
  shows "hm_wf subs' \<and> hm_keys subs' = hm_keys subs
    \<and> (if k \<in> set failed then None else hm_get subs' k) = Option.bind (hm_get subs k) (take_message message)
    \<and> set failed \<subseteq> set (hm_keys subs)
    \<and> n = length (filter (\<lambda>(k, s). filter_matches (sub_filter s) message \<and> sub_sent s \<noteq> None) subs)"
  using assms
proof (induction message subs arbitrary: subs' n failed rule: deliver_loop.induct)
  case (2 message sub_id s subs)
  obtain subs1 n1 failed1 where l: "deliver_loop message subs = (subs1, n1, failed1)" by (metis prod_cases3)
  have wf: "hm_wf subs" "sub_id \<notin> set (hm_keys subs)" using 2(3) by (auto simp: hm_wf_def hm_keys_def)
  note IH = 2(1)[OF l wf(1)]
  have fresh: "sub_id \<notin> set failed1" using IH wf(2) by auto
  note eqs = wf fresh l hm_get_None_iff[of subs sub_id]
  show ?case
  proof (cases "filter_matches (sub_filter s) message")
    case False
    with 2(2) IH eqs show ?thesis
      by (auto simp: hm_wf_def hm_keys_def hm_get_Cons take_message_def)
  next
    case True
    with 2(2) IH eqs show ?thesis
      by (cases "sub_sent s") (auto simp: hm_wf_def hm_keys_def hm_get_Cons take_message_def)
  qed
qed simp

lemma deliver_count_le:
  assumes "deliver message q = (n, q')"
  shows "n \<le> length (dq_subscribers q)"
proof -
  have "fst (snd (deliver_loop message subs)) \<le> length subs" for subs
    by (induction message subs rule: deliver_loop.induct) (auto simp: Let_def split: prod.split option.split)
  with assms show ?thesis by (auto simp: deliver_def split: prod.splits) (metis fst_conv snd_conv)
qed

lemma deliver_get:
  assumes "hm_wf (dq_subscribers q)"
  shows "hm_get (dq_subscribers (snd (deliver message q))) k =
      Option.bind (hm_get (dq_subscribers q) k) (take_message message)"
    and "hm_wf (dq_subscribers (snd (deliver message q)))"
    and "dq_next_sub_id (snd (deliver message q)) = dq_next_sub_id q"
    and "fst (deliver message q) = length (filter
      (\<lambda>(k, s). filter_matches (sub_filter s) message \<and> sub_sent s \<noteq> None) (dq_subscribers q))"
proof -
  obtain subs n failed where l: "deliver_loop message (dq_subscribers q) = (subs, n, failed)" by (metis prod_cases3)
  note spec = deliver_loop_spec[OF l assms]
  show "hm_get (dq_subscribers (snd (deliver message q))) k =
      Option.bind (hm_get (dq_subscribers q) k) (take_message message)"
    using spec[of k] by (simp add: deliver_def l hm_get_fold_remove)
  show "hm_wf (dq_subscribers (snd (deliver message q)))"
    using spec by (simp add: deliver_def l hm_wf_fold_remove)
  show "dq_next_sub_id (snd (deliver message q)) = dq_next_sub_id q" by (simp add: deliver_def l)
  show "fst (deliver message q) = length (filter
      (\<lambda>(k, s). filter_matches (sub_filter s) message \<and> sub_sent s \<noteq> None) (dq_subscribers q))"
    using spec by (simp add: deliver_def l)
qed

section \<open>Runs\<close>

datatype delivery_op =
    OpSubscribe subscription_filter
  | OpUnsubscribe u64
  | OpDeliver received
  | OpDropReceiver u64

fun delivery_step :: "delivery_op \<Rightarrow> delivery_queue \<Rightarrow> delivery_queue" where
  "delivery_step (OpSubscribe f) q = snd (subscribe f q)"
| "delivery_step (OpUnsubscribe k) q = unsubscribe k q"
| "delivery_step (OpDeliver m) q = snd (deliver m q)"
| "delivery_step (OpDropReceiver k) q = drop_receiver k q"

fun messages_of :: "delivery_op list \<Rightarrow> received list" where
  "messages_of [] = []"
| "messages_of (OpDeliver m # ops) = m # messages_of ops"
| "messages_of (_ # ops) = messages_of ops"

lemma next_id_fresh:
  assumes "j < 2 ^ 64 - 1"
  shows "(k :: u64) + 1 + word_of_nat j \<noteq> k"
proof
  assume "k + 1 + word_of_nat j = k"
  then have "word_of_nat (Suc j) = (0 :: u64)" by (simp add: algebra_simps)
  then have "2 ^ 64 dvd Suc j" unfolding word_of_nat_eq_0_iff by simp
  with assms show False by (auto dest: dvd_imp_le)
qed

lemma delivery_steps_keep:
  assumes "hm_wf (dq_subscribers q)" and "dq_next_sub_id q = k + 1 + word_of_nat j"
    and "hm_get (dq_subscribers q) k = Some \<lparr>sub_filter = f, sub_sent = Some acc\<rparr>"
    and "OpUnsubscribe k \<notin> set ops" and "OpDropReceiver k \<notin> set ops" and "j + length ops < 2 ^ 64 - 1"
  shows "hm_get (dq_subscribers (fold delivery_step ops q)) k =
    Some \<lparr>sub_filter = f, sub_sent = Some (acc @ filter (filter_matches f) (messages_of ops))\<rparr>"
  using assms
proof (induction ops arbitrary: q j acc)
  case (Cons op ops)
  show ?case
  proof (cases op)
    case (OpSubscribe g)
    have "k + 1 + word_of_nat j \<noteq> k" using Cons.prems(6) by (intro next_id_fresh) simp
    then show ?thesis
      using Cons.IH[of "snd (subscribe g q)" "Suc j" acc] Cons.prems OpSubscribe
      by (auto simp: subscribe_def Let_def algebra_simps)
  next
    case (OpDeliver m)
    then show ?thesis
      using Cons.IH[of "snd (deliver m q)" j "if filter_matches f m then acc @ [m] else acc"] Cons.prems
      by (simp add: deliver_get take_message_def)
  next
    case (OpUnsubscribe i)
    then show ?thesis
      using Cons.IH[of "unsubscribe i q" j acc] Cons.prems by (auto simp: unsubscribe_def)
  next
    case (OpDropReceiver i)
    then show ?thesis
      using Cons.IH[of "drop_receiver i q" j acc] Cons.prems by (auto simp: drop_receiver_def split: option.split)
  qed
qed simp

lemma delivery_steps_wf:
  "hm_wf (dq_subscribers q) \<Longrightarrow> hm_wf (dq_subscribers (fold delivery_step ops q))"
proof (induction ops arbitrary: q)
  case (Cons op ops)
  then show ?case
    by (cases op) (auto simp: deliver_get subscribe_def unsubscribe_def drop_receiver_def Let_def split: option.split)
qed simp

section \<open>Properties\<close>

lemma filter_matches_iff: "filter_matches f = (\<lambda>m. sf_src_node f = None \<or> sf_src_node f = Some (rc_src m))"
  by (auto simp: fun_eq_iff filter_matches_def split: option.split)

text \<open>
  C29: A subscriber receives exactly the messages from the source it has asked for, or all when it has named none, each once and in the order they were
  delivered, from its subscription on and whatever other subscribers come, go or fail in
  between; a delivery counts exactly the subscribers that took the message, and forgets one whose
  receiver is gone when a message for it arrives. The source is the whole of the filter: a partition and a class of service are kept
  with the subscription and have no influence on what it receives (\<open>partition_filter_ignored\<close> below).
\<close>

theorem subscriber_receives_matching:
  assumes "subscribe f (fold delivery_step ops0 delivery_queue_new) = (k, q)"
    and "OpUnsubscribe k \<notin> set ops" and "OpDropReceiver k \<notin> set ops" and "length ops < 2 ^ 64 - 1"
  shows "hm_get (dq_subscribers (fold delivery_step ops q)) k =
      Some \<lparr>sub_filter = f, sub_sent = Some (filter
        (\<lambda>x. sf_src_node f = None \<or> sf_src_node f = Some (rc_src x)) (messages_of ops))\<rparr>
    \<and> fst (deliver m (fold delivery_step ops q)) = length (filter
      (\<lambda>(i, s). (sf_src_node (sub_filter s) = None \<or> sf_src_node (sub_filter s) = Some (rc_src m)) \<and> sub_sent s \<noteq> None)
      (dq_subscribers (fold delivery_step ops q)))
    \<and> hm_get (dq_subscribers (snd (deliver m (drop_receiver k (fold delivery_step ops q))))) k =
      (if sf_src_node f = None \<or> sf_src_node f = Some (rc_src m) then None else Some \<lparr>sub_filter = f, sub_sent = None\<rparr>)"
proof -
  let ?q0 = "fold delivery_step ops0 delivery_queue_new"
  have "hm_wf (dq_subscribers ?q0)" by (rule delivery_steps_wf) (simp add: delivery_queue_new_def)
  then have q: "hm_wf (dq_subscribers q)" "dq_next_sub_id q = k + 1 + word_of_nat 0"
      "hm_get (dq_subscribers q) k = Some \<lparr>sub_filter = f, sub_sent = Some []\<rparr>"
    using assms(1) by (auto simp: subscribe_def Let_def)
  have get: "hm_get (dq_subscribers (fold delivery_step ops q)) k =
      Some \<lparr>sub_filter = f, sub_sent = Some (filter (filter_matches f) (messages_of ops))\<rparr>"
    using delivery_steps_keep[OF q assms(2,3)] assms(4) by simp
  have wf: "hm_wf (dq_subscribers (fold delivery_step ops q))" by (rule delivery_steps_wf[OF q(1)])
  then have count: "fst (deliver m (fold delivery_step ops q)) = length (filter
      (\<lambda>(i, s). filter_matches (sub_filter s) m \<and> sub_sent s \<noteq> None) (dq_subscribers (fold delivery_step ops q)))"
    by (rule deliver_get)
  have "hm_wf (dq_subscribers (drop_receiver k (fold delivery_step ops q)))"
    using wf by (simp add: drop_receiver_def split: option.split)
  from deliver_get(1)[OF this]
  have "hm_get (dq_subscribers (snd (deliver m (drop_receiver k (fold delivery_step ops q))))) k =
      (if filter_matches f m then None else Some \<lparr>sub_filter = f, sub_sent = None\<rparr>)"
    by (simp add: drop_receiver_def get take_message_def)
  with get count show ?thesis unfolding filter_matches_iff by blast
qed

theorem subscriber_receives_matching_witness:
  "hm_get (dq_subscribers (fold delivery_step
      [OpDeliver \<lparr>rc_src = 5, rc_dst = 1, rc_msg_id = 1, rc_corr = 0, rc_headers = [], rc_payload = [], rc_require_ack = False\<rparr>,
       OpUnsubscribe 9,
       OpDeliver \<lparr>rc_src = 6, rc_dst = 1, rc_msg_id = 2, rc_corr = 0, rc_headers = [], rc_payload = [], rc_require_ack = False\<rparr>]
      (snd (subscribe (subscription_filter_of \<lparr>sr_partition = 0, sr_qos_class = 0, sr_src_node = 6\<rparr>) delivery_queue_new)))) 1 =
    Some \<lparr>sub_filter = subscription_filter_of \<lparr>sr_partition = 0, sr_qos_class = 0, sr_src_node = 6\<rparr>,
      sub_sent = Some [\<lparr>rc_src = 6, rc_dst = 1, rc_msg_id = 2, rc_corr = 0, rc_headers = [], rc_payload = [], rc_require_ack = False\<rparr>]\<rparr>"
proof -
  let ?f = "subscription_filter_of \<lparr>sr_partition = 0, sr_qos_class = 0, sr_src_node = 6\<rparr>"
  let ?m = "\<lparr>rc_src = 5, rc_dst = 1, rc_msg_id = 1, rc_corr = 0, rc_headers = [], rc_payload = [], rc_require_ack = False\<rparr>"
  let ?m' = "\<lparr>rc_src = 6, rc_dst = 1, rc_msg_id = 2, rc_corr = 0, rc_headers = [], rc_payload = [], rc_require_ack = False\<rparr>"
  have "subscribe ?f (fold delivery_step [] delivery_queue_new) = (1, snd (subscribe ?f delivery_queue_new))"
    by (simp add: subscribe_def delivery_queue_new_def)
  from subscriber_receives_matching[OF this, of "[OpDeliver ?m, OpUnsubscribe 9, OpDeliver ?m']"] show ?thesis
    by (simp add: subscription_filter_of_def)
qed

section \<open>Deviations\<close>

text \<open>
  The request and the filter have a partition and a class of service, described as filters; two subscriptions that differ in them alone
  take the same messages.
\<close>

lemma partition_filter_ignored:
  "filter_matches (subscription_filter_of (req\<lparr>sr_partition := p, sr_qos_class := c\<rparr>)) m = filter_matches (subscription_filter_of req) m"
  by (simp add: filter_matches_iff subscription_filter_of_def)

end
