(* ===== verification/Tracker.thy ===== *)
theory Tracker
  imports Network
begin

text \<open>
  What becomes of the messages a client sends: the status tracker of \<open>mesh-grpc/src/message_tracker.rs\<close> and
  the retry queue of \<open>mesh-grpc/src/message_queue.rs\<close>. The clocks (seconds since the epoch for
  time stamps, nanoseconds for instants) are arguments. The status codes are those of \<open>proto/mesh/v1/data.proto\<close>.
  A queue and its clients share one tracker, which is part of the queue's state here.
\<close>

section \<open>The tracker\<close>

datatype message_status =
    StatusUnspecified | Undeliverable | Queued | PendingNode | PendingClient | Delivered
  | WaitingForClientAck | AckSuccess | AckFailure

fun status_code :: "message_status \<Rightarrow> int" where
  "status_code StatusUnspecified = 0"
| "status_code Undeliverable = 1"
| "status_code Queued = 2"
| "status_code PendingNode = 3"
| "status_code PendingClient = 4"
| "status_code Delivered = 5"
| "status_code WaitingForClientAck = 6"
| "status_code AckSuccess = 7"
| "status_code AckFailure = 8"

definition CLEANUP_RETENTION_SECONDS :: nat where
  "CLEANUP_RETENTION_SECONDS = 300"

record message_record =
  mr_msg_id :: u64
  mr_status :: message_status
  mr_status_message :: string
  mr_timestamp :: u64
  mr_require_ack :: bool
  mr_created_at :: nat

record message_status_info =
  msi_msg_id :: u64
  msi_status :: int
  msi_status_message :: string
  msi_timestamp :: u64
  msi_require_ack :: bool

definition message_record_new :: "u64 \<Rightarrow> nat \<Rightarrow> u64 \<Rightarrow> message_status \<Rightarrow> string \<Rightarrow> bool \<Rightarrow> message_record" where
  "message_record_new unix now msg_id status status_message require_ack =
     \<lparr>mr_msg_id = msg_id, mr_status = status, mr_status_message = status_message, mr_timestamp = unix,
      mr_require_ack = require_ack, mr_created_at = now\<rparr>"

definition record_update_status :: "u64 \<Rightarrow> message_status \<Rightarrow> string \<Rightarrow> message_record \<Rightarrow> message_record" where
  "record_update_status unix status status_message r =
     r\<lparr>mr_status := status, mr_status_message := status_message, mr_timestamp := unix\<rparr>"

definition is_completed :: "message_record \<Rightarrow> bool" where
  "is_completed r = (mr_status r \<in> {Delivered, AckSuccess, AckFailure, Undeliverable})"

definition should_cleanup :: "nat \<Rightarrow> message_record \<Rightarrow> bool" where
  "should_cleanup now r = (is_completed r \<and> (now - mr_created_at r) div SECOND > CLEANUP_RETENTION_SECONDS)"

definition to_proto :: "message_record \<Rightarrow> message_status_info" where
  "to_proto r =
     \<lparr>msi_msg_id = mr_msg_id r, msi_status = status_code (mr_status r), msi_status_message = mr_status_message r,
      msi_timestamp = mr_timestamp r, msi_require_ack = mr_require_ack r\<rparr>"

type_synonym tracker = "(u64, message_record) hmap"

definition track_message :: "u64 \<Rightarrow> nat \<Rightarrow> u64 \<Rightarrow> message_status \<Rightarrow> string \<Rightarrow> bool \<Rightarrow> tracker \<Rightarrow> tracker" where
  "track_message unix now msg_id status status_message require_ack t =
     hm_insert msg_id (message_record_new unix now msg_id status status_message require_ack) t"

definition update_status :: "u64 \<Rightarrow> u64 \<Rightarrow> message_status \<Rightarrow> string \<Rightarrow> tracker \<Rightarrow> bool \<times> tracker" where
  "update_status unix msg_id status status_message t =
     (case hm_get t msg_id of
        Some r \<Rightarrow> (True, hm_insert msg_id (record_update_status unix status status_message r) t)
      | None \<Rightarrow> (False, t))"

definition get_status :: "tracker \<Rightarrow> u64 \<Rightarrow> message_record option" where
  "get_status t msg_id = hm_get t msg_id"

definition get_statuses :: "tracker \<Rightarrow> u64 list \<Rightarrow> message_status_info list" where
  "get_statuses t msg_ids = List.map_filter (\<lambda>msg_id. map_option to_proto (hm_get t msg_id)) msg_ids"

definition get_pending_messages :: "tracker \<Rightarrow> message_status_info list" where
  "get_pending_messages t = map (to_proto \<circ> snd) (filter (\<lambda>(_, r). \<not> is_completed r) t)"

record tracker_stats =
  ts_total_messages :: nat
  ts_undeliverable :: nat
  ts_queued :: nat
  ts_pending_node :: nat
  ts_pending_client :: nat
  ts_delivered :: nat
  ts_waiting_for_ack :: nat
  ts_ack_success :: nat
  ts_ack_failure :: nat

definition tracker_stats_default :: tracker_stats where
  "tracker_stats_default =
     \<lparr>ts_total_messages = 0, ts_undeliverable = 0, ts_queued = 0, ts_pending_node = 0, ts_pending_client = 0,
      ts_delivered = 0, ts_waiting_for_ack = 0, ts_ack_success = 0, ts_ack_failure = 0\<rparr>"

definition count_record :: "message_record \<Rightarrow> tracker_stats \<Rightarrow> tracker_stats" where
  "count_record r stats =
     (let stats = stats\<lparr>ts_total_messages := ts_total_messages stats + 1\<rparr>
      in case mr_status r of
           Undeliverable \<Rightarrow> stats\<lparr>ts_undeliverable := ts_undeliverable stats + 1\<rparr>
         | Queued \<Rightarrow> stats\<lparr>ts_queued := ts_queued stats + 1\<rparr>
         | PendingNode \<Rightarrow> stats\<lparr>ts_pending_node := ts_pending_node stats + 1\<rparr>
         | PendingClient \<Rightarrow> stats\<lparr>ts_pending_client := ts_pending_client stats + 1\<rparr>
         | Delivered \<Rightarrow> stats\<lparr>ts_delivered := ts_delivered stats + 1\<rparr>
         | WaitingForClientAck \<Rightarrow> stats\<lparr>ts_waiting_for_ack := ts_waiting_for_ack stats + 1\<rparr>
         | AckSuccess \<Rightarrow> stats\<lparr>ts_ack_success := ts_ack_success stats + 1\<rparr>
         | AckFailure \<Rightarrow> stats\<lparr>ts_ack_failure := ts_ack_failure stats + 1\<rparr>
         | _ \<Rightarrow> stats)"

definition tracker_get_stats :: "tracker \<Rightarrow> tracker_stats" where
  "tracker_get_stats t = fold (count_record \<circ> snd) t tracker_stats_default"

definition remove_message :: "u64 \<Rightarrow> tracker \<Rightarrow> bool \<times> tracker" where
  "remove_message msg_id t = (hm_contains t msg_id, hm_remove msg_id t)"

definition message_count :: "tracker \<Rightarrow> nat" where
  "message_count t = length t"

text \<open>One tick of the cleanup task.\<close>

definition cleanup_tick :: "nat \<Rightarrow> tracker \<Rightarrow> tracker" where
  "cleanup_tick now t = fold hm_remove (map fst (filter (\<lambda>(_, r). should_cleanup now r) t)) t"

section \<open>The queue\<close>

record message_queue_config =
  mqc_max_retry_attempts :: u32
  mqc_base_retry_interval :: nat
  mqc_max_retry_interval :: nat
  mqc_retry_check_interval :: nat
  mqc_completed_message_ttl :: nat

definition message_queue_config_default :: message_queue_config where
  "message_queue_config_default =
     \<lparr>mqc_max_retry_attempts = 10, mqc_base_retry_interval = SECOND, mqc_max_retry_interval = 60 * SECOND,
      mqc_retry_check_interval = 5 * SECOND, mqc_completed_message_ttl = 300 * SECOND\<rparr>"

datatype send_mode = FireAndForget | WaitForDelivery | WaitForAck

record queued_message =
  qm_message :: outbound_message
  qm_retry_count :: u32
  qm_queued_at :: nat
  qm_next_retry_at :: nat
  qm_send_mode :: send_mode
  qm_timeout_seconds :: u32
  qm_status_tx :: "channel option"

datatype wait_condition = NodeOnline node_id | ClientSubscription node_id

text \<open>
  The outbound channel is the list of what was sent, \<open>None\<close> when the session manager is gone; the status
  streams hold what was sent on each, and a stream that was closed is absent.
\<close>

record message_queue =
  mq_config :: message_queue_config
  mq_pending :: "(u64, queued_message) hmap"
  mq_waiting :: "(wait_condition, u64 list) hmap"
  mq_outbound :: "outbound_message list option"
  mq_tracker :: tracker
  mq_streams :: "(channel, message_status_info list) hmap"

definition message_queue_new :: "message_queue_config \<Rightarrow> outbound_message list option \<Rightarrow> tracker \<Rightarrow> message_queue" where
  "message_queue_new config outbound_tx message_tracker =
     \<lparr>mq_config = config, mq_pending = [], mq_waiting = [], mq_outbound = outbound_tx,
      mq_tracker = message_tracker, mq_streams = []\<rparr>"

definition set_status :: "u64 \<Rightarrow> u64 \<Rightarrow> message_status \<Rightarrow> string \<Rightarrow> message_queue \<Rightarrow> message_queue" where
  "set_status unix msg_id status message q =
     q\<lparr>mq_tracker := snd (update_status unix msg_id status message (mq_tracker q))\<rparr>"

text \<open>\<open>if let Some(ref tx) = queued_msg.status_tx\<close>: the record goes to the client's stream.\<close>

definition notify_stream :: "channel option \<Rightarrow> u64 \<Rightarrow> message_queue \<Rightarrow> message_queue" where
  "notify_stream status_tx msg_id q =
     (case (status_tx, get_status (mq_tracker q) msg_id) of
        (Some tx, Some r) \<Rightarrow>
          (case hm_get (mq_streams q) tx of
             Some infos \<Rightarrow> q\<lparr>mq_streams := hm_insert tx (infos @ [to_proto r]) (mq_streams q)\<rparr>
           | None \<Rightarrow> q)
      | _ \<Rightarrow> q)"

text \<open>\<open>config.base_retry_interval * 2_u32.pow(retry_count.saturating_sub(1))\<close>, at most the maximum.\<close>

definition retry_delay :: "message_queue_config \<Rightarrow> u32 \<Rightarrow> nat" where
  "retry_delay config retry_count =
     min (mqc_base_retry_interval config * unat (2 ^ (unat retry_count - 1) :: u32)) (mqc_max_retry_interval config)"

text \<open>One round of the loop over the messages that are due.\<close>

definition retry_message :: "u64 \<Rightarrow> nat \<Rightarrow> u64 \<Rightarrow> message_queue \<Rightarrow> message_queue" where
  "retry_message unix now msg_id q =
     (case hm_get (mq_pending q) msg_id of
        None \<Rightarrow> q
      | Some queued_msg \<Rightarrow>
          let q = q\<lparr>mq_pending := hm_remove msg_id (mq_pending q)\<rparr>;
              queued_msg = queued_msg\<lparr>qm_retry_count := qm_retry_count queued_msg + 1\<rparr>;
              max_retry_attempts = mqc_max_retry_attempts (mq_config q)
          in if qm_retry_count queued_msg > max_retry_attempts
             then notify_stream (qm_status_tx queued_msg) msg_id
                    (set_status unix msg_id Undeliverable
                       (''Max retry attempts ('' @ string_of_nat (unat max_retry_attempts) @ '') exceeded'') q)
             else let queued_msg = queued_msg\<lparr>qm_next_retry_at :=
                        now + retry_delay (mq_config q) (qm_retry_count queued_msg)\<rparr>;
                      q = notify_stream (qm_status_tx queued_msg) msg_id
                            (set_status unix msg_id Queued
                               (''Retry attempt '' @ string_of_nat (unat (qm_retry_count queued_msg)) @ '' of ''
                                  @ string_of_nat (unat max_retry_attempts)) q)
                  in case mq_outbound q of
                       None \<Rightarrow> set_status unix msg_id Undeliverable ''Failed to retry: channel closed'' q
                     | Some out \<Rightarrow>
                         q\<lparr>mq_outbound := Some (out @ [qm_message queued_msg]),
                            mq_pending := hm_insert msg_id queued_msg (mq_pending q)\<rparr>)"

definition due_messages :: "nat \<Rightarrow> message_queue \<Rightarrow> u64 list" where
  "due_messages now q = map fst (filter (\<lambda>(_, queued_msg). now \<ge> qm_next_retry_at queued_msg) (mq_pending q))"

definition retry_tick :: "u64 \<Rightarrow> nat \<Rightarrow> message_queue \<Rightarrow> message_queue" where
  "retry_tick unix now q = fold (retry_message unix now) (due_messages now q) q"

definition queue_message :: "nat \<Rightarrow> outbound_message \<Rightarrow> send_mode \<Rightarrow> u32 \<Rightarrow> channel option \<Rightarrow> message_queue
    \<Rightarrow> (string, unit) outcome \<times> message_queue" where
  "queue_message now message send_mode timeout_seconds status_tx q =
     (case om_msg_id message of
        None \<Rightarrow> (Err ''Message must have an ID'', q)
      | Some msg_id \<Rightarrow>
          (case mq_outbound q of
             None \<Rightarrow> (Err ''Failed to send message: channel closed'', q)
           | Some out \<Rightarrow>
               (Ok (), q\<lparr>mq_outbound := Some (out @ [message]),
                         mq_pending := hm_insert msg_id
                           \<lparr>qm_message = message, qm_retry_count = 0, qm_queued_at = now, qm_next_retry_at = now,
                            qm_send_mode = send_mode, qm_timeout_seconds = timeout_seconds,
                            qm_status_tx = status_tx\<rparr> (mq_pending q)\<rparr>)))"

definition handle_message_delivered :: "u64 \<Rightarrow> message_queue \<Rightarrow> message_queue" where
  "handle_message_delivered msg_id q =
     (case hm_get (mq_pending q) msg_id of
        Some queued_msg \<Rightarrow>
          notify_stream (qm_status_tx queued_msg) msg_id (q\<lparr>mq_pending := hm_remove msg_id (mq_pending q)\<rparr>)
      | None \<Rightarrow> q)"

definition handle_message_acked :: "u64 \<Rightarrow> message_queue \<Rightarrow> message_queue" where
  "handle_message_acked msg_id q =
     (case hm_get (mq_pending q) msg_id of
        Some queued_msg \<Rightarrow>
          notify_stream (qm_status_tx queued_msg) msg_id (q\<lparr>mq_pending := hm_remove msg_id (mq_pending q)\<rparr>)
      | None \<Rightarrow> q)"

definition wait_for_condition :: "(node_id \<Rightarrow> wait_condition) \<Rightarrow> u64 \<Rightarrow> message_queue \<Rightarrow> message_queue" where
  "wait_for_condition condition msg_id q =
     (case hm_get (mq_pending q) msg_id of
        Some queued_msg \<Rightarrow>
          let c = condition (om_dst_node (qm_message queued_msg))
          in q\<lparr>mq_waiting := hm_insert c (get_or [] (hm_get (mq_waiting q) c) @ [msg_id]) (mq_waiting q)\<rparr>
      | None \<Rightarrow> q)"

definition queue_routing_feedback :: "u64 \<Rightarrow> u64 \<Rightarrow> message_status \<Rightarrow> string \<Rightarrow> message_queue \<Rightarrow> message_queue" where
  "queue_routing_feedback unix msg_id status message q =
     (let q = set_status unix msg_id status message q;
          q = (case hm_get (mq_pending q) msg_id of
                 Some queued_msg \<Rightarrow> notify_stream (qm_status_tx queued_msg) msg_id q | None \<Rightarrow> q)
      in case status of
           Delivered \<Rightarrow> handle_message_delivered msg_id q
         | WaitingForClientAck \<Rightarrow> handle_message_delivered msg_id q
         | AckSuccess \<Rightarrow> handle_message_acked msg_id q
         | AckFailure \<Rightarrow> handle_message_acked msg_id q
         | PendingNode \<Rightarrow> wait_for_condition NodeOnline msg_id q
         | PendingClient \<Rightarrow> wait_for_condition ClientSubscription msg_id q
         | _ \<Rightarrow> q)"

text \<open>The loop that makes waiting messages due.\<close>

fun wake :: "nat \<Rightarrow> u64 list \<Rightarrow> (u64, queued_message) hmap \<Rightarrow> (u64, queued_message) hmap" where
  "wake now [] msgs = msgs"
| "wake now (msg_id # msg_ids) msgs =
     wake now msg_ids (case hm_get msgs msg_id of
        Some queued_msg \<Rightarrow> hm_insert msg_id (queued_msg\<lparr>qm_next_retry_at := now\<rparr>) msgs | None \<Rightarrow> msgs)"

definition notify_condition :: "nat \<Rightarrow> wait_condition \<Rightarrow> message_queue \<Rightarrow> message_queue" where
  "notify_condition now c q =
     (case hm_get (mq_waiting q) c of
        Some msg_ids \<Rightarrow>
          q\<lparr>mq_waiting := hm_remove c (mq_waiting q), mq_pending := wake now msg_ids (mq_pending q)\<rparr>
      | None \<Rightarrow> q)"

definition notify_node_online :: "nat \<Rightarrow> node_id \<Rightarrow> message_queue \<Rightarrow> message_queue" where
  "notify_node_online now node_id q = notify_condition now (NodeOnline node_id) q"

definition notify_client_subscribed :: "nat \<Rightarrow> node_id \<Rightarrow> message_queue \<Rightarrow> message_queue" where
  "notify_client_subscribed now node_id q = notify_condition now (ClientSubscription node_id) q"

record message_queue_stats =
  mqs_pending_messages :: nat
  mqs_waiting_for_node :: nat
  mqs_waiting_for_client :: nat

definition queue_get_stats :: "message_queue \<Rightarrow> message_queue_stats" where
  "queue_get_stats q =
     \<lparr>mqs_pending_messages = length (mq_pending q), mqs_waiting_for_node = 0, mqs_waiting_for_client = 0\<rparr>"

section \<open>Lemmas\<close>

lemma set_status_fields [simp]:
  "mq_config (set_status x i st m q) = mq_config q" "mq_pending (set_status x i st m q) = mq_pending q"
  "mq_waiting (set_status x i st m q) = mq_waiting q" "mq_outbound (set_status x i st m q) = mq_outbound q"
  "mq_streams (set_status x i st m q) = mq_streams q"
  by (simp_all add: set_status_def)

lemma notify_stream_fields [simp]:
  "mq_config (notify_stream tx i q) = mq_config q" "mq_pending (notify_stream tx i q) = mq_pending q"
  "mq_waiting (notify_stream tx i q) = mq_waiting q" "mq_outbound (notify_stream tx i q) = mq_outbound q"
  "mq_tracker (notify_stream tx i q) = mq_tracker q"
  by (simp_all add: notify_stream_def split: option.split)

lemma set_status_get:
  "hm_get (mq_tracker (set_status x i st m q)) k =
     (if k = i then map_option (record_update_status x st m) (hm_get (mq_tracker q) k) else hm_get (mq_tracker q) k)"
  by (simp add: set_status_def update_status_def split: option.split)

lemma record_update_status_status [simp]: "mr_status (record_update_status x st m r) = st"
  by (simp add: record_update_status_def)

text \<open>How often a message went out, and its status.\<close>

definition copies :: "u64 \<Rightarrow> message_queue \<Rightarrow> nat" where
  "copies k q = length (filter (\<lambda>m. om_msg_id m = Some k) (get_or [] (mq_outbound q)))"

definition status_of :: "u64 \<Rightarrow> message_queue \<Rightarrow> message_status option" where
  "status_of k q = map_option mr_status (hm_get (mq_tracker q) k)"

text \<open>Messages are queued under their identifiers, and the session manager is there.\<close>

definition queue_ok :: "message_queue \<Rightarrow> bool" where
  "queue_ok q \<longleftrightarrow> hm_wf (mq_pending q) \<and> mq_outbound q \<noteq> None
     \<and> (\<forall>k qm. hm_get (mq_pending q) k = Some qm \<longrightarrow> om_msg_id (qm_message qm) = Some k)"

lemma queue_ok_queue_message:
  assumes "queue_ok q" and "om_msg_id msg = Some k"
  shows "\<exists>q'. queue_message now msg mode timeout tx q = (Ok (), q') \<and> queue_ok q'
    \<and> mq_config q' = mq_config q \<and> mq_tracker q' = mq_tracker q \<and> copies k q' = Suc (copies k q)
    \<and> (\<exists>qm. hm_get (mq_pending q') k = Some qm \<and> qm_message qm = msg \<and> qm_retry_count qm = 0
        \<and> qm_next_retry_at qm = now)"
  using assms by (auto simp: queue_message_def queue_ok_def copies_def get_or_def)

lemma retry_message_ok:
  assumes "queue_ok q"
  shows "queue_ok (retry_message x now i q)" and "mq_config (retry_message x now i q) = mq_config q"
  using assms by (auto simp: retry_message_def queue_ok_def Let_def split: option.split)

lemma retry_message_other:
  assumes "queue_ok q" and "k \<noteq> i"
  shows "hm_get (mq_pending (retry_message x now i q)) k = hm_get (mq_pending q) k"
    and "copies k (retry_message x now i q) = copies k q"
    and "hm_get (mq_tracker (retry_message x now i q)) k = hm_get (mq_tracker q) k"
  using assms
  by (auto simp: retry_message_def queue_ok_def copies_def set_status_get get_or_def Let_def split: option.split)

text \<open>A message that is sent again, and one that is given up.\<close>

lemma retry_message_again:
  assumes "queue_ok q" and "hm_get (mq_pending q) k = Some qm"
    and "qm_retry_count qm + 1 \<le> mqc_max_retry_attempts (mq_config q)"
  shows "\<exists>qm'. hm_get (mq_pending (retry_message x now k q)) k = Some qm'
      \<and> qm_message qm' = qm_message qm \<and> qm_retry_count qm' = qm_retry_count qm + 1
      \<and> qm_next_retry_at qm' \<le> now + mqc_max_retry_interval (mq_config q)"
    and "copies k (retry_message x now k q) = Suc (copies k q)"
    and "status_of k (retry_message x now k q) = map_option (\<lambda>_. Queued) (status_of k q)"
proof -
  obtain out where "mq_outbound q = Some out" using assms(1) by (auto simp: queue_ok_def)
  moreover have "\<not> mqc_max_retry_attempts (mq_config q) < qm_retry_count qm + 1" using assms(3) by simp
  moreover have "om_msg_id (qm_message qm) = Some k" using assms(1,2) by (simp add: queue_ok_def)
  ultimately show "\<exists>qm'. hm_get (mq_pending (retry_message x now k q)) k = Some qm'
      \<and> qm_message qm' = qm_message qm \<and> qm_retry_count qm' = qm_retry_count qm + 1
      \<and> qm_next_retry_at qm' \<le> now + mqc_max_retry_interval (mq_config q)"
    and "copies k (retry_message x now k q) = Suc (copies k q)"
    and "status_of k (retry_message x now k q) = map_option (\<lambda>_. Queued) (status_of k q)"
    using assms(2)
    by (simp_all add: retry_message_def Let_def retry_delay_def copies_def get_or_def status_of_def set_status_get
        option.map_comp comp_def)
qed

lemma retry_message_give_up:
  assumes "hm_get (mq_pending q) k = Some qm"
    and "qm_retry_count qm + 1 > mqc_max_retry_attempts (mq_config q)"
  shows "hm_get (mq_pending (retry_message x now k q)) k = None"
    and "copies k (retry_message x now k q) = copies k q"
    and "status_of k (retry_message x now k q) = map_option (\<lambda>_. Undeliverable) (status_of k q)"
  using assms
  by (simp_all add: retry_message_def Let_def copies_def status_of_def set_status_get option.map_comp comp_def)

lemma retry_messages_ok:
  assumes "queue_ok q"
  shows "queue_ok (fold (retry_message x now) ids q) \<and> mq_config (fold (retry_message x now) ids q) = mq_config q"
  using assms by (induction ids arbitrary: q) (simp_all add: retry_message_ok)

lemma retry_messages_other:
  assumes "queue_ok q" and "k \<notin> set ids"
  shows "hm_get (mq_pending (fold (retry_message x now) ids q)) k = hm_get (mq_pending q) k
    \<and> copies k (fold (retry_message x now) ids q) = copies k q
    \<and> status_of k (fold (retry_message x now) ids q) = status_of k q"
  using assms
  by (induction ids arbitrary: q) (auto simp: retry_message_ok retry_message_other status_of_def)

lemma due_messages_iff:
  assumes "hm_wf (mq_pending q)"
  shows "k \<in> set (due_messages now q) \<longleftrightarrow>
      (\<exists>qm. hm_get (mq_pending q) k = Some qm \<and> qm_next_retry_at qm \<le> now)"
    and "distinct (due_messages now q)"
  using assms by (force simp: due_messages_def dest: hm_get_mem hm_get_Some_mem)
    (use assms in \<open>auto simp: due_messages_def hm_wf_def hm_keys_def distinct_map_filter\<close>)

text \<open>A tick, seen from one message: nothing happens to it, or one retry does.\<close>

lemma retry_tick_view:
  assumes "queue_ok q"
  obtains (idle) "k \<notin> set (due_messages now q)"
      "hm_get (mq_pending (retry_tick x now q)) k = hm_get (mq_pending q) k"
      "copies k (retry_tick x now q) = copies k q" "status_of k (retry_tick x now q) = status_of k q"
  | (retried) q1 where "queue_ok q1" "mq_config q1 = mq_config q" "hm_get (mq_pending q1) k = hm_get (mq_pending q) k"
      "copies k q1 = copies k q" "status_of k q1 = status_of k q" "k \<in> set (due_messages now q)"
      "hm_get (mq_pending (retry_tick x now q)) k = hm_get (mq_pending (retry_message x now k q1)) k"
      "copies k (retry_tick x now q) = copies k (retry_message x now k q1)"
      "status_of k (retry_tick x now q) = status_of k (retry_message x now k q1)"
proof (cases "k \<in> set (due_messages now q)")
  case False
  with retry_messages_other[OF assms False] show ?thesis by (intro idle) (simp_all add: retry_tick_def)
next
  case True
  then obtain pre post where ids: "due_messages now q = pre @ k # post" by (meson split_list)
  have "distinct (due_messages now q)" using assms by (simp add: queue_ok_def due_messages_iff)
  with ids have n: "k \<notin> set pre" "k \<notin> set post" by auto
  let ?q1 = "fold (retry_message x now) pre q"
  have ok: "queue_ok ?q1" "mq_config ?q1 = mq_config q" using retry_messages_ok[OF assms] by auto
  show ?thesis
    using retry_messages_other[OF assms n(1), where x = x and now = now] ok True
      retry_messages_other[OF retry_message_ok(1)[OF ok(1)] n(2), where x = x and now = now]
    by (intro retried[of ?q1]) (simp_all add: retry_tick_def ids)
qed

lemma retry_tick_ok: "queue_ok q \<Longrightarrow> queue_ok (retry_tick x now q) \<and> mq_config (retry_tick x now q) = mq_config q"
  by (simp add: retry_tick_def retry_messages_ok)

section \<open>Runs of the retry task\<close>

definition run_ticks :: "(u64 \<times> nat) list \<Rightarrow> message_queue \<Rightarrow> message_queue" where
  "run_ticks ticks q = fold (\<lambda>(unix, now). retry_tick unix now) ticks q"

text \<open>Ticks that are at least \<open>d\<close> apart, the first not before \<open>t\<close>.\<close>

fun spaced :: "nat \<Rightarrow> nat \<Rightarrow> (u64 \<times> nat) list \<Rightarrow> bool" where
  "spaced d t [] = True"
| "spaced d t ((unix, now) # ticks) = (t \<le> now \<and> spaced d (now + d) ticks)"

definition retrying :: "u64 \<Rightarrow> nat \<Rightarrow> nat \<Rightarrow> message_queue \<Rightarrow> bool" where
  "retrying k c t q \<longleftrightarrow> queue_ok q \<and> copies k q = Suc c \<and> status_of k q \<noteq> None
     \<and> c \<le> unat (mqc_max_retry_attempts (mq_config q)) \<and> mqc_max_retry_attempts (mq_config q) \<noteq> - 1
     \<and> (\<exists>qm. hm_get (mq_pending q) k = Some qm \<and> qm_retry_count qm = word_of_nat c \<and> qm_next_retry_at qm \<le> t)"

definition finished :: "u64 \<Rightarrow> nat \<Rightarrow> message_status \<Rightarrow> message_queue \<Rightarrow> bool" where
  "finished k n st q \<longleftrightarrow> queue_ok q \<and> hm_get (mq_pending q) k = None \<and> copies k q = n \<and> status_of k q = Some st"

lemma run_ticks_simps [simp]:
  "run_ticks [] q = q" "run_ticks ((unix, now) # ticks) q = run_ticks ticks (retry_tick unix now q)"
  by (simp_all add: run_ticks_def)

lemma finished_tick:
  assumes "finished k n st q"
  shows "finished k n st (retry_tick x now q)"
proof -
  have "queue_ok q" using assms by (simp add: finished_def)
  then show ?thesis
  proof (cases rule: retry_tick_view[where k = k and now = now and x = x])
    case idle
    with assms show ?thesis by (simp add: finished_def retry_tick_ok)
  next
    case (retried q1)
    with assms show ?thesis by (auto simp: finished_def queue_ok_def due_messages_iff)
  qed
qed

lemma retry_count_next:
  assumes "c \<le> unat (m :: u32)" and "m \<noteq> - 1"
  shows "(word_of_nat c + 1 \<le> m) \<longleftrightarrow> c < unat m" and "(word_of_nat c :: u32) + 1 = word_of_nat (Suc c)"
proof -
  have "unat m \<noteq> unat (- 1 :: u32)" using assms(2) by (metis word_unat_eq_iff)
  moreover have "unat m < 2 ^ 32" using unsigned_less[of m] by simp
  ultimately have "Suc c < 2 ^ 32" using assms(1) by (simp add: unsigned_minus_1_eq_mask mask_eq_exp_minus_1)
  then have "unat (word_of_nat (Suc c) :: u32) = Suc c" unfolding unat_of_nat by (subst mod_less) simp_all
  then show "(word_of_nat c + 1 \<le> m) \<longleftrightarrow> c < unat m" by (simp add: word_le_nat_alt add.commute Suc_le_eq)
  show "(word_of_nat c :: u32) + 1 = word_of_nat (Suc c)" by (simp add: add.commute)
qed

lemma retrying_tick:
  assumes "retrying k c t q"
  defines "m \<equiv> mqc_max_retry_attempts (mq_config q)" and "d \<equiv> mqc_max_retry_interval (mq_config q)"
  obtains (idle) "now < t" "retrying k c t (retry_tick x now q)"
  | (again) "c < unat m" "retrying k (Suc c) (now + d) (retry_tick x now q)"
  | (given_up) "c = unat m" "finished k (Suc c) Undeliverable (retry_tick x now q)"
proof -
  obtain qm where r: "queue_ok q" "copies k q = Suc c" "status_of k q \<noteq> None" "c \<le> unat m" "m \<noteq> - 1"
      "hm_get (mq_pending q) k = Some qm" "qm_retry_count qm = word_of_nat c" "qm_next_retry_at qm \<le> t"
    using assms(1) by (auto simp: retrying_def m_def)
  have ok: "queue_ok (retry_tick x now q)" "mq_config (retry_tick x now q) = mq_config q"
    using retry_tick_ok[OF r(1)] by auto
  from r(1) show thesis
  proof (cases rule: retry_tick_view[where k = k and now = now and x = x])
    case idle
    note view = this
    then have "now < t" using r(1,6,8) by (auto simp: queue_ok_def due_messages_iff)
    with view ok r show thesis by (intro that(1)) (auto simp: retrying_def m_def)
  next
    case (retried q1)
    note view = this
    have q1: "hm_get (mq_pending q1) k = Some qm" "mqc_max_retry_attempts (mq_config q1) = m"
        "mqc_max_retry_interval (mq_config q1) = d"
      using view r by (simp_all add: m_def d_def)
    show thesis
    proof (cases "c < unat m")
      case True
      then have "qm_retry_count qm + 1 \<le> mqc_max_retry_attempts (mq_config q1)"
        using retry_count_next(1)[OF r(4,5)] r(7) q1 by simp
      from retry_message_again[OF view(1) q1(1) this, of x now] view True r ok q1(3) retry_count_next(2)[OF r(4,5)]
      show thesis by (intro that(2)) (auto simp: retrying_def m_def)
    next
      case False
      then have "qm_retry_count qm + 1 > mqc_max_retry_attempts (mq_config q1)"
        using retry_count_next(1)[OF r(4,5)] r(7) q1 by (simp add: not_le)
      from retry_message_give_up[OF q1(1) this, of x now] view False r ok
      show thesis by (intro that(3)) (auto simp: finished_def)
    qed
  qed
qed

lemma finished_ticks: "finished k n st q \<Longrightarrow> finished k n st (run_ticks ticks q)"
  by (induction ticks arbitrary: q) (auto simp: finished_tick)

lemma retrying_ticks:
  assumes "retrying k c t q"
  shows "\<exists>t' c'. retrying k c' t' (run_ticks ticks q)
      \<or> finished k (Suc (unat (mqc_max_retry_attempts (mq_config q)))) Undeliverable (run_ticks ticks q)"
  using assms
proof (induction ticks arbitrary: c t q)
  case (Cons tick ticks)
  obtain x now where tick: "tick = (x, now)" by (cases tick)
  have cfg: "mq_config (retry_tick x now q) = mq_config q"
    using Cons.prems by (simp add: retrying_def retry_tick_ok)
  from Cons.prems show ?case
  proof (cases rule: retrying_tick[where now = now and x = x])
    case given_up
    then show ?thesis by (auto simp: tick intro: finished_ticks)
  qed (use Cons.IH cfg in \<open>force simp: tick\<close>)+
qed auto

lemma retrying_ticks_end:
  assumes "retrying k c t q" and "spaced (mqc_max_retry_interval (mq_config q)) t ticks"
    and "unat (mqc_max_retry_attempts (mq_config q)) - c < length ticks"
  shows "finished k (Suc (unat (mqc_max_retry_attempts (mq_config q)))) Undeliverable (run_ticks ticks q)"
  using assms
proof (induction ticks arbitrary: c t q)
  case (Cons tick ticks)
  obtain x now where tick: "tick = (x, now)" by (cases tick)
  have cfg: "mq_config (retry_tick x now q) = mq_config q"
    using Cons.prems(1) by (simp add: retrying_def retry_tick_ok)
  from Cons.prems(1) show ?case
  proof (cases rule: retrying_tick[where now = now and x = x])
    case idle
    then show ?thesis using Cons.prems(2) by (simp add: tick)
  next
    case again
    with Cons.IH[OF again(2)] Cons.prems(2,3) cfg show ?thesis by (simp add: tick)
  next
    case given_up
    then show ?thesis by (auto simp: tick intro: finished_ticks)
  qed
qed simp

lemma feedback_delivered:
  assumes "queue_ok q" and "status_of k q \<noteq> None"
  shows "finished k (copies k q) Delivered (queue_routing_feedback unix k Delivered m q)"
  using assms
  by (auto simp: queue_routing_feedback_def finished_def queue_ok_def copies_def status_of_def set_status_get
      handle_message_delivered_def Let_def split: option.split)

section \<open>Properties\<close>

text \<open>
  C28: Retries are bounded and end. A queued message goes out once and then at most \<open>max_retry_attempts\<close> more times;
  if nobody confirms it, the retry task gives it up, marked undeliverable, after that many retries (each due no later than the
  maximal interval after the one before); and once its delivery is confirmed it is never sent again.
\<close>

theorem retries_bounded:
  assumes "queue_ok q" and "om_msg_id msg = Some k" and "status_of k q \<noteq> None" and "copies k q = 0"
    and "mqc_max_retry_attempts (mq_config q) \<noteq> - 1"
    and "queue_message now msg mode timeout tx q = (Ok (), q')"
    and "n = unat (mqc_max_retry_attempts (mq_config q))"
  shows "copies k (run_ticks ticks q') \<le> Suc n
    \<and> (spaced (mqc_max_retry_interval (mq_config q)) now ticks \<and> n < length ticks \<longrightarrow>
        finished k (Suc n) Undeliverable (run_ticks ticks q'))
    \<and> finished k (copies k (run_ticks ticks q')) Delivered
        (run_ticks later_ticks (queue_routing_feedback unix k Delivered m (run_ticks ticks q')))"
proof -
  have q': "retrying k 0 now q'" "mq_config q' = mq_config q"
    using queue_ok_queue_message[OF assms(1,2), of now mode timeout tx] assms(3-6)
    by (auto simp: retrying_def status_of_def)
  obtain t c where run: "retrying k c t (run_ticks ticks q') \<or> finished k (Suc n) Undeliverable (run_ticks ticks q')"
    using retrying_ticks[OF q'(1), of ticks] q'(2) by (auto simp: assms(7))
  have cfg: "mq_config (run_ticks ticks p) = mq_config p" if "queue_ok p" for p
    using that by (induction ticks arbitrary: p) (auto simp: retry_tick_ok)
  have "queue_ok q'" using q'(1) by (simp add: retrying_def)
  then have "copies k (run_ticks ticks q') \<le> Suc n"
    using run cfg q'(2) by (auto simp: retrying_def finished_def assms(7))
  moreover have "queue_ok (run_ticks ticks q')" "status_of k (run_ticks ticks q') \<noteq> None"
    using run by (auto simp: retrying_def finished_def)
  ultimately show ?thesis
    using retrying_ticks_end[OF q'(1), of ticks] q'(2) finished_ticks[OF feedback_delivered]
    by (auto simp: assms(7))
qed

theorem retries_bounded_witness:
  "\<exists>q'. queue_message 0 \<lparr>om_src_node = 1, om_dst_node = 2, om_payload = [7], om_headers = [], om_corr_id = 0,
        om_msg_id = Some 5, om_require_ack = False\<rparr> FireAndForget 0 None
        (message_queue_new (message_queue_config_default\<lparr>mqc_max_retry_attempts := 1\<rparr>) (Some [])
          (track_message 0 0 5 Queued [] False [])) = (Ok (), q')
    \<and> finished 5 2 Undeliverable (run_ticks [(0, 0), (60, 60 * SECOND)] q')"
proof -
  let ?q = "message_queue_new (message_queue_config_default\<lparr>mqc_max_retry_attempts := 1\<rparr>) (Some [])
          (track_message 0 0 5 Queued [] False [])"
  let ?m = "\<lparr>om_src_node = 1, om_dst_node = 2, om_payload = [7], om_headers = [], om_corr_id = 0,
        om_msg_id = Some 5, om_require_ack = False\<rparr>"
  have q: "queue_ok ?q" "om_msg_id ?m = Some 5" "status_of 5 ?q \<noteq> None" "copies 5 ?q = 0"
      "mqc_max_retry_attempts (mq_config ?q) \<noteq> - 1"
    by (simp_all add: queue_ok_def message_queue_new_def status_of_def track_message_def copies_def get_or_def hm_get_Cons)
  obtain q' where q': "queue_message 0 ?m FireAndForget 0 None ?q = (Ok (), q')"
    by (simp add: queue_message_def message_queue_new_def)
  have "spaced (mqc_max_retry_interval (mq_config ?q)) 0 [(0, 0), (60, 60 * SECOND)]"
    "1 = unat (mqc_max_retry_attempts (mq_config ?q))"
    by (simp_all add: message_queue_new_def message_queue_config_default_def)
  with retries_bounded[OF q q', of 1 "[(0, 0), (60, 60 * SECOND)]"] q' show ?thesis by (simp add: numeral_2_eq_2)
qed

section \<open>Deviations\<close>

text \<open>
  The retention of a finished record counts from its creation, not its completion: a message that took longer than five minutes is
  forgotten at the first cleanup after it completes.
\<close>

lemma late_completion_forgotten:
  assumes "(now - mr_created_at r) div SECOND > CLEANUP_RETENTION_SECONDS"
  shows "should_cleanup now (record_update_status unix Delivered m r)"
  using assms by (simp add: should_cleanup_def record_update_status_def is_completed_def)

text \<open>A message is due for its first retry at once: the first tick sends it a second time, however soon it comes.\<close>

lemma first_retry_immediate:
  assumes "queue_message now msg mode timeout tx q = (Ok (), q')" and "om_msg_id msg = Some k" and "queue_ok q"
  shows "k \<in> set (due_messages now q')"
  using queue_ok_queue_message[OF assms(3,2), of now mode timeout tx] assms(1)
  by (auto simp: queue_ok_def due_messages_iff)

end
