(* ===== verification/Data_Service.thy ===== *)
theory Data_Service
  imports Delivery Tracker
begin

text \<open>
  The service clients use: \<open>mesh-grpc/src/data.rs\<close>, with the conversion of an incoming message that
  \<open>mesh-bin/src/main.rs\<close> makes. The JSON form of a status message is a parameter. The tracker and
  the channel to the session manager are shared with the retry queue and are part of its state. A
  request that waits polls the tracker; what it sees is a list of the time that has passed and the tracker at that time.
\<close>

section \<open>State\<close>

datatype grpc_status =
    InvalidArgument string | InternalError string | DeadlineExceeded string | Unavailable string

record send_request =
  req_dst_node :: node_id
  req_headers :: "header list"
  req_payload :: bytes
  req_corr_id :: u64
  req_require_ack :: bool
  req_mode :: send_mode
  req_timeout_seconds :: u32

record send_response =
  resp_msg_id :: u64
  resp_status :: int
  resp_status_message :: string
  resp_require_ack :: bool

record delivery_status_message =
  dsm_original_msg_id :: u64
  dsm_status :: int
  dsm_status_message :: string

record data_service =
  ds_node_id :: node_id
  ds_next_id :: u64
  ds_delivery :: delivery_queue
  ds_acked :: "(node_id \<times> u64, unit) hmap"
  ds_topology_db :: "topology_database option"
  ds_queue :: message_queue

definition data_service_new :: "node_id \<Rightarrow> delivery_queue \<Rightarrow> message_queue \<Rightarrow> data_service" where
  "data_service_new node_id delivery_queue message_queue =
     \<lparr>ds_node_id = node_id, ds_next_id = 1, ds_delivery = delivery_queue, ds_acked = [],
      ds_topology_db = None, ds_queue = message_queue\<rparr>"

definition set_topology_db :: "topology_database \<Rightarrow> data_service \<Rightarrow> data_service" where
  "set_topology_db db s = s\<lparr>ds_topology_db := Some db\<rparr>"

definition next_msg_id :: "data_service \<Rightarrow> u64 \<times> data_service" where
  "next_msg_id s = (ds_next_id s, s\<lparr>ds_next_id := ds_next_id s + 1\<rparr>)"

definition update_queue :: "(message_queue \<Rightarrow> message_queue) \<Rightarrow> data_service \<Rightarrow> data_service" where
  "update_queue f s = s\<lparr>ds_queue := f (ds_queue s)\<rparr>"

definition ds_track :: "u64 \<Rightarrow> nat \<Rightarrow> u64 \<Rightarrow> message_status \<Rightarrow> string \<Rightarrow> bool \<Rightarrow> data_service \<Rightarrow> data_service" where
  "ds_track unix now msg_id status status_message require_ack =
     update_queue (\<lambda>q. q\<lparr>mq_tracker := track_message unix now msg_id status status_message require_ack (mq_tracker q)\<rparr>)"

section \<open>Feedback\<close>

text \<open>\<open>handle_routing_feedback\<close>: only drops change a status.\<close>

definition drop_status :: "drop_reason \<Rightarrow> message_status \<times> string" where
  "drop_status reason =
     (case reason of
        NoRoute \<Rightarrow> (PendingNode, ''No route to destination node - node may be offline'')
      | InvalidDestination \<Rightarrow> (Undeliverable, ''Invalid destination node'')
      | TtlExpired \<Rightarrow> (Undeliverable, ''Message TTL expired during routing'')
      | RoutingLoop \<Rightarrow> (Undeliverable, ''Routing loop detected'')
      | AdminProhibited \<Rightarrow> (Undeliverable, ''Message delivery administratively prohibited''))"

definition ds_routing_feedback :: "u64 \<Rightarrow> routing_feedback \<Rightarrow> data_service \<Rightarrow> data_service" where
  "ds_routing_feedback unix feedback s =
     (case rf_decision feedback of
        Forward _ \<Rightarrow> s
      | Local \<Rightarrow> s
      | Drop reason \<Rightarrow>
          let (status, message) = drop_status reason
          in update_queue (set_status unix (rf_msg_id feedback) status message) s)"

definition is_node_known :: "node_id \<Rightarrow> data_service \<Rightarrow> bool" where
  "is_node_known dst_node s =
     (dst_node = ds_node_id s
      \<or> (case ds_topology_db s of Some db \<Rightarrow> hm_contains (db_nodes db) dst_node | None \<Rightarrow> dst_node \<noteq> 0))"

definition status_message_of :: "(delivery_status_message \<Rightarrow> bytes option) \<Rightarrow> node_id \<Rightarrow> node_id \<Rightarrow> u64
    \<Rightarrow> message_status \<Rightarrow> string \<Rightarrow> outbound_message" where
  "status_message_of json_enc me src_node msg_id status status_message =
     \<lparr>om_src_node = me, om_dst_node = src_node,
      om_payload = get_or [] (json_enc \<lparr>dsm_original_msg_id = msg_id, dsm_status = status_code status,
                                        dsm_status_message = status_message\<rparr>),
      om_headers = hm_insert ''message_type'' (str_bytes ''delivery_status'') [],
      om_corr_id = 0, om_msg_id = None, om_require_ack = False\<rparr>"

definition send_delivery_status_to_source :: "(delivery_status_message \<Rightarrow> bytes option) \<Rightarrow> node_id \<Rightarrow> u64
    \<Rightarrow> message_status \<Rightarrow> string \<Rightarrow> data_service \<Rightarrow> data_service" where
  "send_delivery_status_to_source json_enc src_node msg_id status status_message s =
     (if src_node = ds_node_id s then s
      else update_queue (\<lambda>q. q\<lparr>mq_outbound := map_option (\<lambda>out. out @
             [status_message_of json_enc (ds_node_id s) src_node msg_id status status_message]) (mq_outbound q)\<rparr>) s)"

text \<open>The codes that are accepted from another node.\<close>

definition accepted_status :: "int \<Rightarrow> message_status option" where
  "accepted_status x =
     (if x = status_code Delivered then Some Delivered
      else if x = status_code PendingClient then Some PendingClient
      else if x = status_code WaitingForClientAck then Some WaitingForClientAck
      else if x = status_code Undeliverable then Some Undeliverable
      else None)"

definition handle_delivery_status_message :: "u64 \<Rightarrow> (bytes \<Rightarrow> delivery_status_message option) \<Rightarrow> received
    \<Rightarrow> data_service \<Rightarrow> data_service" where
  "handle_delivery_status_message unix json_dec message s =
     (case json_dec (rc_payload message) of
        None \<Rightarrow> s
      | Some delivery_status \<Rightarrow>
          (case accepted_status (dsm_status delivery_status) of
             None \<Rightarrow> s
           | Some status \<Rightarrow>
               update_queue (\<lambda>q. queue_routing_feedback unix (dsm_original_msg_id delivery_status) status
                   (dsm_status_message delivery_status)
                 (set_status unix (dsm_original_msg_id delivery_status) status
                   (dsm_status_message delivery_status) q)) s))"

section \<open>Incoming messages\<close>

definition is_delivery_status :: "header \<Rightarrow> bool" where
  "is_delivery_status h = (hd_key h = ''message_type'' \<and> hd_value h = str_bytes ''delivery_status'')"

definition handle_incoming_message :: "u64 \<Rightarrow> (delivery_status_message \<Rightarrow> bytes option)
    \<Rightarrow> (bytes \<Rightarrow> delivery_status_message option) \<Rightarrow> received \<Rightarrow> data_service \<Rightarrow> data_service" where
  "handle_incoming_message unix json_enc json_dec message s =
     (let report = (\<lambda>status text s. if rc_msg_id message \<noteq> 0
            then send_delivery_status_to_source json_enc (rc_src message) (rc_msg_id message) status text s else s)
      in if rc_dst message \<noteq> ds_node_id s then s
         else if list_ex is_delivery_status (rc_headers message)
         then handle_delivery_status_message unix json_dec message s
         else if subscriber_count (ds_delivery s) = 0
         then report PendingClient ''No active subscribers to deliver message to'' s
         else let (delivered_count, dq) = deliver message (ds_delivery s);
                  s = s\<lparr>ds_delivery := dq\<rparr>
              in if delivered_count > 0
                 then if rc_require_ack message
                      then report WaitingForClientAck (''Message delivered to '' @ string_of_nat delivered_count
                             @ '' subscribers, waiting for acknowledgment'') s
                      else report Delivered (''Message delivered successfully to '' @ string_of_nat delivered_count
                             @ '' subscribers'') s
                 else report PendingClient ''No subscribers matched the message filters'' s)"

text \<open>The local delivery task of the node.\<close>

definition received_of :: "inbound_message \<Rightarrow> received" where
  "received_of i =
     \<lparr>rc_src = im_src_node i, rc_dst = im_dst_node i, rc_msg_id = get_or 0 (im_msg_id i), rc_corr = im_corr_id i,
      rc_headers = map (\<lambda>(key, value). \<lparr>hd_key = key, hd_value = value\<rparr>) (im_headers i),
      rc_payload = im_payload i, rc_require_ack = im_require_ack i\<rparr>"

section \<open>Requests\<close>

fun wait_for_status :: "u64 \<Rightarrow> message_status list \<Rightarrow> nat \<Rightarrow> (nat \<times> tracker) list
    \<Rightarrow> (string, message_status_info) outcome option" where
  "wait_for_status msg_id target_statuses timeout [] = None"
| "wait_for_status msg_id target_statuses timeout ((elapsed, t) # polls) =
     (case get_status t msg_id of
        Some r \<Rightarrow>
          if mr_status r \<in> set target_statuses then Some (Ok (to_proto r))
          else if elapsed \<ge> timeout then Some (Err ''Timeout waiting for message status'')
          else wait_for_status msg_id target_statuses timeout polls
      | None \<Rightarrow>
          if elapsed \<ge> timeout then Some (Err ''Timeout waiting for message status'')
          else wait_for_status msg_id target_statuses timeout polls)"

definition unknown_node_message :: "node_id \<Rightarrow> string" where
  "unknown_node_message n = ''Destination node '' @ string_of_nat (unat n) @ '' is not known in the mesh topology''"

fun headers_of :: "header list \<Rightarrow> (string, bytes) hmap \<Rightarrow> (string, bytes) hmap" where
  "headers_of [] headers = headers"
| "headers_of (h # hs) headers = headers_of hs (hm_insert (hd_key h) (hd_value h) headers)"

definition outbound_of_request :: "node_id \<Rightarrow> u64 \<Rightarrow> send_request \<Rightarrow> outbound_message" where
  "outbound_of_request me msg_id req =
     \<lparr>om_src_node = me, om_dst_node = req_dst_node req, om_payload = req_payload req,
      om_headers = headers_of (req_headers req) [], om_corr_id = req_corr_id req, om_msg_id = Some msg_id,
      om_require_ack = req_require_ack req\<rparr>"

text \<open>Queueing, with the status of the message when that fails.\<close>

definition ds_queue_message :: "u64 \<Rightarrow> nat \<Rightarrow> u64 \<Rightarrow> send_request \<Rightarrow> data_service
    \<Rightarrow> (grpc_status, unit) outcome \<times> data_service" where
  "ds_queue_message unix now msg_id req s =
     (case queue_message now (outbound_of_request (ds_node_id s) msg_id req) (req_mode req)
             (req_timeout_seconds req) None (ds_queue s) of
        (Err e, q) \<Rightarrow>
          (Err (InternalError ''Failed to queue message''),
           s\<lparr>ds_queue := set_status unix msg_id Undeliverable (''Failed to queue message: '' @ e) q\<rparr>)
      | (Ok _, q) \<Rightarrow> (Ok (), s\<lparr>ds_queue := q\<rparr>)
      | (Panic, q) \<Rightarrow> (Panic, s\<lparr>ds_queue := q\<rparr>))"

definition send_timeout :: "send_request \<Rightarrow> nat" where
  "send_timeout req =
     (if req_timeout_seconds req > 0 then unat (req_timeout_seconds req) * SECOND
      else if req_mode req = WaitForAck then 600 * SECOND else 300 * SECOND)"

definition send_targets :: "send_mode \<Rightarrow> message_status list" where
  "send_targets mode =
     (if mode = WaitForAck then [AckSuccess, AckFailure, Undeliverable]
      else [Delivered, PendingClient, Undeliverable])"

text \<open>The answer of the two modes that wait, \<open>last_seen\<close> being the tracker after the time-out.\<close>

definition send_wait :: "u64 \<Rightarrow> send_request \<Rightarrow> (nat \<times> tracker) list \<Rightarrow> tracker
    \<Rightarrow> (grpc_status, send_response) outcome option" where
  "send_wait msg_id req polls last_seen =
     (case wait_for_status msg_id (send_targets (req_mode req)) (send_timeout req) polls of
        None \<Rightarrow> None
      | Some (Ok info) \<Rightarrow>
          Some (Ok \<lparr>resp_msg_id = msg_id, resp_status = msi_status info,
                    resp_status_message = msi_status_message info, resp_require_ack = req_require_ack req\<rparr>)
      | Some (Err e) \<Rightarrow>
          Some (case get_status last_seen msg_id of
                  Some r \<Rightarrow> Ok \<lparr>resp_msg_id = msg_id, resp_status = status_code (mr_status r),
                              resp_status_message = ''Timeout: '' @ mr_status_message r,
                              resp_require_ack = req_require_ack req\<rparr>
                | None \<Rightarrow> Err (DeadlineExceeded
                    (if req_mode req = WaitForAck then ''Timeout waiting for message acknowledgment''
                     else ''Timeout waiting for message delivery'')))
      | Some Panic \<Rightarrow> Some Panic)"

text \<open>\<open>send\<close>: the answer (\<open>None\<close> while it waits) and the state once the message is queued.\<close>

definition send :: "u64 \<Rightarrow> nat \<Rightarrow> (nat \<times> tracker) list \<Rightarrow> tracker \<Rightarrow> send_request \<Rightarrow> data_service
    \<Rightarrow> (grpc_status, send_response) outcome option \<times> data_service" where
  "send unix now polls last_seen req s =
     (if req_dst_node req = 0 then (Some (Err (InvalidArgument ''dst_node cannot be 0'')), s)
      else if req_payload req = [] then (Some (Err (InvalidArgument ''payload cannot be empty'')), s)
      else let (msg_id, s') = next_msg_id s
      in if \<not> is_node_known (req_dst_node req) s
         then (Some (Ok \<lparr>resp_msg_id = msg_id, resp_status = status_code Undeliverable,
                         resp_status_message = unknown_node_message (req_dst_node req),
                         resp_require_ack = req_require_ack req\<rparr>),
               ds_track unix now msg_id Undeliverable (unknown_node_message (req_dst_node req))
                 (req_require_ack req) s')
         else let s' = ds_track unix now msg_id Queued ''Message queued for delivery'' (req_require_ack req) s'
         in if req_mode req = WaitForAck \<and> \<not> req_require_ack req
            then (Some (Err (InvalidArgument ''Cannot wait for ack when require_ack is false'')), s')
            else (case ds_queue_message unix now msg_id req s' of
                    (Err e, s') \<Rightarrow> (Some (Err e), s')
                  | (Panic, s') \<Rightarrow> (Some Panic, s')
                  | (Ok _, s') \<Rightarrow>
                      if req_mode req = FireAndForget
                      then (Some (Ok \<lparr>resp_msg_id = msg_id, resp_status = status_code Queued,
                                      resp_status_message = ''Message queued for delivery'',
                                      resp_require_ack = req_require_ack req\<rparr>), s')
                      else (send_wait msg_id req polls last_seen, s')))"

text \<open>\<open>send_with_status_stream\<close>; \<open>stream\<close> is the channel that is made for the client.\<close>

definition status_now :: "u64 \<Rightarrow> u64 \<Rightarrow> message_status \<Rightarrow> string \<Rightarrow> bool \<Rightarrow> message_status_info" where
  "status_now unix msg_id status text require_ack =
     \<lparr>msi_msg_id = msg_id, msi_status = status_code status, msi_status_message = text,
      msi_timestamp = unix, msi_require_ack = require_ack\<rparr>"

definition send_with_status_stream :: "u64 \<Rightarrow> nat \<Rightarrow> channel \<Rightarrow> send_request \<Rightarrow> data_service
    \<Rightarrow> (grpc_status, message_status_info list) outcome \<times> data_service" where
  "send_with_status_stream unix now stream req s =
     (if req_dst_node req = 0 then (Err (InvalidArgument ''dst_node cannot be 0''), s)
      else if req_payload req = [] then (Err (InvalidArgument ''payload cannot be empty''), s)
      else let (msg_id, s') = next_msg_id s
      in if \<not> is_node_known (req_dst_node req) s
         then (Ok [status_now unix msg_id Undeliverable (unknown_node_message (req_dst_node req))
                 (req_require_ack req)], s')
         else let text = ''Message queued for streaming delivery'';
                  first = status_now unix msg_id Queued text (req_require_ack req);
                  s' = ds_track unix now msg_id Queued text (req_require_ack req) s';
                  s' = update_queue (\<lambda>q. q\<lparr>mq_streams := hm_insert stream [first] (mq_streams q)\<rparr>) s'
         in (case queue_message now (outbound_of_request (ds_node_id s') msg_id req) (req_mode req)
                    (req_timeout_seconds req) (Some stream) (ds_queue s') of
               (Ok _, q) \<Rightarrow> (Ok [first], s'\<lparr>ds_queue := q\<rparr>)
             | (Err e, q) \<Rightarrow> (Err (InternalError ''Failed to queue message''), s'\<lparr>ds_queue := q\<rparr>)
             | (Panic, q) \<Rightarrow> (Panic, s'\<lparr>ds_queue := q\<rparr>)))"

definition ds_subscribe :: "subscribe_request \<Rightarrow> data_service \<Rightarrow> u64 \<times> data_service" where
  "ds_subscribe req s =
     (let (sub_id, dq) = subscribe (subscription_filter_of req) (ds_delivery s)
      in (sub_id, s\<lparr>ds_delivery := dq\<rparr>))"

text \<open>The forwarding task of a subscription finds the client gone.\<close>

definition subscriber_gone :: "u64 \<Rightarrow> data_service \<Rightarrow> data_service" where
  "subscriber_gone sub_id s = s\<lparr>ds_delivery := unsubscribe sub_id (ds_delivery s)\<rparr>"

record ack =
  ack_src_node :: node_id
  ack_msg_id :: u64
  ack_success :: bool
  ack_message :: string

definition ds_ack_message :: "u64 \<Rightarrow> (delivery_status_message \<Rightarrow> bytes option) \<Rightarrow> ack \<Rightarrow> data_service \<Rightarrow> data_service" where
  "ds_ack_message unix json_enc a s =
     (let s = s\<lparr>ds_acked := hm_insert (ack_src_node a, ack_msg_id a) () (ds_acked s)\<rparr>;
          status = (if ack_success a then AckSuccess else AckFailure);
          text = (if ack_success a then ''Message acknowledged successfully''
                  else if ack_message a = [] then ''Message acknowledgment failed'' else ack_message a)
      in send_delivery_status_to_source json_enc (ack_src_node a) (ack_msg_id a) status text
           (update_queue (set_status unix (ack_msg_id a) status text) s))"

definition query_message_status :: "u64 list \<Rightarrow> data_service \<Rightarrow> message_status_info list" where
  "query_message_status msg_ids s = get_statuses (mq_tracker (ds_queue s)) msg_ids"

record data_stats =
  dst_node_id :: node_id
  dst_subscriber_count :: nat
  dst_acked_message_count :: nat

definition ds_get_stats :: "data_service \<Rightarrow> data_stats" where
  "ds_get_stats s =
     \<lparr>dst_node_id = ds_node_id s, dst_subscriber_count = subscriber_count (ds_delivery s),
      dst_acked_message_count = length (ds_acked s)\<rparr>"

section \<open>Lemmas\<close>

lemma update_queue_fields [simp]:
  "ds_node_id (update_queue f s) = ds_node_id s" "ds_next_id (update_queue f s) = ds_next_id s"
  "ds_delivery (update_queue f s) = ds_delivery s" "ds_queue (update_queue f s) = f (ds_queue s)"
  by (simp_all add: update_queue_def)

lemma deliver_none: "subscriber_count q = 0 \<Longrightarrow> deliver m q = (0, q)"
  by (simp add: subscriber_count_def deliver_def)

text \<open>What a node reports about a message it took from the network.\<close>

definition reported_status :: "received \<Rightarrow> nat \<Rightarrow> message_status" where
  "reported_status m n = (if n = 0 then PendingClient else if rc_require_ack m then WaitingForClientAck else Delivered)"

lemma length_string_of_nat: "n < 10 ^ Suc k \<Longrightarrow> length (string_of_nat n) \<le> Suc k"
proof (induction n arbitrary: k rule: string_of_nat.induct)
  case (1 n)
  show ?case
  proof (cases "n < 10")
    case False
    with 1(2) obtain k' where k: "k = Suc k'" by (cases k) auto
    with 1(2) have "n div 10 < 10 ^ Suc k'" by (simp add: less_mult_imp_div_less mult.commute)
    from 1(1)[OF False this] False show ?thesis by (simp add: string_of_nat.simps[of n] k)
  qed (simp add: string_of_nat.simps[of n])
qed

lemma handle_incoming_reports:
  assumes "rc_dst m = ds_node_id s" and "\<not> list_ex is_delivery_status (rc_headers m)" and "rc_msg_id m \<noteq> 0"
    and "rc_src m \<noteq> ds_node_id s" and "mq_outbound (ds_queue s) = Some out" and "deliver m (ds_delivery s) = (n, dq)"
  shows "\<exists>info. handle_incoming_message unix json_enc json_dec m s =
       update_queue (\<lambda>q. q\<lparr>mq_outbound := Some (out @
         [status_message_of json_enc (ds_node_id s) (rc_src m) (rc_msg_id m) (reported_status m n) info])\<rparr>)
       (s\<lparr>ds_delivery := dq\<rparr>)
    \<and> (n < 10 ^ 20 \<longrightarrow> length info \<le> 100)"
proof -
  let ?out = "\<lambda>st info s. update_queue (\<lambda>q. q\<lparr>mq_outbound := Some (out @
      [status_message_of json_enc (ds_node_id s) (rc_src m) (rc_msg_id m) st info])\<rparr>) s"
  have report: "send_delivery_status_to_source json_enc (rc_src m) (rc_msg_id m) st info s' = ?out st info s'"
    if "s' = s\<lparr>ds_delivery := dq\<rparr>" for st info s'
    using that assms(4,5) by (simp add: send_delivery_status_to_source_def update_queue_def)
  show ?thesis
  proof (cases "subscriber_count (ds_delivery s) = 0")
    case True
    then have n: "n = 0" "s\<lparr>ds_delivery := dq\<rparr> = s" using assms(6) by (auto simp: deliver_none)
    have "handle_incoming_message unix json_enc json_dec m s =
        ?out (reported_status m n) ''No active subscribers to deliver message to'' s"
      using True assms(1-3) report[OF n(2)[symmetric]] n(1) by (simp add: handle_incoming_message_def reported_status_def)
    then show ?thesis by (intro exI conjI) (simp only: n(2), simp)
  next
    case False
    then have eq: "handle_incoming_message unix json_enc json_dec m s =
      (let s' = s\<lparr>ds_delivery := dq\<rparr>
       in if n > 0
          then if rc_require_ack m
               then ?out WaitingForClientAck (''Message delivered to '' @ string_of_nat n
                      @ '' subscribers, waiting for acknowledgment'') s'
               else ?out Delivered (''Message delivered successfully to '' @ string_of_nat n @ '' subscribers'') s'
          else ?out PendingClient ''No subscribers matched the message filters'' s')"
      using assms(1-3,6) report by (simp add: handle_incoming_message_def Let_def)
    have "length (string_of_nat n) \<le> 20" if "n < 10 ^ 20" using length_string_of_nat[of n 19] that by simp
    moreover define info where "info = (if n = 0 then ''No subscribers matched the message filters''
      else if rc_require_ack m then ''Message delivered to '' @ string_of_nat n @ '' subscribers, waiting for acknowledgment''
      else ''Message delivered successfully to '' @ string_of_nat n @ '' subscribers'')"
    ultimately have "n < 10 ^ 20 \<longrightarrow> length info \<le> 100" by auto
    moreover have "handle_incoming_message unix json_enc json_dec m s = ?out (reported_status m n) info (s\<lparr>ds_delivery := dq\<rparr>)"
      unfolding eq Let_def reported_status_def by (simp add: info_def)
    ultimately show ?thesis by (intro exI[of _ info]) simp
  qed
qed

lemma list_ex_received_of:
  assumes "hm_wf (im_headers j)"
  shows "list_ex is_delivery_status (rc_headers (received_of j)) \<longleftrightarrow>
    hm_get (im_headers j) ''message_type'' = Some (str_bytes ''delivery_status'')"
  using assms
  by (force simp: received_of_def list_ex_iff is_delivery_status_def dest: hm_get_Some_mem hm_get_mem)

lemma status_message_arrives:
  assumes "same_message (status_message_of json_enc b a k st info) j" and "ds_node_id s = a"
    and "json_enc \<lparr>dsm_original_msg_id = k, dsm_status = status_code st, dsm_status_message = info\<rparr> = Some raw"
    and "\<forall>d raw. json_enc d = Some raw \<longrightarrow> json_dec raw = Some d"
    and "st \<in> {PendingClient, WaitingForClientAck, Delivered}"
  shows "handle_incoming_message unix json_enc json_dec (received_of j) s =
    update_queue (\<lambda>q. queue_routing_feedback unix k st info (set_status unix k st info q)) s"
proof -
  have j: "hm_wf (im_headers j)" "im_dst_node j = a" "im_payload j = raw"
      "hm_get (im_headers j) ''message_type'' = Some (str_bytes ''delivery_status'')"
    using assms(1,3) by (simp_all add: same_message_def status_message_of_def get_or_def hm_get_Cons)
  have "accepted_status (status_code st) = Some st" using assms(5) by (auto simp: accepted_status_def)
  moreover have "json_dec raw = Some \<lparr>dsm_original_msg_id = k, dsm_status = status_code st, dsm_status_message = info\<rparr>"
    using assms(3,4) by blast
  moreover have "rc_dst (received_of j) = ds_node_id s" "rc_payload (received_of j) = raw"
    using j assms(2) by (simp_all add: received_of_def)
  ultimately show ?thesis
    using j(1,4) by (simp add: handle_incoming_message_def list_ex_received_of handle_delivery_status_message_def)
qed

lemma feedback_status:
  assumes "status_of k q \<noteq> None" and "st \<in> {PendingClient, WaitingForClientAck, Delivered}"
  shows "status_of k (queue_routing_feedback unix k st info (set_status unix k st info q)) = Some st"
    and "hm_get (mq_pending (queue_routing_feedback unix k st info (set_status unix k st info q))) k =
      (if st = PendingClient then hm_get (mq_pending q) k else None)"
  using assms
  by (auto simp: queue_routing_feedback_def status_of_def set_status_get handle_message_delivered_def
      wait_for_condition_def Let_def split: option.split)

text \<open>
  When a message with an identifier arrives at the node it is for, the subscribers
  there that match take it, and the node sends its status back: delivered, waiting for an acknowledgement if
  one was asked for, or pending when nobody took it. When that status message has made it back to the
  sender, the sender's tracker shows exactly that status, and a delivered message is out of the retry queue
  while a pending one stays in it.
\<close>

lemma delivery_confirmed:
  assumes "im_dst_node i = ds_node_id b" and "im_src_node i = ds_node_id a" and "ds_node_id a \<noteq> ds_node_id b"
    and "im_msg_id i = Some k" and "k \<noteq> 0" and "hm_wf (im_headers i)"
    and "hm_get (im_headers i) ''message_type'' = None"
    and "mq_outbound (ds_queue b) = Some out" and "status_of k (ds_queue a) \<noteq> None"
    and "\<forall>t. length t \<le> 100 \<longrightarrow> (\<exists>raw. json_enc \<lparr>dsm_original_msg_id = k, dsm_status = status_code st, dsm_status_message = t\<rparr> = Some raw
      \<and> length raw \<le> 60000)"
    and "\<forall>d raw. json_enc d = Some raw \<longrightarrow> json_dec raw = Some d"
    and "deliver (received_of i) (ds_delivery b) = (n, dq)"
    and "st = (if n = 0 then PendingClient else if im_require_ack i then WaitingForClientAck else Delivered)"
    and "length (dq_subscribers (ds_delivery b)) < 10 ^ 20"
  shows "\<exists>d b'. handle_incoming_message unix json_enc json_dec (received_of i) b = b'
    \<and> ds_delivery b' = dq \<and> mq_outbound (ds_queue b') = Some (out @ [d]) \<and> om_dst_node d = ds_node_id a \<and> message_ok d
    \<and> om_headers d = [(''message_type'', str_bytes ''delivery_status'')] \<and> \<not> om_require_ack d \<and> length (om_payload d) \<le> 60000
    \<and> (\<forall>j unix'. same_message d j \<longrightarrow>
         (let a' = handle_incoming_message unix' json_enc json_dec (received_of j) a
          in status_of k (ds_queue a') = Some st
             \<and> hm_get (mq_pending (ds_queue a')) k =
                 (if st = PendingClient then hm_get (mq_pending (ds_queue a)) k else None)))"
proof -
  let ?m = "received_of i"
  have m: "rc_dst ?m = ds_node_id b" "rc_msg_id ?m = k" "rc_src ?m = ds_node_id a"
      "\<not> list_ex is_delivery_status (rc_headers ?m)" "reported_status ?m n = st"
    using assms list_ex_received_of[OF assms(6)]
    by (auto simp: received_of_def get_or_def reported_status_def)
  obtain info where info: "handle_incoming_message unix json_enc json_dec ?m b =
       update_queue (\<lambda>q. q\<lparr>mq_outbound := Some (out @
         [status_message_of json_enc (ds_node_id b) (rc_src ?m) (rc_msg_id ?m) (reported_status ?m n) info])\<rparr>)
       (b\<lparr>ds_delivery := dq\<rparr>)" and short: "n < 10 ^ 20 \<Longrightarrow> length info \<le> 100"
    using handle_incoming_reports[where m = ?m and s = b and json_dec = json_dec and json_enc = json_enc and unix = unix,
      OF m(1,4) _ _ assms(8,12)] m assms(3,5) by auto
  let ?d = "status_message_of json_enc (ds_node_id b) (ds_node_id a) k st info"
  have st: "st \<in> {PendingClient, WaitingForClientAck, Delivered}" using assms(13) by auto
  have "length info \<le> 100" using short deliver_count_le[OF assms(12)] assms(14) by linarith
  then obtain raw where raw: "json_enc \<lparr>dsm_original_msg_id = k, dsm_status = status_code st, dsm_status_message = info\<rparr> = Some raw"
      "length raw \<le> 60000"
    using assms(10) by blast
  then show ?thesis
    using info m status_message_arrives[OF _ refl raw(1) assms(11) st, where b = "ds_node_id b"]
      feedback_status[OF assms(9) st]
    by (intro exI[of _ ?d]) (auto simp: status_message_of_def[of json_enc "ds_node_id b" "ds_node_id a"]
        message_ok_def hm_wf_def hm_get_Cons get_or_def Let_def)
qed

text \<open>The metadata of a status message; it fits a frame when the packages encode it and its payload in reasonable size.\<close>

definition delivery_status_meta :: cbor_value where
  "delivery_status_meta = CMap [(CText ''message_type'', CBytes (str_bytes ''delivery_status''))]"

lemma status_frame_built:
  assumes "om_headers d = [(''message_type'', str_bytes ''delivery_status'')]" and "\<not> om_require_ack d" and "length (om_payload d) \<le> 60000"
    and "enc delivery_status_meta = Some raw" and "length raw \<le> 5000"
  shows "\<exists>bs. build_data_frame crc enc me d = Ok bs"
proof -
  have "has_frame_type ''topology_update'' d = False" using assms(1) by (simp add: has_frame_type_def hm_get_Cons)
  then have b: "built_meta crc (message_builder d) = [(''message_type'', CBytes (str_bytes ''delivery_status''))]"
      "fb_payload (message_builder d) = om_payload d" "fb_hint_tlv (message_builder d) = None"
    using assms(1,2) by (simp_all add: built_meta_def message_builder_def set_payload_def frame_builder_new_def meta_builder_new_def
        fast_header_new_def flags_contains_def HDR_CHECKSUM_def meta_insert_bytes_def insert_bytes_def)
  then have "enc (meta_value (built_meta crc (message_builder d))) = Some raw"
    using assms(4) by (simp add: meta_value_def delivery_status_meta_def)
  with b assms(3,5) show ?thesis
    by (auto simp: build_data_frame_def frame_builder_build_Ok frame_encode_Ok encoded_size_eq hint_bytes_def)
qed

lemma char_of_unat_of_char [simp]: "char_of (unat (of_char c :: 8 word)) = c"
proof -
  have "(of_char c :: 8 word) = word_of_nat (of_char c)" by (simp add: of_nat_of_char)
  moreover have "of_char c < (256 :: nat)" by (rule nat_of_char_less_256)
  ultimately have "unat (of_char c :: 8 word) = of_char c" by (simp add: unat_of_nat)
  then show ?thesis by simp
qed

section \<open>Properties\<close>

text \<open>
  C30: What a send request does. A request without destination or payload is refused and changes nothing. Any other uses up one
  identifier. For an unknown destination nothing is sent and the message is recorded as undeliverable. Otherwise
  exactly the message of the request, under the new identifier, goes to the session manager and
  into the retry queue and is recorded as queued, or, when the session manager is gone, is recorded as
  undeliverable and the request fails. Every request is answered, one that waits at the latest at the first poll after its time-out.
\<close>

theorem send_request_cases:
  assumes "send unix now polls last_seen req s = (res, s')"
  shows "(if req_dst_node req = 0 \<or> req_payload req = [] then (\<exists>e. res = Some (Err (InvalidArgument e))) \<and> s' = s
     else ds_next_id s' = ds_next_id s + 1 \<and> ds_delivery s' = ds_delivery s
       \<and> (if \<not> is_node_known (req_dst_node req) s
          then status_of (ds_next_id s) (ds_queue s') = Some Undeliverable
             \<and> mq_outbound (ds_queue s') = mq_outbound (ds_queue s) \<and> mq_pending (ds_queue s') = mq_pending (ds_queue s)
          else if req_mode req = WaitForAck \<and> \<not> req_require_ack req
          then (\<exists>e. res = Some (Err (InvalidArgument e))) \<and> mq_outbound (ds_queue s') = mq_outbound (ds_queue s)
          else (case mq_outbound (ds_queue s) of
                  None \<Rightarrow> (\<exists>e. res = Some (Err (InternalError e)))
                    \<and> status_of (ds_next_id s) (ds_queue s') = Some Undeliverable
                | Some out \<Rightarrow>
                    mq_outbound (ds_queue s') = Some (out @ [outbound_of_request (ds_node_id s) (ds_next_id s) req])
                    \<and> hm_contains (mq_pending (ds_queue s')) (ds_next_id s)
                    \<and> status_of (ds_next_id s) (ds_queue s') = Some Queued
                    \<and> (req_mode req = FireAndForget \<longrightarrow> (\<exists>r. res = Some (Ok r) \<and> resp_msg_id r = ds_next_id s
                         \<and> resp_status r = status_code Queued)))))
    \<and> (list_ex (\<lambda>(elapsed, _). elapsed \<ge> send_timeout req) polls \<longrightarrow> res \<noteq> None)"
proof -
  have timeout: "wait_for_status k ts t ps \<noteq> None" if "list_ex (\<lambda>(elapsed, _). elapsed \<ge> t) ps" for k ts t ps
    using that by (induction k ts t ps rule: wait_for_status.induct) (auto split: option.splits)
  have waits: "send_wait k req polls last_seen \<noteq> None" if "list_ex (\<lambda>(elapsed, _). elapsed \<ge> send_timeout req) polls" for k
    using timeout[OF that, of k "send_targets (req_mode req)"]
    by (auto simp: send_wait_def split: option.split outcome.split)
  note defs = send_def next_msg_id_def ds_track_def ds_queue_message_def queue_message_def outbound_of_request_def
    status_of_def track_message_def message_record_new_def set_status_get hm_contains_def
  show ?thesis
  proof (cases "req_dst_node req = 0 \<or> req_payload req = []")
    case True
    then show ?thesis using assms by (cases "req_dst_node req = 0") (auto simp: send_def)
  next
    case valid: False
    show ?thesis
    proof (cases "is_node_known (req_dst_node req) s \<and> \<not> (req_mode req = WaitForAck \<and> \<not> req_require_ack req)")
      case True
      then show ?thesis
        using assms valid waits
        by (cases "mq_outbound (ds_queue s)"; cases "req_mode req") (auto simp: defs update_queue_def Let_def)
    qed (use assms valid in \<open>auto simp: defs update_queue_def Let_def\<close>)
  qed
qed

theorem send_request_cases_witness:
  "\<exists>res s'. send 3 0 [] [] \<lparr>req_dst_node = 2, req_headers = [], req_payload = [9], req_corr_id = 0, req_require_ack = False,
        req_mode = FireAndForget, req_timeout_seconds = 0\<rparr>
        (data_service_new 1 delivery_queue_new (message_queue_new message_queue_config_default (Some []) [])) = (res, s')
    \<and> status_of 1 (ds_queue s') = Some Queued \<and> (\<exists>m. mq_outbound (ds_queue s') = Some [m] \<and> om_dst_node m = 2)"
proof -
  let ?req = "\<lparr>req_dst_node = 2, req_headers = [], req_payload = [9], req_corr_id = 0, req_require_ack = False,
        req_mode = FireAndForget, req_timeout_seconds = 0\<rparr>"
  let ?s = "data_service_new 1 delivery_queue_new (message_queue_new message_queue_config_default (Some []) [])"
  obtain res s' where r: "send 3 0 [] [] ?req ?s = (res, s')" by (metis surj_pair)
  have "is_node_known (req_dst_node ?req) ?s" "mq_outbound (ds_queue ?s) = Some []" "ds_next_id ?s = 1"
    by (simp_all add: is_node_known_def data_service_new_def message_queue_new_def)
  with send_request_cases[OF r] r show ?thesis by (auto simp: outbound_of_request_def)
qed

section \<open>Deviations\<close>

text \<open>
  The acknowledgement of a client never reaches the sender: the codes it is reported with are not among those a node accepts, so the
  message stays as it was, and a request that waits for the acknowledgement runs into its time-out.
\<close>

lemma ack_status_refused:
  "accepted_status (status_code AckSuccess) = None \<and> accepted_status (status_code AckFailure) = None"
  by (simp add: accepted_status_def)

text \<open>
  A message that a node sends to itself is handed to the subscribers, but no status is reported for it: it stays in the
  retry queue, is delivered again with every retry and ends as undeliverable.
\<close>

lemma own_message_never_confirmed:
  assumes "rc_src m = ds_node_id s" and "rc_dst m = ds_node_id s" and "\<not> list_ex is_delivery_status (rc_headers m)"
  shows "ds_queue (handle_incoming_message unix json_enc json_dec m s) = ds_queue s"
  using assms by (simp add: handle_incoming_message_def send_delivery_status_to_source_def Let_def split: prod.split)

text \<open>A request that waits for delivery does not take \<open>WaitingForClientAck\<close> as delivered.\<close>

lemma wait_for_delivery_ignores_ack_pending: "WaitingForClientAck \<notin> set (send_targets WaitForDelivery)"
  by (simp add: send_targets_def)

text \<open>A refused request to wait for an acknowledgement leaves its record queued for ever.\<close>

lemma refused_request_stays_queued:
  assumes "req_dst_node req \<noteq> 0" and "req_payload req \<noteq> []" and "is_node_known (req_dst_node req) s"
    and "req_mode req = WaitForAck" and "\<not> req_require_ack req" and "send unix now polls last_seen req s = (res, s')"
  shows "status_of (ds_next_id s) (ds_queue s') = Some Queued \<and> mq_pending (ds_queue s') = mq_pending (ds_queue s)"
  using assms
  by (auto simp: send_def next_msg_id_def ds_track_def status_of_def track_message_def message_record_new_def
      update_queue_def Let_def)

text \<open>A routing failure is recorded by the tracker only; the retry queue keeps no message as waiting for the node.\<close>

lemma routing_failure_not_waiting:
  "mq_waiting (ds_queue (ds_routing_feedback unix f s)) = mq_waiting (ds_queue s)"
  by (simp add: ds_routing_feedback_def split: routing_decision.split prod.split)

end
