(* ===== verification/Node.thy ===== *)
theory Node
  imports Data_Service
begin

text \<open>
  The main event loop of a node: \<open>mesh-bin/src/main.rs\<close>. It turns the events of sessions and the updates of
  other nodes into changes of the topology database and the routing table, and floods what is
  new. The loop hands every such change to a task of its own; a task works on the database under its lock, gives the lock back,
  and then updates the routing table and the channel to the session manager. A run
  is any interleaving of inputs and sections of tasks.
\<close>

section \<open>State\<close>

datatype session_command = AddSession string | DropSession node_id

text \<open>A task that waits for the lock, and one that has released it, with the routes it has copied.\<close>

datatype node_task =
    TaskConnected "neighbor_info list"
  | TaskDisconnected "neighbor_info list"
  | TaskUpdate bool topology_update
  | TaskTable "(node_id, computed_route) hmap" "topology_update list"

text \<open>
  The senders and the table of sessions are there only when gRPC is enabled; a channel holds what was sent on it. The task of a session that an operator
  has added is known by its handle, filed under the address; \<open>mn_session_tasks\<close> is the number of handles so far, and the
  handles that were aborted are kept.
\<close>

record mesh_node =
  mn_node_id :: node_id
  mn_connected_neighbors :: "(node_id, string) hmap"
  mn_topology_db :: topology_database
  mn_routing_table :: routing_table
  mn_manager_events :: "session_event list option"
  mn_topology_updates :: "topology_update list option"
  mn_session_registry :: "(node_id, session_info) hmap option"
  mn_channels :: "(channel, outbound_message list) hmap"
  mn_outbound_session_tasks :: "(string, nat) hmap"
  mn_session_tasks :: nat
  mn_aborted :: "nat list"
  mn_tasks :: "node_task list"

definition mesh_node_new :: "node_id \<Rightarrow> bool \<Rightarrow> mesh_node" where
  "mesh_node_new node_id enable_grpc =
     \<lparr>mn_node_id = node_id, mn_connected_neighbors = [], mn_topology_db = topology_database_new node_id,
      mn_routing_table = routing_table_new node_id,
      mn_manager_events = (if enable_grpc then Some [] else None),
      mn_topology_updates = (if enable_grpc then Some [] else None),
      mn_session_registry = (if enable_grpc then Some [] else None), mn_channels = [],
      mn_outbound_session_tasks = [], mn_session_tasks = 0, mn_aborted = [], mn_tasks = []\<rparr>"

section \<open>Bootstrap\<close>

definition bootstrap_node_id :: "16 word \<Rightarrow> node_id" where
  "bootstrap_node_id port =
     (if port = 9000 then 1001 else if port = 9001 then 2002 else if port = 9002 then 3003
      else if port = 9003 then 4004 else ucast port)"

definition bootstrap_neighbors :: "(16 word \<times> string) list \<Rightarrow> neighbor_info list" where
  "bootstrap_neighbors addrs = map (\<lambda>(port, addr). neighbor_info_new (bootstrap_node_id port) 100 (Some addr)) addrs"

definition bootstrap :: "u64 \<Rightarrow> u64 \<Rightarrow> (16 word \<times> string) list \<Rightarrow> mesh_node \<Rightarrow> mesh_node option" where
  "bootstrap now now' addrs n =
     (if addrs = [] then Some n
      else map_option (\<lambda>(update, db). n\<lparr>mn_topology_db := db,
             mn_routing_table := update_routes_from_topology (get_routes db) (mn_routing_table n)\<rparr>)
           (update_local_neighbors now now' (bootstrap_neighbors addrs) (mn_topology_db n)))"

section \<open>The event loop\<close>

definition neighbors_of :: "(node_id, string) hmap \<Rightarrow> neighbor_info list" where
  "neighbors_of connected = map (\<lambda>(node_id, addr). neighbor_info_new node_id 100 (Some addr)) connected"

definition spawn :: "node_task \<Rightarrow> mesh_node \<Rightarrow> mesh_node" where
  "spawn task n = n\<lparr>mn_tasks := mn_tasks n @ [task]\<rparr>"

definition on_connected :: "string \<Rightarrow> node_id \<Rightarrow> mesh_node \<Rightarrow> mesh_node" where
  "on_connected peer remote_node_id n =
     (let connected = hm_insert remote_node_id peer (mn_connected_neighbors n)
      in spawn (TaskConnected (neighbors_of connected)) (n\<lparr>mn_connected_neighbors := connected\<rparr>))"

definition on_disconnected :: "node_id option \<Rightarrow> mesh_node \<Rightarrow> mesh_node" where
  "on_disconnected remote_node_id n =
     (case remote_node_id of
        Some node_id \<Rightarrow>
          let connected = hm_remove node_id (mn_connected_neighbors n)
          in spawn (TaskDisconnected (neighbors_of connected)) (n\<lparr>mn_connected_neighbors := connected\<rparr>)
      | None \<Rightarrow> n)"

definition on_topology_event :: "topology_update \<Rightarrow> mesh_node \<Rightarrow> mesh_node" where
  "on_topology_event update n =
     (if mn_manager_events n = None then spawn (TaskUpdate False update) n else n)"

definition forward_to_manager :: "session_event \<Rightarrow> mesh_node \<Rightarrow> mesh_node" where
  "forward_to_manager event n = n\<lparr>mn_manager_events := map_option (\<lambda>es. es @ [event]) (mn_manager_events n)\<rparr>"

definition on_session_event :: "session_event \<Rightarrow> mesh_node \<Rightarrow> mesh_node" where
  "on_session_event event n =
     (let n = forward_to_manager event n
      in case event of
           Connected peer remote_node_id \<Rightarrow> on_connected peer remote_node_id n
         | Disconnected remote_node_id \<Rightarrow> on_disconnected remote_node_id n
         | TopologyUpdateEvent update \<Rightarrow> on_topology_event update n
         | _ \<Rightarrow> n)"

lemmas on_session_event_defs = on_session_event_def forward_to_manager_def on_connected_def on_disconnected_def
  on_topology_event_def

definition on_received_topology :: "topology_update \<Rightarrow> mesh_node \<Rightarrow> mesh_node" where
  "on_received_topology update n = spawn (TaskUpdate True update) n"

definition on_session_command :: "session_command \<Rightarrow> mesh_node \<Rightarrow> mesh_node" where
  "on_session_command command n =
     (case command of
        AddSession addr \<Rightarrow>
          n\<lparr>mn_outbound_session_tasks := hm_insert addr (mn_session_tasks n) (mn_outbound_session_tasks n),
            mn_session_tasks := mn_session_tasks n + 1\<rparr>
      | DropSession peer_node_id \<Rightarrow>
          let info = Option.bind (mn_session_registry n) (\<lambda>registry. hm_get registry peer_node_id);
              n = (case info of
                     Some i \<Rightarrow>
                       (case hm_get (mn_outbound_session_tasks n) (si_remote_addr i) of
                          Some task_handle \<Rightarrow>
                            n\<lparr>mn_outbound_session_tasks := hm_remove (si_remote_addr i) (mn_outbound_session_tasks n),
                              mn_aborted := mn_aborted n @ [task_handle]\<rparr>
                        | None \<Rightarrow> n)
                   | None \<Rightarrow> n);
              n = (case info of
                     Some i \<Rightarrow> n\<lparr>mn_channels := snd (channel_send (si_message_tx i)
                                  (create_termination_message (mn_node_id n) peer_node_id) (mn_channels n))\<rparr>
                   | None \<Rightarrow> n)
          in n\<lparr>mn_connected_neighbors := hm_remove peer_node_id (mn_connected_neighbors n)\<rparr>)"

text \<open>Sending on the channel of updates to flood.\<close>

definition flood :: "topology_update list \<Rightarrow> mesh_node \<Rightarrow> mesh_node" where
  "flood updates n = n\<lparr>mn_topology_updates := map_option (\<lambda>us. us @ updates) (mn_topology_updates n)\<rparr>"

text \<open>The next section of a task: what is left of it, and the node. The clocks are those of the database operations.\<close>

definition section_connected :: "u64 \<Rightarrow> u64 \<Rightarrow> (node_id \<Rightarrow> u64) \<Rightarrow> neighbor_info list \<Rightarrow> mesh_node
    \<Rightarrow> (node_task option \<times> mesh_node) option" where
  "section_connected now now' clock neighbors n =
     (let existing_topology_updates = get_all_topology_updates clock (mn_topology_db n)
      in map_option (\<lambda>(update, db).
           (Some (TaskTable (get_routes db) (update # existing_topology_updates)), n\<lparr>mn_topology_db := db\<rparr>))
           (update_local_neighbors now now' neighbors (mn_topology_db n)))"

definition section_disconnected :: "u64 \<Rightarrow> u64 \<Rightarrow> neighbor_info list \<Rightarrow> mesh_node
    \<Rightarrow> (node_task option \<times> mesh_node) option" where
  "section_disconnected now now' neighbors n =
     map_option (\<lambda>(update, db). (Some (TaskTable (get_routes db) [update]), n\<lparr>mn_topology_db := db\<rparr>))
       (update_local_neighbors now now' neighbors (mn_topology_db n))"

definition section_update :: "u64 \<Rightarrow> bool \<Rightarrow> topology_update \<Rightarrow> mesh_node \<Rightarrow> (node_task option \<times> mesh_node) option" where
  "section_update now forward update n =
     map_option (\<lambda>(changed, db).
        (if changed
         then Some (TaskTable (get_routes db)
                (if forward \<and> tu_ttl update > 1 then [update\<lparr>tu_ttl := tu_ttl update - 1\<rparr>] else []))
         else None, n\<lparr>mn_topology_db := db\<rparr>))
       (process_topology_update now update (mn_topology_db n))"

definition section_table :: "(node_id, computed_route) hmap \<Rightarrow> topology_update list \<Rightarrow> mesh_node
    \<Rightarrow> (node_task option \<times> mesh_node) option" where
  "section_table routes updates n =
     Some (None, flood updates (n\<lparr>mn_routing_table := update_routes_from_topology routes (mn_routing_table n)\<rparr>))"

definition run_section :: "u64 \<Rightarrow> u64 \<Rightarrow> (node_id \<Rightarrow> u64) \<Rightarrow> node_task \<Rightarrow> mesh_node \<Rightarrow> (node_task option \<times> mesh_node) option" where
  "run_section now now' clock task n =
     (case task of
        TaskConnected neighbors \<Rightarrow> section_connected now now' clock neighbors n
      | TaskDisconnected neighbors \<Rightarrow> section_disconnected now now' neighbors n
      | TaskUpdate forward update \<Rightarrow> section_update now forward update n
      | TaskTable routes updates \<Rightarrow> section_table routes updates n)"

lemmas run_section_defs = run_section_def section_connected_def section_disconnected_def section_update_def section_table_def

datatype node_input =
    SessionInput session_event
  | TopologyInput topology_update
  | CommandInput session_command
  | RunTask nat u64 u64 "node_id \<Rightarrow> u64"

definition node_step :: "node_input \<Rightarrow> mesh_node \<Rightarrow> mesh_node option" where
  "node_step i n =
     (case i of
        SessionInput event \<Rightarrow> Some (on_session_event event n)
      | TopologyInput update \<Rightarrow> Some (on_received_topology update n)
      | CommandInput command \<Rightarrow> Some (on_session_command command n)
      | RunTask k now now' clock \<Rightarrow>
          if k < length (mn_tasks n)
          then map_option (\<lambda>(rest, n'). n'\<lparr>mn_tasks := (case rest of
                   Some task \<Rightarrow> (mn_tasks n)[k := task]
                 | None \<Rightarrow> take k (mn_tasks n) @ drop (Suc k) (mn_tasks n))\<rparr>)
               (run_section now now' clock (mn_tasks n ! k) n)
          else Some n)"

fun node_run :: "node_input list \<Rightarrow> mesh_node \<Rightarrow> mesh_node option" where
  "node_run [] n = Some n"
| "node_run (i # inputs) n = Option.bind (node_step i n) (node_run inputs)"

section \<open>Invariant\<close>

definition node_ok :: "mesh_node \<Rightarrow> bool" where
  "node_ok n \<longleftrightarrow> db_ok (mn_topology_db n) \<and> db_local_node_id (mn_topology_db n) = mn_node_id n
     \<and> table_ok (mn_routing_table n) \<and> rt_local_node_id (mn_routing_table n) = mn_node_id n
     \<and> (\<forall>routes us. TaskTable routes us \<in> set (mn_tasks n) \<longrightarrow> hm_wf routes)"

lemma node_ok_new: "node_ok (mesh_node_new k g)"
  using db_ok_new[of k] table_ok_new[of k]
  by (simp add: node_ok_def mesh_node_new_def topology_database_new_def routing_table_new_def)

lemma routes_of_ok: "db_ok db \<Longrightarrow> hm_wf (get_routes db)"
  by (simp add: db_ok_def db_wf_def get_routes_def)

lemma table_topology_ok:
  assumes "table_ok t"
  shows "table_ok (update_routes_from_topology routes t)"
    and "rt_local_node_id (update_routes_from_topology routes t) = rt_local_node_id t"
  by (rule table_ok_ops[OF assms]) (simp add: update_routes_from_topology_def Let_def)

text \<open>What a section leaves to do concerns the routing table only, and has a proper map of routes.\<close>

definition rest_ok :: "node_task option \<Rightarrow> bool" where
  "rest_ok rest \<longleftrightarrow> (case rest of Some (TaskTable routes us) \<Rightarrow> hm_wf routes | Some _ \<Rightarrow> False | None \<Rightarrow> True)"

lemma run_section_ok:
  assumes "node_ok n" and "task \<in> set (mn_tasks n)"
  shows "\<exists>rest n'. run_section now now' clock task n = Some (rest, n') \<and> rest_ok rest
    \<and> node_ok (n'\<lparr>mn_tasks := mn_tasks n\<rparr>) \<and> mn_node_id n' = mn_node_id n"
proof -
  have wf: "db_wf (mn_topology_db n)" using assms(1) by (simp add: node_ok_def db_ok_def)
  show ?thesis
  proof (cases task)
    case (TaskConnected ns)
    show ?thesis
      by (rule update_local_neighbors_ok[OF wf, of now now' ns])
        (use assms TaskConnected in \<open>auto simp: run_section_defs rest_ok_def node_ok_def routes_of_ok Let_def\<close>)
  next
    case (TaskDisconnected ns)
    show ?thesis
      by (rule update_local_neighbors_ok[OF wf, of now now' ns])
        (use assms TaskDisconnected in \<open>auto simp: run_section_defs rest_ok_def node_ok_def routes_of_ok\<close>)
  next
    case (TaskUpdate f u)
    show ?thesis
    proof (cases "update_fresh now u (mn_topology_db n)")
      case True
      show ?thesis
        by (rule process_topology_update_fresh[OF wf True])
          (use assms TaskUpdate in \<open>auto simp: run_section_defs rest_ok_def node_ok_def routes_of_ok\<close>)
    qed (use assms TaskUpdate in \<open>auto simp: run_section_defs rest_ok_def process_topology_update_stale\<close>)
  next
    case (TaskTable routes us)
    then show ?thesis
      using assms by (auto simp: run_section_defs rest_ok_def node_ok_def flood_def table_topology_ok)
  qed
qed

lemma node_step_ok:
  assumes "node_ok n"
  shows "\<exists>n'. node_step i n = Some n' \<and> node_ok n' \<and> mn_node_id n' = mn_node_id n"
proof (cases i)
  case (SessionInput e)
  with assms show ?thesis
    by (auto simp: node_step_def on_session_event_defs spawn_def node_ok_def Let_def split: session_event.split option.split)
next
  case (CommandInput c)
  with assms show ?thesis
    by (auto simp: node_step_def on_session_command_def node_ok_def Let_def split: session_command.split option.split)
next
  case (RunTask k now now' clock)
  show ?thesis
  proof (cases "k < length (mn_tasks n)")
    case True
    then have "mn_tasks n ! k \<in> set (mn_tasks n)" by simp
    from run_section_ok[OF assms this] obtain rest n' where
      r: "run_section now now' clock (mn_tasks n ! k) n = Some (rest, n')" "rest_ok rest"
        "node_ok (n'\<lparr>mn_tasks := mn_tasks n\<rparr>)" "mn_node_id n' = mn_node_id n"
      by blast
    let ?ts = "case rest of Some task \<Rightarrow> (mn_tasks n)[k := task] | None \<Rightarrow> take k (mn_tasks n) @ drop (Suc k) (mn_tasks n)"
    have sub: "set ?ts \<subseteq> set (mn_tasks n) \<union> set_option rest"
      by (auto split: option.split dest: in_set_takeD in_set_dropD set_update_subset_insert[THEN subsetD])
    have "hm_wf routes" if "TaskTable routes us \<in> set ?ts" for routes us
    proof -
      from sub that consider "TaskTable routes us \<in> set (mn_tasks n)" | "rest = Some (TaskTable routes us)" by auto
      then show ?thesis by cases (use r(2,3) in \<open>auto simp: node_ok_def rest_ok_def\<close>)
    qed
    then have "\<forall>routes us. TaskTable routes us \<in> set ?ts \<longrightarrow> hm_wf routes" by blast
    with r RunTask True show ?thesis by (simp add: node_step_def node_ok_def)
  qed (use assms RunTask in \<open>simp add: node_step_def\<close>)
qed (use assms in \<open>auto simp: node_step_def on_received_topology_def spawn_def node_ok_def\<close>)

lemma node_run_ok: "node_ok n \<Longrightarrow> \<exists>n'. node_run inputs n = Some n' \<and> node_ok n' \<and> mn_node_id n' = mn_node_id n"
proof (induction inputs arbitrary: n)
  case (Cons i inputs)
  from node_step_ok[OF Cons.prems, of i] obtain m where "node_step i n = Some m" "node_ok m" "mn_node_id m = mn_node_id n" by blast
  with Cons.IH[of m] show ?case by simp
qed simp

lemma node_run_append: "node_run (xs @ ys) n = Option.bind (node_run xs n) (node_run ys)"
  by (induction xs arbitrary: n) (auto split: Option.bind_split)

text \<open>The sections a node has still to run: a task has two at most.\<close>

definition sections :: "node_task \<Rightarrow> nat" where
  "sections task = (case task of TaskTable _ _ \<Rightarrow> 1 | _ \<Rightarrow> 2)"

lemma run_section_shortens:
  assumes "run_section now now' clock task n = Some (rest, n')"
  shows "(case rest of Some task' \<Rightarrow> sections task' | None \<Rightarrow> 0) < sections task"
  using assms by (auto simp: run_section_defs sections_def Let_def split: node_task.splits if_splits)

lemma node_run_drains:
  assumes "node_ok n" and "sum_list (map sections (mn_tasks n)) \<le> k"
  shows "\<exists>n'. node_run (replicate k (RunTask 0 now now' clock)) n = Some n' \<and> mn_tasks n' = [] \<and> node_ok n'
    \<and> mn_node_id n' = mn_node_id n"
  using assms
proof (induction k arbitrary: n)
  case 0
  then show ?case by (cases "mn_tasks n") (auto simp: sections_def split: node_task.splits)
next
  case (Suc k)
  from node_step_ok[OF Suc.prems(1), of "RunTask 0 now now' clock"] obtain m where
    m: "node_step (RunTask 0 now now' clock) n = Some m" "node_ok m" "mn_node_id m = mn_node_id n" by blast
  have "sum_list (map sections (mn_tasks m)) \<le> k"
  proof (cases "mn_tasks n")
    case (Cons task tasks)
    then obtain rest n' where r: "run_section now now' clock task n = Some (rest, n')"
        "m = n'\<lparr>mn_tasks := (case rest of Some task' \<Rightarrow> task' # tasks | None \<Rightarrow> tasks)\<rparr>"
      using m(1) by (auto simp: node_step_def split: option.splits)
    show ?thesis using run_section_shortens[OF r(1)] Suc.prems(2) by (auto simp: r(2) Cons split: option.splits)
  qed (use m(1) in \<open>simp add: node_step_def\<close>)
  from Suc.IH[OF m(2) this] m show ?case by simp
qed

lemma sections_le: "sum_list (map sections ts) \<le> 2 * length ts"
  by (induction ts) (auto simp: sections_def split: node_task.split)

text \<open>Tasks leave the sessions of the node alone.\<close>

lemma run_section_keeps_connected:
  "run_section now now' clock task n = Some (rest, n') \<Longrightarrow> mn_connected_neighbors n' = mn_connected_neighbors n"
  by (auto simp: run_section_defs flood_def Let_def split: node_task.splits)

lemma tasks_keep_connected:
  assumes "list_all (\<lambda>i. \<exists>k now now' clock. i = RunTask k now now' clock) inputs" and "node_run inputs n = Some n'"
  shows "mn_connected_neighbors n' = mn_connected_neighbors n"
  using assms
proof (induction inputs arbitrary: n)
  case (Cons i inputs)
  from Cons.prems(2) obtain m where m: "node_step i n = Some m" "node_run inputs m = Some n'"
    by (auto split: Option.bind_splits)
  have "mn_connected_neighbors m = mn_connected_neighbors n"
    using m(1) Cons.prems(1)
    by (auto simp: node_step_def split: if_splits dest!: run_section_keeps_connected)
  with Cons.IH[OF _ m(2)] Cons.prems(1) show ?case by simp
qed simp

section \<open>Serial runs\<close>

text \<open>Every input is followed by the whole of the task it has spawned.\<close>

fun serial :: "(node_input \<times> u64 \<times> u64 \<times> (node_id \<Rightarrow> u64)) list \<Rightarrow> node_input list" where
  "serial [] = []"
| "serial ((i, now, now', clock) # inputs) =
     i # RunTask 0 now now' clock # RunTask 0 now now' clock # serial inputs"

text \<open>The routing table is the topology's.\<close>

definition follows :: "mesh_node \<Rightarrow> bool" where
  "follows n \<longleftrightarrow> (\<forall>dst. dst \<noteq> mn_node_id n \<longrightarrow> table_get_route (mn_routing_table n) dst =
     map_option (\<lambda>cr. single (next_hop_new (cr_next_hop cr) (cr_total_cost cr))) (get_route (mn_topology_db n) dst))"

text \<open>The node advertises links to exactly the neighbours it is connected to.\<close>

definition advertises :: "mesh_node \<Rightarrow> bool" where
  "advertises n \<longleftrightarrow> (\<forall>v. hm_contains (mn_connected_neighbors n) v \<longleftrightarrow>
     (\<exists>info. hm_get (db_nodes (mn_topology_db n)) (mn_node_id n) = Some info \<and> hm_contains (nd_neighbors info) v))"

definition settled :: "mesh_node \<Rightarrow> bool" where
  "settled n \<longleftrightarrow> node_ok n \<and> mn_tasks n = [] \<and> follows n \<and> advertises n"

definition input_ok :: "node_id \<Rightarrow> node_input \<Rightarrow> bool" where
  "input_ok me i \<longleftrightarrow>
     (case i of
        SessionInput (TopologyUpdateEvent u) \<Rightarrow> tu_originator_node u \<noteq> me
      | TopologyInput u \<Rightarrow> tu_originator_node u \<noteq> me
      | CommandInput (DropSession _) \<Rightarrow> False
      | RunTask _ _ _ _ \<Rightarrow> False
      | _ \<Rightarrow> True)"

lemma hm_contains_links_of:
  "hm_contains (links_of now ns m) v \<longleftrightarrow> v \<in> ni_node_id ` set ns \<or> hm_contains m v"
  by (induction now ns m rule: links_of.induct) (auto simp: hm_contains_def)

lemma neighbors_of_ids: "v \<in> ni_node_id ` set (neighbors_of c) \<longleftrightarrow> hm_contains c v"
proof -
  have "v \<in> ni_node_id ` set (neighbors_of c) \<longleftrightarrow> v \<in> set (hm_keys c)"
    by (force simp: neighbors_of_def neighbor_info_new_def hm_keys_def)
  then show ?thesis by (simp add: hm_contains_def hm_get_None_iff)
qed

lemma settled_new: "settled (mesh_node_new k g)"
proof -
  have "table_get_route (routing_table_new k) dst = None" for dst
    by (simp add: table_get_route_def routing_table_new_def)
  then show ?thesis
    using node_ok_new[of k g]
    by (simp add: settled_def follows_def advertises_def mesh_node_new_def topology_database_new_def get_route_def
        hm_contains_def)
qed

text \<open>The two sections of one task.\<close>

lemma run_both:
  assumes "mn_tasks n = [task]"
  shows "run_section now now' clock task n = Some (None, n1) \<Longrightarrow>
      node_run [RunTask 0 now now' clock, RunTask 0 now now' clock] n = Some (n1\<lparr>mn_tasks := []\<rparr>)"
    and "run_section now now' clock task n = Some (Some (TaskTable routes us), n1) \<Longrightarrow>
      node_run [RunTask 0 now now' clock, RunTask 0 now now' clock] n =
        Some (flood us (n1\<lparr>mn_routing_table := update_routes_from_topology routes (mn_routing_table n1), mn_tasks := []\<rparr>))"
proof -
  show "run_section now now' clock task n = Some (None, n1) \<Longrightarrow>
      node_run [RunTask 0 now now' clock, RunTask 0 now now' clock] n = Some (n1\<lparr>mn_tasks := []\<rparr>)"
    using assms by (simp add: node_step_def)
  assume r: "run_section now now' clock task n = Some (Some (TaskTable routes us), n1)"
  have "run_section now now' clock (TaskTable routes us) m =
      Some (None, flood us (m\<lparr>mn_routing_table := update_routes_from_topology routes (mn_routing_table m)\<rparr>))" for m
    by (simp add: run_section_defs)
  with r assms show "node_run [RunTask 0 now now' clock, RunTask 0 now now' clock] n =
        Some (flood us (n1\<lparr>mn_routing_table := update_routes_from_topology routes (mn_routing_table n1), mn_tasks := []\<rparr>))"
    by (simp add: node_step_def flood_def)
qed

lemma follows_topology:
  assumes "db_ok (mn_topology_db n)" and "table_ok t" and "rt_local_node_id t = mn_node_id n"
    and "mn_routing_table n = update_routes_from_topology (get_routes (mn_topology_db n)) t"
  shows "follows n"
  using update_routes_from_topology_get[OF routes_of_ok[OF assms(1)], of t] assms
  by (auto simp: follows_def table_ok_def get_route_def get_routes_def)

text \<open>A change of the own links, and an update of another node.\<close>

lemma local_task_settles:
  assumes "node_ok n" and "task = TaskConnected ns \<or> task = TaskDisconnected ns" and "mn_tasks n = [task]"
    and "ns = neighbors_of (mn_connected_neighbors n)"
  shows "\<exists>n' u. node_run [RunTask 0 now now' clock, RunTask 0 now now' clock] n = Some n' \<and> settled n'
    \<and> mn_node_id n' = mn_node_id n \<and> mn_connected_neighbors n' = mn_connected_neighbors n
    \<and> update_local_neighbors now now' ns (mn_topology_db n) = Some (u, mn_topology_db n')
    \<and> mn_topology_updates n' = map_option (\<lambda>us. us @ u #
        (if task = TaskConnected ns then get_all_topology_updates clock (mn_topology_db n) else [])) (mn_topology_updates n)"
proof -
  have wf: "db_wf (mn_topology_db n)" using assms(1) by (simp add: node_ok_def db_ok_def)
  obtain u db' where db': "update_local_neighbors now now' ns (mn_topology_db n) = Some (u, db')" "db_ok db'"
      "db_local_node_id db' = db_local_node_id (mn_topology_db n)"
      "hm_get (db_nodes db') (db_local_node_id (mn_topology_db n)) = Some \<lparr>nd_node_id = db_local_node_id (mn_topology_db n),
         nd_sequence_number = db_local_sequence (mn_topology_db n), nd_last_updated = now, nd_neighbors = links_of now ns []\<rparr>"
    by (rule update_local_neighbors_ok[OF wf, of now now' ns]) auto
  define us where "us = (if task = TaskConnected ns then u # get_all_topology_updates clock (mn_topology_db n) else [u])"
  have "run_section now now' clock task n = Some (Some (TaskTable (get_routes db') us), n\<lparr>mn_topology_db := db'\<rparr>)"
    using assms(2) db'(1) by (auto simp: run_section_defs us_def)
  from run_both(2)[OF assms(3) this]
  have run: "node_run [RunTask 0 now now' clock, RunTask 0 now now' clock] n = Some (flood us (n\<lparr>mn_topology_db := db',
      mn_routing_table := update_routes_from_topology (get_routes db') (mn_routing_table n), mn_tasks := []\<rparr>))"
    by (simp add: flood_def)
  let ?n = "flood us (n\<lparr>mn_topology_db := db',
      mn_routing_table := update_routes_from_topology (get_routes db') (mn_routing_table n), mn_tasks := []\<rparr>)"
  have "node_ok ?n" using assms(1) db'(2,3) by (simp add: node_ok_def flood_def table_topology_ok)
  moreover have "follows ?n"
    by (rule follows_topology[where t = "mn_routing_table n"]) (use assms(1) db'(2) in \<open>simp_all add: node_ok_def flood_def\<close>)
  moreover have "advertises ?n"
    using assms(1,4) db'(4) neighbors_of_ids[of _ "mn_connected_neighbors n"]
    by (simp add: advertises_def flood_def node_ok_def hm_contains_links_of) (simp add: hm_contains_def)
  ultimately show ?thesis using run db'(1) by (intro exI[of _ ?n] exI[of _ u]) (simp add: settled_def flood_def us_def)
qed

lemma update_task_settles:
  assumes "node_ok n" and "mn_tasks n = [TaskUpdate f u]" and "follows n" and "advertises n"
    and "tu_originator_node u \<noteq> mn_node_id n"
  shows "\<exists>n'. node_run [RunTask 0 now now' clock, RunTask 0 now now' clock] n = Some n' \<and> settled n'
    \<and> mn_node_id n' = mn_node_id n
    \<and> mn_topology_updates n' = map_option (\<lambda>us. us @ (if update_fresh now u (mn_topology_db n) \<and> f \<and> tu_ttl u > 1
        then [u\<lparr>tu_ttl := tu_ttl u - 1\<rparr>] else [])) (mn_topology_updates n)
    \<and> process_topology_update now u (mn_topology_db n) = Some (update_fresh now u (mn_topology_db n), mn_topology_db n')"
proof (cases "update_fresh now u (mn_topology_db n)")
  case False
  then have "run_section now now' clock (TaskUpdate f u) n = Some (None, n)"
    by (simp add: run_section_defs process_topology_update_stale)
  from run_both(1)[OF assms(2) this] assms False show ?thesis
    by (auto simp: settled_def node_ok_def follows_def advertises_def option.map_id[unfolded id_def] process_topology_update_stale)
next
  case True
  have wf: "db_wf (mn_topology_db n)" using assms(1) by (simp add: node_ok_def db_ok_def)
  obtain db' where db': "process_topology_update now u (mn_topology_db n) = Some (True, db')" "db_ok db'"
      "db_local_node_id db' = db_local_node_id (mn_topology_db n)"
      "\<And>v. v \<noteq> tu_originator_node u \<Longrightarrow> hm_get (db_nodes db') v = hm_get (db_nodes (mn_topology_db n)) v"
    by (rule process_topology_update_fresh[OF wf True]) auto
  define us where "us = (if f \<and> tu_ttl u > 1 then [u\<lparr>tu_ttl := tu_ttl u - 1\<rparr>] else [])"
  have "run_section now now' clock (TaskUpdate f u) n =
      Some (Some (TaskTable (get_routes db') us), n\<lparr>mn_topology_db := db'\<rparr>)"
    using db'(1) by (simp add: run_section_defs us_def)
  from run_both(2)[OF assms(2) this]
  have run: "node_run [RunTask 0 now now' clock, RunTask 0 now now' clock] n = Some (flood us (n\<lparr>mn_topology_db := db',
      mn_routing_table := update_routes_from_topology (get_routes db') (mn_routing_table n), mn_tasks := []\<rparr>))"
    by (simp add: flood_def)
  let ?n = "flood us (n\<lparr>mn_topology_db := db',
      mn_routing_table := update_routes_from_topology (get_routes db') (mn_routing_table n), mn_tasks := []\<rparr>)"
  have "node_ok ?n" using assms(1) db'(2,3) by (simp add: node_ok_def flood_def table_topology_ok)
  moreover have "follows ?n"
    by (rule follows_topology[where t = "mn_routing_table n"]) (use assms(1) db'(2) in \<open>simp_all add: node_ok_def flood_def\<close>)
  moreover have "advertises ?n" using assms(4,5) db'(4) by (simp add: advertises_def flood_def)
  ultimately show ?thesis using run True db'(1) by (simp add: settled_def flood_def us_def)
qed


text \<open>The rounds of a serial run.\<close>

lemma node_run_idle:
  "mn_tasks n = [] \<Longrightarrow> node_run [RunTask 0 now now' clock, RunTask 0 now now' clock] n = Some n"
  by (simp add: node_step_def)

lemma settled_idle:
  assumes "settled n" and "mn_tasks n' = []" and "mn_node_id n' = mn_node_id n"
    and "mn_connected_neighbors n' = mn_connected_neighbors n" and "mn_topology_db n' = mn_topology_db n"
    and "mn_routing_table n' = mn_routing_table n"
  shows "settled n'"
  using assms by (simp add: settled_def node_ok_def follows_def advertises_def)

text \<open>A task on the own links, spawned on a node that had none.\<close>

lemma spawned_local_settles:
  assumes "settled n" and "mn_tasks n' = [task]" and "mn_node_id n' = mn_node_id n"
    and "mn_topology_db n' = mn_topology_db n" and "mn_routing_table n' = mn_routing_table n"
    and "task = TaskConnected (neighbors_of (mn_connected_neighbors n')) \<or>
      task = TaskDisconnected (neighbors_of (mn_connected_neighbors n'))"
  shows "\<exists>n''. node_run [RunTask 0 now now' clock, RunTask 0 now now' clock] n' = Some n'' \<and> settled n''
    \<and> mn_node_id n'' = mn_node_id n"
proof -
  have "node_ok n'" using assms by (auto simp: settled_def node_ok_def)
  from local_task_settles[OF this assms(6) assms(2) refl, of now now' clock] assms(3) show ?thesis by fastforce
qed

lemma spawned_update_settles:
  assumes "settled n" and "n' = spawn (TaskUpdate f u) n0" and "mn_tasks n0 = []" and "mn_node_id n0 = mn_node_id n"
    and "mn_topology_db n0 = mn_topology_db n" and "mn_routing_table n0 = mn_routing_table n"
    and "mn_connected_neighbors n0 = mn_connected_neighbors n" and "tu_originator_node u \<noteq> mn_node_id n"
  shows "\<exists>n''. node_run [RunTask 0 now now' clock, RunTask 0 now now' clock] n' = Some n'' \<and> settled n''
    \<and> mn_node_id n'' = mn_node_id n
    \<and> mn_topology_updates n'' = map_option (\<lambda>us. us @ (if update_fresh now u (mn_topology_db n) \<and> f \<and> tu_ttl u > 1
        then [u\<lparr>tu_ttl := tu_ttl u - 1\<rparr>] else [])) (mn_topology_updates n0)
    \<and> process_topology_update now u (mn_topology_db n) = Some (update_fresh now u (mn_topology_db n), mn_topology_db n'')"
proof -
  have "node_ok n'" "mn_tasks n' = [TaskUpdate f u]" "follows n'" "advertises n'" "tu_originator_node u \<noteq> mn_node_id n'"
    using assms by (auto simp: settled_def node_ok_def follows_def advertises_def spawn_def)
  from update_task_settles[OF this, of now now' clock] assms(2,4,5) show ?thesis by (simp add: spawn_def)
qed

lemma serial_round_settles:
  assumes "settled n" and "input_ok (mn_node_id n) i"
  shows "\<exists>n'. node_run [i, RunTask 0 now now' clock, RunTask 0 now now' clock] n = Some n' \<and> settled n'
    \<and> mn_node_id n' = mn_node_id n"
proof -
  let ?run = "node_run [RunTask 0 now now' clock, RunTask 0 now now' clock]"
  have idle: "mn_tasks n = []" using assms(1) by (simp add: settled_def)
  obtain m where m: "node_step i n = Some m"
    using node_step_ok assms(1) by (auto simp: settled_def)
  have "\<exists>n'. ?run m = Some n' \<and> settled n' \<and> mn_node_id n' = mn_node_id n"
  proof (cases i)
    case (SessionInput e)
    with m have m: "m = on_session_event e n" by (simp add: node_step_def)
    show ?thesis
    proof (cases e)
      case (Connected peer k)
      show ?thesis
        by (rule spawned_local_settles[OF assms(1), where task = "TaskConnected (neighbors_of (mn_connected_neighbors m))"])
          (simp_all add: m Connected on_session_event_defs spawn_def Let_def idle)
    next
      case (Disconnected k)
      show ?thesis
      proof (cases k)
        case None
        have "settled m" "mn_tasks m = []" "mn_node_id m = mn_node_id n"
          using settled_idle[OF assms(1), of m] by (simp_all add: m Disconnected None on_session_event_defs idle)
        then show ?thesis using node_run_idle[of m] by simp
      next
        case (Some j)
        show ?thesis
          by (rule spawned_local_settles[OF assms(1), where task = "TaskDisconnected (neighbors_of (mn_connected_neighbors m))"])
            (simp_all add: m Disconnected Some on_session_event_defs spawn_def Let_def idle)
      qed
    next
      case (TopologyUpdateEvent u)
      show ?thesis
      proof (cases "mn_manager_events n")
        case None
        then have "m = spawn (TaskUpdate False u) (n\<lparr>mn_manager_events := None\<rparr>)"
          by (simp add: m TopologyUpdateEvent on_session_event_defs)
        from spawned_update_settles[OF assms(1) this, of now now' clock] assms(2) idle show ?thesis
          by (auto simp: input_ok_def SessionInput TopologyUpdateEvent)
      next
        case (Some es)
        have "settled m" "mn_tasks m = []" "mn_node_id m = mn_node_id n"
          using settled_idle[OF assms(1), of m] by (simp_all add: m TopologyUpdateEvent Some on_session_event_defs idle)
        then show ?thesis using node_run_idle[of m] by simp
      qed
    qed (use settled_idle[OF assms(1), of m] node_run_idle[of m] in \<open>simp_all add: m on_session_event_defs idle\<close>)
  next
    case (TopologyInput u)
    then show ?thesis
      using spawned_update_settles[OF assms(1) refl idle refl refl refl refl, where u = u and f = True and now = now and now' = now' and clock = clock] m assms(2)
      by (auto simp: node_step_def on_received_topology_def input_ok_def)
  next
    case (CommandInput c)
    then obtain addr where "c = AddSession addr" using assms(2) by (cases c) (auto simp: input_ok_def)
    then show ?thesis
      using settled_idle[OF assms(1), of m] node_run_idle[of m] m CommandInput
      by (auto simp: node_step_def on_session_command_def idle)
  qed (use assms(2) in \<open>simp add: input_ok_def\<close>)
  with m show ?thesis by simp
qed

lemma serial_settles:
  assumes "settled n" and "list_all (\<lambda>(i, _). input_ok (mn_node_id n) i) inputs"
  shows "\<exists>n'. node_run (serial inputs) n = Some n' \<and> settled n' \<and> mn_node_id n' = mn_node_id n"
  using assms
proof (induction inputs arbitrary: n)
  case (Cons x inputs)
  obtain i now now' clock where x: "x = (i, now, now', clock)" by (cases x) auto
  from serial_round_settles[OF Cons.prems(1), of i now now' clock] Cons.prems(2) obtain m where
    m: "node_run [i, RunTask 0 now now' clock, RunTask 0 now now' clock] n = Some m" "settled m" "mn_node_id m = mn_node_id n"
    by (auto simp: x)
  have "node_run (serial (x # inputs)) n = node_run (serial inputs) m"
    using node_run_append[of "[i, RunTask 0 now now' clock, RunTask 0 now now' clock]" "serial inputs" n]
    unfolding m(1) x by simp
  with Cons.IH[OF m(2)] m(3) Cons.prems(2) show ?case by simp
qed simp


section \<open>Concrete runs\<close>

text \<open>The clock of the examples.\<close>

definition noon :: "node_id \<Rightarrow> u64" where
  "noon _ = 0"

text \<open>
  Two updates of one node, of which the tasks interleave: the second is the first to reach the routing table, and the table
  ends with the routes of the first, which the database has replaced.
\<close>

definition link_update :: "node_id \<Rightarrow> u64 \<Rightarrow> node_id \<Rightarrow> topology_update" where
  "link_update from number to =
     topology_update_new 0 from number [neighbor_info_new to 100 None] DEFAULT_TOPOLOGY_TTL"

definition stale_run :: "node_input list" where
  "stale_run =
     [SessionInput (Connected ''b'' 2), RunTask 0 0 0 noon, RunTask 0 0 0 noon,
      TopologyInput (link_update 2 1 3), TopologyInput (link_update 2 2 4),
      RunTask 0 0 0 noon, RunTask 1 0 0 noon,
      RunTask 1 0 0 noon, RunTask 0 0 0 noon]"


text \<open>The tasks of two connections, in the other order: the database ends with the neighbours of the first.\<close>

definition swapped_run :: "node_input list" where
  "swapped_run =
     [SessionInput (Connected ''b'' 2), SessionInput (Connected ''c'' 3),
      RunTask 1 0 0 noon, RunTask 1 0 0 noon, RunTask 0 0 0 noon, RunTask 0 0 0 noon]"

lemmas node_eval = node_step_def run_section_defs on_session_event_defs spawn_def mesh_node_new_def neighbors_of_def
  on_received_topology_def topo_eval neighbor_info_new_def get_routes_def get_all_topology_updates_def
  update_routes_from_topology_def flood_def routing_table_new_def table_get_route_def single_def next_hop_new_def
  hm_retain_def

lemma stale_table:
  "\<exists>n. node_run stale_run (mesh_node_new 1 True) = Some n \<and> mn_tasks n = []
     \<and> get_route (mn_topology_db n) 4 \<noteq> None \<and> table_get_route (mn_routing_table n) 4 = None
     \<and> get_route (mn_topology_db n) 3 = None \<and> table_get_route (mn_routing_table n) 3 \<noteq> None"
  by (simp add: node_eval stale_run_def link_update_def)

lemma lost_neighbor:
  "\<exists>n. node_run swapped_run (mesh_node_new 1 True) = Some n \<and> mn_tasks n = []
     \<and> hm_contains (mn_connected_neighbors n) 3 \<and> table_get_route (mn_routing_table n) 3 = None"
  by (simp add: node_eval swapped_run_def hm_contains_def)

text \<open>A command to drop a session leaves the topology and the routes as they are.\<close>

lemma drop_session_keeps_routes:
  "mn_topology_db (on_session_command (DropSession k) n) = mn_topology_db n"
  "mn_routing_table (on_session_command (DropSession k) n) = mn_routing_table n"
  "mn_tasks (on_session_command (DropSession k) n) = mn_tasks n"
  by (simp_all add: on_session_command_def Let_def split: option.split)

text \<open>The links of the bootstrap are gone with the first connection: the neighbours of the task are those connected.\<close>

definition bootstrap_run :: "mesh_node option" where
  "bootstrap_run = Option.bind (bootstrap 0 0 [(9001, ''b''), (9002, ''c'')] (mesh_node_new 1 True))
     (node_run [SessionInput (Connected ''b'' 2002), RunTask 0 0 0 noon, RunTask 0 0 0 noon])"

lemma bootstrap_forgotten:
  "\<exists>n. bootstrap 0 0 [(9001, ''b''), (9002, ''c'')] (mesh_node_new 1 True) = Some n
     \<and> table_get_route (mn_routing_table n) 3003 \<noteq> None"
  "\<exists>n. bootstrap_run = Some n \<and> table_get_route (mn_routing_table n) 3003 = None"
  by (simp_all add: node_eval bootstrap_run_def bootstrap_def bootstrap_neighbors_def bootstrap_node_id_def)

section \<open>Properties\<close>

text \<open>What the inputs of a run say about the peers of the node, and what they hand to the session manager.\<close>

definition peer_step :: "node_input \<Rightarrow> node_id set \<Rightarrow> node_id set" where
  "peer_step i peers =
     (case i of
        SessionInput (Connected addr v) \<Rightarrow> insert v peers
      | SessionInput (Disconnected (Some v)) \<Rightarrow> peers - {v}
      | CommandInput (DropSession v) \<Rightarrow> peers - {v}
      | _ \<Rightarrow> peers)"

definition peers_of :: "node_input list \<Rightarrow> node_id set" where
  "peers_of inputs = fold peer_step inputs {}"

definition session_events :: "node_input list \<Rightarrow> session_event list" where
  "session_events inputs = List.map_filter (\<lambda>i. case i of SessionInput e \<Rightarrow> Some e | _ \<Rightarrow> None) inputs"

definition peers :: "mesh_node \<Rightarrow> node_id set" where
  "peers n = {v. hm_contains (mn_connected_neighbors n) v}"

lemma run_section_keeps_manager:
  "run_section now now' clock task n = Some (rest, n') \<Longrightarrow>
    mn_manager_events n' = mn_manager_events n \<and> mn_connected_neighbors n' = mn_connected_neighbors n"
  by (auto simp: run_section_defs flood_def Let_def split: node_task.splits)

lemma node_step_view:
  assumes "node_step i n = Some m"
  shows "peers m = peer_step i (peers n) \<and> mn_manager_events m = map_option (\<lambda>es. es @ session_events [i]) (mn_manager_events n)"
proof (cases i)
  case (SessionInput e)
  with assms have m: "m = on_session_event e n" by (simp add: node_step_def)
  show ?thesis
    unfolding m SessionInput
    by (cases e) (auto simp: peers_def peer_step_def on_session_event_defs spawn_def session_events_def List.map_filter_simps
        hm_contains_def Let_def split: option.splits)
next
  case (CommandInput c)
  with assms have m: "m = on_session_command c n" by (simp add: node_step_def)
  show ?thesis
    unfolding m CommandInput
    by (cases c) (auto simp: peers_def peer_step_def on_session_command_def session_events_def List.map_filter_simps hm_contains_def
        option.map_id[unfolded id_def] Let_def split: option.splits)
next
  case (RunTask k now now' clock)
  with assms show ?thesis
    by (auto simp: node_step_def peers_def peer_step_def session_events_def List.map_filter_simps option.map_id[unfolded id_def]
        split: if_splits dest!: run_section_keeps_manager)
qed (use assms in \<open>auto simp: node_step_def peers_def peer_step_def on_received_topology_def spawn_def session_events_def
      List.map_filter_simps option.map_id[unfolded id_def]\<close>)

lemma session_events_simps [simp]:
  "session_events [] = []" "session_events (xs @ ys) = session_events xs @ session_events ys"
  by (simp_all add: session_events_def List.map_filter_def)

lemma node_run_view:
  assumes "node_run inputs n = Some n'"
  shows "peers n' = fold peer_step inputs (peers n)
    \<and> mn_manager_events n' = map_option (\<lambda>es. es @ session_events inputs) (mn_manager_events n)"
  using assms
proof (induction inputs arbitrary: n)
  case (Cons i inputs)
  from Cons.prems obtain m where m: "node_step i n = Some m" "node_run inputs m = Some n'" by (auto split: Option.bind_splits)
  from node_step_view[OF m(1)] Cons.IH[OF m(2)] show ?case
    using session_events_simps(2)[of "[i]" inputs] by (simp add: option.map_comp comp_def)
qed (simp add: option.map_id[unfolded id_def])

lemma peers_new [simp]: "peers (mesh_node_new k g) = {}"
  by (simp add: peers_def mesh_node_new_def hm_contains_def)

text \<open>From any state without tasks, whatever has gone before, the next change of a session puts everything in order.\<close>

lemma session_change_settles:
  assumes "node_ok n" and "mn_tasks n = []" and "e = (if up then Connected addr v else Disconnected (Some v))"
  shows "\<exists>n' u. node_run (serial [(SessionInput e, now, now', clock)]) n = Some n' \<and> settled n' \<and> mn_node_id n' = mn_node_id n
    \<and> update_local_neighbors now now' (neighbors_of (mn_connected_neighbors n')) (mn_topology_db n) = Some (u, mn_topology_db n')
    \<and> mn_topology_updates n' = map_option (\<lambda>us. us @ u #
        (if up then get_all_topology_updates clock (mn_topology_db n) else [])) (mn_topology_updates n)"
proof -
  define m where "m = on_session_event e n"
  let ?ns = "neighbors_of (mn_connected_neighbors m)"
  let ?task = "if up then TaskConnected ?ns else TaskDisconnected ?ns"
  have m: "node_ok m" "mn_tasks m = [?task]" "mn_topology_db m = mn_topology_db n" "mn_node_id m = mn_node_id n"
      "mn_topology_updates m = mn_topology_updates n"
    using assms by (auto simp: m_def on_session_event_defs spawn_def node_ok_def Let_def)
  have "?task = TaskConnected ?ns \<or> ?task = TaskDisconnected ?ns" by simp
  from local_task_settles[OF m(1) this m(2) refl, of now now' clock] m(3-5) show ?thesis
    by (auto simp: node_step_def m_def)
qed

text \<open>
  C8: Whatever the inputs of a node and in whatever order its tasks take their turns, the node goes on and finds its way back. Every schedule
  runs to its end, and there the node counts as its peers exactly those whose last event was a connection, and
  has handed every session event to the session manager, in order. Two sections for each task that is left are enough to
  run them all. After that the database and the routing table may still disagree with the sessions, when tasks have overtaken each other; but
  the next session that comes or goes, worked off alone, puts that right: the node advertises exactly its peers, its routes
  are the shortest paths, its routing table has them, and it floods its new links, to a new peer with all it knows.
\<close>

theorem node_recovers:
  "\<exists>n n' n'' u. node_run inputs (mesh_node_new me grpc) = Some n
     \<and> peers n = peers_of inputs \<and> mn_manager_events n = (if grpc then Some (session_events inputs) else None)
     \<and> node_run (replicate (2 * length (mn_tasks n)) (RunTask 0 now now' clock)) n = Some n' \<and> mn_tasks n' = []
     \<and> node_run (serial [(SessionInput (if up then Connected addr v else Disconnected (Some v)), unix, unix', clock')]) n' = Some n''
     \<and> mn_tasks n'' = [] \<and> peers n'' = (if up then insert v (peers_of inputs) else peers_of inputs - {v})
     \<and> routes_ok (mn_topology_db n'') \<and> follows n'' \<and> advertises n''
     \<and> update_local_neighbors unix unix' (neighbors_of (mn_connected_neighbors n'')) (mn_topology_db n') = Some (u, mn_topology_db n'')
     \<and> mn_topology_updates n'' = map_option (\<lambda>us. us @ u #
         (if up then get_all_topology_updates clock' (mn_topology_db n') else [])) (mn_topology_updates n')"
proof -
  let ?e = "if up then Connected addr v else Disconnected (Some v)"
  from node_run_ok[OF node_ok_new[of me grpc], of inputs] obtain n where
    n: "node_run inputs (mesh_node_new me grpc) = Some n" "node_ok n" by blast
  from node_run_drains[OF n(2) sections_le, of now now' clock] obtain n' where
    n': "node_run (replicate (2 * length (mn_tasks n)) (RunTask 0 now now' clock)) n = Some n'" "mn_tasks n' = []" "node_ok n'" by blast
  from session_change_settles[OF n'(3,2) refl, of up addr v unix unix' clock'] obtain n'' u where
    n'': "node_run (serial [(SessionInput ?e, unix, unix', clock')]) n' = Some n''" "settled n''"
      "update_local_neighbors unix unix' (neighbors_of (mn_connected_neighbors n'')) (mn_topology_db n') = Some (u, mn_topology_db n'')"
      "mn_topology_updates n'' = map_option (\<lambda>us. us @ u #
         (if up then get_all_topology_updates clock' (mn_topology_db n') else [])) (mn_topology_updates n')"
    by blast
  have "fold peer_step (replicate k (RunTask 0 now now' clock)) p = p" for k p by (induction k) (simp_all add: peer_step_def)
  then have p: "peers n = peers_of inputs" "peers n' = peers n" "mn_manager_events n = (if grpc then Some (session_events inputs) else None)"
    using node_run_view[OF n(1)] node_run_view[OF n'(1)] by (simp_all add: peers_of_def) (simp add: mesh_node_new_def)
  moreover have "peers n'' = (if up then insert v (peers n') else peers n' - {v})"
    using node_run_view[OF n''(1)] by (simp add: peer_step_def)
  ultimately show ?thesis using n n' n'' by (auto simp: settled_def node_ok_def db_ok_def)
qed

text \<open>
  C5: When every event is worked off before the next one comes, the routes of the node follow the topology. After any such
  run, over connections and disconnections of sessions and updates of other nodes, the database has the shortest paths, the routing
  table has for every other node the one next hop of the shortest path, or no route where there is no path, the node
  advertises links to exactly the peers it is connected to, and a further update of another node is flooded, with its
  time to live one less, exactly when it is news and its time to live is more than one.
\<close>

theorem node_routes_follow_topology:
  assumes "list_all (\<lambda>(i, _). input_ok node_id i) inputs"
  shows "\<exists>n. node_run (serial inputs) (mesh_node_new node_id enable_grpc) = Some n
     \<and> mn_tasks n = [] \<and> routes_ok (mn_topology_db n) \<and> follows n \<and> advertises n
     \<and> (\<forall>u now now' clock. tu_originator_node u \<noteq> node_id \<longrightarrow>
          (\<exists>n'. node_run (serial [(TopologyInput u, now, now', clock)]) n = Some n' \<and> follows n' \<and> advertises n'
             \<and> mn_topology_updates n' = map_option (\<lambda>us. us @
                 (if update_fresh now u (mn_topology_db n) \<and> tu_ttl u > 1 then [u\<lparr>tu_ttl := tu_ttl u - 1\<rparr>] else []))
                 (mn_topology_updates n)))"
proof -
  have "mn_node_id (mesh_node_new node_id enable_grpc) = node_id" by (simp add: mesh_node_new_def)
  with serial_settles[OF settled_new[of node_id enable_grpc], of inputs] assms obtain n where
    n: "node_run (serial inputs) (mesh_node_new node_id enable_grpc) = Some n" "settled n" "mn_node_id n = node_id"
    by auto
  have idle: "mn_tasks n = []" using n(2) by (simp add: settled_def)
  have "\<exists>n'. node_run (serial [(TopologyInput u, now, now', clock)]) n = Some n' \<and> follows n' \<and> advertises n'
      \<and> mn_topology_updates n' = map_option (\<lambda>us. us @
         (if update_fresh now u (mn_topology_db n) \<and> tu_ttl u > 1 then [u\<lparr>tu_ttl := tu_ttl u - 1\<rparr>] else []))
         (mn_topology_updates n)" if "tu_originator_node u \<noteq> node_id" for u now now' clock
    using spawned_update_settles[OF n(2) refl idle refl refl refl refl, where u = u and f = True and now = now
        and now' = now' and clock = clock] that n(3)
    by (auto simp: node_step_def[of "TopologyInput _"] on_received_topology_def settled_def)
  with n show ?thesis by (auto simp: settled_def node_ok_def db_ok_def)
qed


definition three_inputs :: "(node_input \<times> u64 \<times> u64 \<times> (node_id \<Rightarrow> u64)) list" where
  "three_inputs =
     [(SessionInput (Connected ''b'' 2), 0, 0, noon), (TopologyInput (link_update 2 1 3), 0, 0, noon),
      (SessionInput (Disconnected None), 0, 0, noon)]"

lemma three_inputs_run:
  "\<exists>n. node_run (serial three_inputs) (mesh_node_new 1 True) = Some n
     \<and> update_fresh 0 (link_update 2 2 4) (mn_topology_db n)"
  by (simp add: node_eval three_inputs_def link_update_def update_fresh_def)

theorem node_routes_follow_topology_witness:
  "\<exists>n. node_run (serial three_inputs) (mesh_node_new 1 True) = Some n \<and> follows n \<and> advertises n
     \<and> (\<exists>n'. node_run (serial [(TopologyInput (link_update 2 2 4), 0, 0, noon)]) n = Some n'
          \<and> mn_topology_updates n' = map_option (\<lambda>us. us @ [(link_update 2 2 4)\<lparr>tu_ttl := 7\<rparr>]) (mn_topology_updates n))"
proof -
  have "list_all (\<lambda>(i, _). input_ok 1 i) three_inputs"
    by (simp add: three_inputs_def input_ok_def link_update_def topology_update_new_def)
  from node_routes_follow_topology[OF this, of True] obtain n where
    n: "node_run (serial three_inputs) (mesh_node_new 1 True) = Some n" "follows n" "advertises n"
      "\<And>u now now' clock. tu_originator_node u \<noteq> 1 \<Longrightarrow>
          \<exists>n'. node_run (serial [(TopologyInput u, now, now', clock)]) n = Some n'
             \<and> mn_topology_updates n' = map_option (\<lambda>us. us @
                 (if update_fresh now u (mn_topology_db n) \<and> tu_ttl u > 1 then [u\<lparr>tu_ttl := tu_ttl u - 1\<rparr>] else []))
                 (mn_topology_updates n)"
    by blast
  have "tu_originator_node (link_update 2 2 4) \<noteq> 1" "tu_ttl (link_update 2 2 4) = 8"
    by (simp_all add: link_update_def topology_update_new_def DEFAULT_TOPOLOGY_TTL_def)
  moreover have "update_fresh 0 (link_update 2 2 4) (mn_topology_db n)" using three_inputs_run n(1) by simp
  ultimately show ?thesis using n(1-3) n(4)[of "link_update 2 2 4" 0 0 noon] by simp
qed

end
