(* ===== verification/F64.thy ===== *)
theory F64
  imports Prelude "HOL-Library.Log_Nat"
begin

text \<open>
  The double-precision numbers the reports compute with: values that are not negative, as rationals, and the operations as exact
  operations followed by rounding to 53 significant bits, to the nearest and to even on a tie. The quotients and products
  of counters never leave the range of normal numbers, so that subnormal numbers and infinities do not occur.
\<close>

type_synonym f64 = rat

section \<open>Rounding\<close>

definition round_even :: "rat \<Rightarrow> int" where
  "round_even y =
     (let f = \<lfloor>y\<rfloor>; r = y - of_int f
      in if r < 1 / 2 then f else if r > 1 / 2 then f + 1 else if even f then f else f + 1)"

text \<open>The exponent of a positive number: \<open>2 powi e \<le> x < 2 powi (e + 1)\<close>.\<close>

definition f64_exponent :: "rat \<Rightarrow> int" where
  "f64_exponent x =
     (case quotient_of x of (n, d) \<Rightarrow>
        let k = bitlen n - bitlen d in if 2 powi k \<le> x then k else k - 1)"

definition f64_round :: "rat \<Rightarrow> f64" where
  "f64_round x =
     (if x \<le> 0 then 0
      else let ulp = 2 powi (f64_exponent x - 52) in of_int (round_even (x / ulp)) * ulp)"

definition f64_of_nat :: "nat \<Rightarrow> f64" where
  "f64_of_nat n = f64_round (of_nat n)"

definition f64_div :: "f64 \<Rightarrow> f64 \<Rightarrow> f64" where
  "f64_div x y = f64_round (x / y)"

definition f64_mul :: "f64 \<Rightarrow> f64 \<Rightarrow> f64" where
  "f64_mul x y = f64_round (x * y)"

section \<open>What rounding does\<close>

lemma round_even_bounds: "\<lfloor>y\<rfloor> \<le> round_even y" "round_even y \<le> \<lfloor>y\<rfloor> + 1"
  by (auto simp: round_even_def Let_def)

lemma round_even_mono:
  assumes "x \<le> y"
  shows "round_even x \<le> round_even y"
proof (cases "\<lfloor>x\<rfloor> = \<lfloor>y\<rfloor>")
  case True
  with assms have "x - of_int \<lfloor>y\<rfloor> \<le> y - of_int \<lfloor>y\<rfloor>" by simp
  then show ?thesis unfolding round_even_def Let_def True by (auto simp: not_less)
next
  case False
  have "\<lfloor>x\<rfloor> \<le> \<lfloor>y\<rfloor>" using assms by (rule floor_mono)
  with False have "\<lfloor>x\<rfloor> + 1 \<le> \<lfloor>y\<rfloor>" by simp
  with round_even_bounds[of x] round_even_bounds[of y] show ?thesis by linarith
qed

lemma round_even_of_int [simp]: "round_even (of_int i) = i"
  by (simp add: round_even_def)

lemma round_even_error: "\<bar>of_int (round_even y) - y\<bar> \<le> 1 / 2"
proof -
  define r where "r = y - of_int \<lfloor>y\<rfloor>"
  have "0 \<le> r" "r < 1" using floor_correct[of y] by (simp_all add: r_def algebra_simps)
  moreover have y: "y = of_int \<lfloor>y\<rfloor> + r" by (simp add: r_def)
  have "of_int (round_even y) - y = (if r < 1 / 2 then - r else if r > 1 / 2 then 1 - r else if even \<lfloor>y\<rfloor> then - r else 1 - r)"
    unfolding round_even_def Let_def r_def[symmetric] using y by auto
  ultimately show ?thesis by (auto simp: abs_if)
qed

lemma bitlen_powi:
  assumes "0 < n"
  shows "(2 :: rat) powi (bitlen n - 1) \<le> of_int n" and "of_int n < (2 :: rat) powi bitlen n"
proof -
  have "1 \<le> bitlen n" using assms bitlen_eq_zero_iff[of n] bitlen_nonneg[of n] by linarith
  moreover have "(2 :: rat) ^ nat (bitlen n - 1) \<le> of_int n" "of_int n < (2 :: rat) ^ nat (bitlen n)"
    using bitlen_bounds[OF assms] by (metis of_int_le_iff of_int_numeral of_int_power, metis of_int_less_iff of_int_numeral of_int_power)
  ultimately show "(2 :: rat) powi (bitlen n - 1) \<le> of_int n" "of_int n < (2 :: rat) powi bitlen n"
    by (simp_all add: power_int_def)
qed

lemma f64_exponent:
  assumes "0 < x"
  shows "2 powi f64_exponent x \<le> x" and "x < 2 powi (f64_exponent x + 1)"
proof -
  obtain n d where q: "quotient_of x = (n, d)" by (metis surj_pair)
  have d: "0 < d" using quotient_of_denom_pos[OF q] .
  have x: "x = of_int n / of_int d" using quotient_of_div[OF q] .
  then have n: "0 < n" using assms d by (simp add: zero_less_divide_iff)
  define k where "k = bitlen n - bitlen d"
  have "x < 2 powi bitlen n / 2 powi (bitlen d - 1)"
    unfolding x using bitlen_powi[OF n] bitlen_powi[OF d] d n by (intro frac_less) simp_all
  also have "\<dots> = 2 powi (k + 1)" by (simp add: k_def algebra_simps flip: power_int_diff)
  finally have up: "x < 2 powi (k + 1)" .
  have "2 powi (k - 1) = (2 :: rat) powi (bitlen n - 1) / 2 powi bitlen d"
    by (simp add: k_def algebra_simps flip: power_int_diff)
  also have "\<dots> \<le> x"
    unfolding x using bitlen_powi[OF n] bitlen_powi[OF d] d n by (intro frac_le) simp_all
  finally have down: "2 powi (k - 1) \<le> x" .
  have e: "f64_exponent x = (if 2 powi k \<le> x then k else k - 1)" by (simp add: f64_exponent_def q k_def)
  show "2 powi f64_exponent x \<le> x" "x < 2 powi (f64_exponent x + 1)"
    using up down by (auto simp: e)
qed

text \<open>The significand of a positive number has 53 bits, and rounding keeps it between the powers of two around it.\<close>

definition ulp :: "rat \<Rightarrow> rat" where
  "ulp x = 2 powi (f64_exponent x - 52)"

lemma ulp_pos: "0 < ulp x"
  by (simp add: ulp_def)

lemma ulp_scale: "2 powi f64_exponent x = 2 ^ 52 * ulp x"
proof -
  have "(2 :: rat) ^ 52 * 2 powi (f64_exponent x - 52) = 2 powi 52 * 2 powi (f64_exponent x - 52)"
    by (simp only: power_int_numeral)
  also have "\<dots> = 2 powi (52 + (f64_exponent x - 52))" by (rule power_int_add[symmetric]) simp
  finally show ?thesis by (simp add: ulp_def)
qed

lemma f64_round_pos: "0 < x \<Longrightarrow> f64_round x = of_int (round_even (x / ulp x)) * ulp x"
  by (simp add: f64_round_def ulp_def Let_def)

lemma significand:
  assumes "0 < x"
  shows "2 ^ 52 \<le> round_even (x / ulp x)" and "round_even (x / ulp x) \<le> 2 ^ 53"
proof -
  have "2 ^ 52 \<le> x / ulp x" using f64_exponent(1)[OF assms] ulp_pos[of x] by (simp add: ulp_scale pos_le_divide_eq)
  from round_even_mono[of "of_int (2 ^ 52)" "x / ulp x"] this show "2 ^ 52 \<le> round_even (x / ulp x)"
    unfolding round_even_of_int by simp
  have "2 powi (f64_exponent x + 1) = 2 ^ 53 * ulp x" using ulp_scale[of x] by (simp add: power_int_add)
  then have "x / ulp x \<le> 2 ^ 53" using f64_exponent(2)[OF assms] ulp_pos[of x] by (simp add: pos_divide_le_eq)
  from round_even_mono[of "x / ulp x" "of_int (2 ^ 53)"] this show "round_even (x / ulp x) \<le> 2 ^ 53"
    unfolding round_even_of_int by simp
qed

lemma f64_round_bounds:
  assumes "0 < x"
  shows "2 powi f64_exponent x \<le> f64_round x" and "f64_round x \<le> 2 powi (f64_exponent x + 1)"
proof -
  have "(2 ^ 52 :: rat) \<le> of_int (round_even (x / ulp x))" "of_int (round_even (x / ulp x)) \<le> (2 ^ 53 :: rat)"
    using significand[OF assms] by (metis of_int_le_iff of_int_numeral of_int_power)+
  with ulp_pos[of x] show "2 powi f64_exponent x \<le> f64_round x" "f64_round x \<le> 2 powi (f64_exponent x + 1)"
    unfolding f64_round_pos[OF assms] by (simp_all add: ulp_scale power_int_add)
qed

lemma f64_round_nonneg [simp]: "0 \<le> f64_round x"
proof (cases "0 < x")
  case True
  have "0 \<le> (2 :: rat) powi f64_exponent x" by simp
  with f64_round_bounds(1)[OF True] show ?thesis by linarith
qed (simp add: f64_round_def)

lemma f64_round_0 [simp]: "f64_round 0 = 0"
  by (simp add: f64_round_def)

lemma f64_round_mono:
  assumes "x \<le> y"
  shows "f64_round x \<le> f64_round y"
proof (cases "0 < x")
  case True
  with assms have y: "0 < y" by simp
  have "(2 :: rat) powi f64_exponent x < 2 powi (f64_exponent y + 1)"
    using f64_exponent(1)[OF True] f64_exponent(2)[OF y] assms by linarith
  then have "f64_exponent x \<le> f64_exponent y"
    using power_int_increasing[of "f64_exponent y + 1" "f64_exponent x" "2 :: rat"] by linarith
  then consider "f64_exponent x = f64_exponent y" | "f64_exponent x + 1 \<le> f64_exponent y" by linarith
  then show ?thesis
  proof cases
    case 1
    then have u: "ulp x = ulp y" by (simp add: ulp_def)
    have "round_even (x / ulp y) \<le> round_even (y / ulp y)"
      using assms ulp_pos[of y] by (intro round_even_mono divide_right_mono) simp_all
    then show ?thesis using True y ulp_pos[of y] by (simp add: f64_round_pos u)
  next
    case 2
    then have "(2 :: rat) powi (f64_exponent x + 1) \<le> 2 powi f64_exponent y" by (intro power_int_increasing) simp_all
    with f64_round_bounds(2)[OF True] f64_round_bounds(1)[OF y] show ?thesis by linarith
  qed
next
  case False
  then have "f64_round x = 0" by (simp add: f64_round_def)
  then show ?thesis by simp
qed

lemma f64_round_error:
  assumes "0 < x"
  shows "x * (1 - 1 / 2 ^ 53) \<le> f64_round x"
proof -
  have "\<bar>of_int (round_even (x / ulp x)) - x / ulp x\<bar> \<le> 1 / 2" by (rule round_even_error)
  then have "x / ulp x - 1 / 2 \<le> of_int (round_even (x / ulp x))" by linarith
  then have "(x / ulp x - 1 / 2) * ulp x \<le> f64_round x"
    unfolding f64_round_pos[OF assms] using ulp_pos[of x] by (intro mult_right_mono) simp_all
  moreover have "(x / ulp x - 1 / 2) * ulp x = x - ulp x / 2" using ulp_pos[of x] by (simp add: algebra_simps)
  moreover have "2 ^ 52 * ulp x \<le> x" using f64_exponent(1)[OF assms] by (simp add: ulp_scale)
  ultimately show ?thesis by (simp add: algebra_simps)
qed

lemma f64_of_nat_exact:
  assumes "n < 2 ^ 53"
  shows "f64_of_nat n = of_nat n"
proof (cases "n = 0")
  case False
  let ?x = "of_nat n :: rat"
  have x: "0 < ?x" using False by simp
  have "?x < 2 ^ 53" using assms by (metis of_nat_less_iff of_nat_numeral of_nat_power)
  then have "(2 :: rat) powi f64_exponent ?x < 2 powi 53" using f64_exponent(1)[OF x] by (simp only: power_int_numeral)
  then have e: "f64_exponent ?x \<le> 52"
    using power_int_increasing[of 53 "f64_exponent ?x" "2 :: rat"] by linarith
  have "?x / ulp ?x = of_nat n * 2 ^ nat (52 - f64_exponent ?x)"
    using e by (simp add: ulp_def power_int_def power_int_minus divide_simps)
  also have "\<dots> = of_int (int n * 2 ^ nat (52 - f64_exponent ?x))" by simp
  finally have "round_even (?x / ulp ?x) = int n * 2 ^ nat (52 - f64_exponent ?x)" by (simp only: round_even_of_int)
  then have "of_int (round_even (?x / ulp ?x)) = ?x / ulp ?x"
    using \<open>?x / ulp ?x = of_nat n * 2 ^ nat (52 - f64_exponent ?x)\<close> by simp
  then show ?thesis using ulp_pos[of ?x] by (simp add: f64_of_nat_def f64_round_pos[OF x])
qed (simp add: f64_of_nat_def)

section \<open>Percentages\<close>

text \<open>\<open>(n as f64 / total as f64) * 100.0\<close>\<close>

definition percentage :: "nat \<Rightarrow> nat \<Rightarrow> f64" where
  "percentage n t = f64_mul (f64_div (f64_of_nat n) (f64_of_nat t)) 100"

lemma f64_round_1_100: "f64_round 1 = 1" "f64_round 100 = 100"
  using f64_of_nat_exact[of 1] f64_of_nat_exact[of 100] by (simp_all add: f64_of_nat_def)

lemma percentage_bounds:
  assumes "n \<le> t"
  shows "0 \<le> percentage n t" and "percentage n t \<le> 100"
proof -
  have "f64_of_nat n \<le> f64_of_nat t" using assms by (auto simp: f64_of_nat_def intro: f64_round_mono)
  then have "f64_of_nat n / f64_of_nat t \<le> 1"
    using f64_round_nonneg[of "of_nat t"] unfolding f64_of_nat_def[of t]
    by (cases "f64_round (of_nat t) = 0") (simp_all add: divide_le_eq_1_pos less_le)
  then have "f64_div (f64_of_nat n) (f64_of_nat t) \<le> 1"
    using f64_round_mono[of _ 1] by (simp add: f64_div_def f64_round_1_100)
  then have "f64_div (f64_of_nat n) (f64_of_nat t) * 100 \<le> 100" by simp
  from f64_round_mono[OF this] show "percentage n t \<le> 100" by (simp add: percentage_def f64_mul_def f64_round_1_100)
  show "0 \<le> percentage n t" by (simp add: percentage_def f64_mul_def)
qed

text \<open>
  A comparison with a threshold of \<open>c\<close> percent is exact for counters up to \<open>2 ^ 44\<close>, when \<open>c\<close> percent is computed as \<open>c\<close>.
\<close>

lemma percentage_exact: "n < 2 ^ 53 \<Longrightarrow> t < 2 ^ 53 \<Longrightarrow> percentage n t = f64_round (f64_round (of_nat n / of_nat t) * 100)"
  by (simp add: percentage_def f64_mul_def f64_div_def f64_of_nat_exact)

lemma percentage_threshold:
  assumes "0 < t" "t \<le> 2 ^ 44" "n \<le> t" "c \<le> 100" and c: "f64_round (f64_round (of_nat c / 100) * 100) = of_nat c"
  shows "percentage n t > of_nat c \<longleftrightarrow> 100 * n > c * t"
proof -
  let ?q = "of_nat n / of_nat t :: rat" and ?d = "1 - 1 / 2 ^ 53 :: rat"
  have p: "percentage n t = f64_round (f64_round ?q * 100)" using assms(2,3) by (intro percentage_exact) simp_all
  show ?thesis
  proof
    assume "percentage n t > of_nat c"
    show "100 * n > c * t"
    proof (rule ccontr)
      assume "\<not> 100 * n > c * t"
      then have "(of_nat (100 * n) :: rat) \<le> of_nat (c * t)" unfolding of_nat_le_iff by simp
      then have "?q \<le> of_nat c / 100" using assms(1) by (simp add: field_simps)
      then have "f64_round ?q * 100 \<le> f64_round (of_nat c / 100) * 100" by (simp add: f64_round_mono)
      from f64_round_mono[OF this] \<open>percentage n t > of_nat c\<close> show False by (simp add: p c)
    qed
  next
    assume "100 * n > c * t"
    then have "(of_nat (c * t + 1) :: rat) \<le> of_nat (100 * n)" unfolding of_nat_le_iff by simp
    from divide_right_mono[OF this, of "of_nat t"] have q: "of_nat c + 1 / of_nat t \<le> 100 * ?q"
      using assms(1) by (simp add: add_divide_distrib)
    have "(of_nat t :: rat) \<le> of_nat (2 ^ 44)" using assms(2) unfolding of_nat_le_iff .
    then have t: "1 / 2 ^ 44 \<le> 1 / (of_nat t :: rat)" using assms(1) by (simp add: field_simps)
    have cc: "of_nat c \<le> (100 :: rat)" using assms(4) by (metis of_nat_le_iff of_nat_numeral)
    have pos: "0 < ?q" using q t by (simp add: order_less_le_trans)
    have r: "?q * ?d \<le> f64_round ?q" by (rule f64_round_error[OF pos])
    moreover have "0 < ?q * ?d" using pos by simp
    ultimately have "0 < f64_round ?q * 100" by simp
    from f64_round_error[OF this] have "f64_round ?q * 100 * ?d \<le> percentage n t" by (simp add: p)
    moreover have "?q * ?d * 100 * ?d \<le> f64_round ?q * 100 * ?d" using r by (intro mult_right_mono) simp_all
    moreover have "(of_nat c + 1 / 2 ^ 44) * (?d * ?d) \<le> 100 * ?q * (?d * ?d)" using q t by (intro mult_right_mono) simp_all
    moreover have "of_nat c < (of_nat c + 1 / 2 ^ 44) * (?d * ?d)" using cc by (simp add: field_simps)
    ultimately show "percentage n t > of_nat c" by (simp add: algebra_simps)
  qed
qed

lemma thresholds: "f64_round (f64_round (of_nat 10 / 100) * 100) = of_nat 10"
  "f64_round (f64_round (of_nat 20 / 100) * 100) = of_nat 20" "f64_round (f64_round (of_nat 5 / 100) * 100) = of_nat 5"
  by code_simp+


text \<open>The error of a percentage.\<close>

lemma f64_round_upper:
  assumes "0 \<le> x"
  shows "f64_round x \<le> x * (1 + 1 / 2 ^ 53)"
proof (cases "x = 0")
  case False
  with assms have x: "0 < x" by simp
  have "\<bar>of_int (round_even (x / ulp x)) - x / ulp x\<bar> \<le> 1 / 2" by (rule round_even_error)
  then have "of_int (round_even (x / ulp x)) \<le> x / ulp x + 1 / 2" by linarith
  then have "f64_round x \<le> (x / ulp x + 1 / 2) * ulp x"
    unfolding f64_round_pos[OF x] using ulp_pos[of x] by (intro mult_right_mono) simp_all
  moreover have "(x / ulp x + 1 / 2) * ulp x = x + ulp x / 2" using ulp_pos[of x] by (simp add: algebra_simps)
  moreover have "2 ^ 52 * ulp x \<le> x" using f64_exponent(1)[OF x] by (simp add: ulp_scale)
  ultimately show ?thesis by (simp add: algebra_simps)
qed simp

lemma f64_round_lower: "0 \<le> x \<Longrightarrow> x * (1 - 1 / 2 ^ 53) \<le> f64_round x"
  using f64_round_error[of x] by (cases "x = 0") auto

lemma percentage_error:
  assumes "0 < t" "n \<le> t" "t < 2 ^ 53"
  shows "100 * (of_nat n / of_nat t) * (1 - 1 / 2 ^ 51) \<le> percentage n t"
    and "percentage n t \<le> 100 * (of_nat n / of_nat t) * (1 + 1 / 2 ^ 51)"
proof -
  let ?q = "of_nat n / of_nat t :: rat" and ?l = "1 - 1 / 2 ^ 53 :: rat" and ?u = "1 + 1 / 2 ^ 53 :: rat"
  have q: "0 \<le> ?q" by simp
  have p: "percentage n t = f64_round (f64_round ?q * 100)" using assms by (intro percentage_exact) simp_all
  have "100 * ?q * (?l * ?l) \<le> f64_round ?q * 100 * ?l"
    using mult_right_mono[OF f64_round_lower[OF q], of "100 * ?l"] by (simp add: algebra_simps)
  also have "\<dots> \<le> percentage n t" unfolding p by (rule f64_round_lower) simp
  finally have l: "100 * ?q * (?l * ?l) \<le> percentage n t" .
  have "percentage n t \<le> f64_round ?q * 100 * ?u" unfolding p by (rule f64_round_upper) simp
  also have "\<dots> \<le> 100 * ?q * (?u * ?u)"
    using mult_right_mono[OF f64_round_upper[OF q], of "100 * ?u"] by (simp add: algebra_simps)
  finally have u: "percentage n t \<le> 100 * ?q * (?u * ?u)" .
  have "100 * ?q * (1 - 1 / 2 ^ 51) \<le> 100 * ?q * (?l * ?l)" using q by (intro mult_left_mono) simp_all
  with l show "100 * ?q * (1 - 1 / 2 ^ 51) \<le> percentage n t" by linarith
  have "100 * ?q * (?u * ?u) \<le> 100 * ?q * (1 + 1 / 2 ^ 51)" using q by (intro mult_left_mono) simp_all
  with u show "percentage n t \<le> 100 * ?q * (1 + 1 / 2 ^ 51)" by linarith
qed

end
