(* ===== verification/Metrics.thy ===== *)
theory Metrics
  imports F64 Data_Service
begin

text \<open>
  The reports of a node: the monitoring of message states of \<open>mesh-grpc/src/metrics.rs\<close> and the distribution of load over next hops of
  \<open>mesh-routing/src/ecmp.rs\<close>. Rates are double-precision numbers.
\<close>

section \<open>Message states\<close>

text \<open>\<open>total > 0\<close> guards every division.\<close>

definition rate :: "nat \<Rightarrow> nat \<Rightarrow> f64" where
  "rate n t = (if t > 0 then percentage n t else 0)"

record message_status_distribution =
  msd_total :: nat
  msd_by_status :: "(message_status, nat) hmap"
  msd_success_rate :: f64
  msd_failure_rate :: f64
  msd_pending_rate :: f64

definition from_stats :: "tracker_stats \<Rightarrow> message_status_distribution" where
  "from_stats stats =
     \<lparr>msd_total = ts_total_messages stats,
      msd_by_status = fold (\<lambda>(status, count). hm_insert status count)
        [(Undeliverable, ts_undeliverable stats), (Queued, ts_queued stats), (PendingNode, ts_pending_node stats),
         (PendingClient, ts_pending_client stats), (Delivered, ts_delivered stats),
         (WaitingForClientAck, ts_waiting_for_ack stats), (AckSuccess, ts_ack_success stats),
         (AckFailure, ts_ack_failure stats)] [],
      msd_success_rate = rate (ts_delivered stats + ts_ack_success stats) (ts_total_messages stats),
      msd_failure_rate = rate (ts_undeliverable stats + ts_ack_failure stats) (ts_total_messages stats),
      msd_pending_rate = rate (ts_queued stats + ts_pending_node stats + ts_pending_client stats
        + ts_waiting_for_ack stats) (ts_total_messages stats)\<rparr>"

datatype health_warning = HighUndeliverableRate | HighPendingRate | HighAckFailureRate

definition check_health :: "tracker_stats \<Rightarrow> health_warning list" where
  "check_health stats =
     (if ts_total_messages stats > 0
      then (let undeliverable_rate = percentage (ts_undeliverable stats) (ts_total_messages stats)
            in if undeliverable_rate > 10 then [HighUndeliverableRate] else [])
        @ (let pending_total = ts_queued stats + ts_pending_node stats + ts_pending_client stats + ts_waiting_for_ack stats;
               pending_rate = percentage pending_total (ts_total_messages stats)
           in if pending_rate > 20 then [HighPendingRate] else [])
        @ (let ack_total = ts_ack_success stats + ts_ack_failure stats
           in if ack_total > 0
              then (let ack_failure_rate = percentage (ts_ack_failure stats) ack_total
                    in if ack_failure_rate > 5 then [HighAckFailureRate] else [])
              else [])
      else [])"

text \<open>The rates that are logged.\<close>

definition log_metrics :: "tracker_stats \<Rightarrow> (f64 \<times> f64 \<times> f64) option" where
  "log_metrics stats =
     (if ts_total_messages stats > 0
      then Some (percentage (ts_delivered stats + ts_ack_success stats) (ts_total_messages stats),
                 percentage (ts_undeliverable stats + ts_ack_failure stats) (ts_total_messages stats),
                 percentage (ts_queued stats + ts_pending_node stats + ts_pending_client stats + ts_waiting_for_ack stats)
                   (ts_total_messages stats))
      else None)"

text \<open>The collector: its interval in nanoseconds.\<close>

definition message_metrics_new :: nat where
  "message_metrics_new = 30 * SECOND"

text \<open>One turn of the collection task.\<close>

definition collection_tick :: "tracker \<Rightarrow> health_warning list" where
  "collection_tick t = check_health (tracker_get_stats t)"

text \<open>The log and the report of the control service give the same rates.\<close>

lemma logged_rates_agree:
  "log_metrics stats = (if msd_total (from_stats stats) = 0 then None
     else Some (msd_success_rate (from_stats stats), msd_failure_rate (from_stats stats), msd_pending_rate (from_stats stats)))"
  by (simp add: log_metrics_def from_stats_def rate_def)

section \<open>Load\<close>

definition count_hop :: "(u64 list \<Rightarrow> u64) \<Rightarrow> ecmp_selector \<Rightarrow> hop_set \<Rightarrow> node_id \<times> u64
    \<Rightarrow> (node_id, nat) hmap \<Rightarrow> (node_id, nat) hmap" where
  "count_hop hash sel hs flow hop_counts =
     (case select_hop hash sel hs (fst flow) (snd flow) of
        Some hop \<Rightarrow> hm_insert (nh_node_id hop) (get_or 0 (hm_get hop_counts (nh_node_id hop)) + 1) hop_counts
      | None \<Rightarrow> hop_counts)"

definition get_load_distribution :: "(u64 list \<Rightarrow> u64) \<Rightarrow> ecmp_selector \<Rightarrow> hop_set \<Rightarrow> (node_id \<times> u64) list
    \<Rightarrow> (node_id \<times> f64) list" where
  "get_load_distribution hash sel hs sample_flows =
     (if hop_set_is_empty hs \<or> sample_flows = [] then []
      else map (\<lambda>(node_id, count). (node_id, percentage count (length sample_flows)))
             (fold (count_hop hash sel hs) sample_flows []))"

section \<open>Counting\<close>

definition in_state :: "message_status \<Rightarrow> tracker \<Rightarrow> nat" where
  "in_state status t = length (filter (\<lambda>(_, r). mr_status r = status) t)"

lemma fold_count_record:
  "fold (count_record \<circ> snd) t s =
     s\<lparr>ts_total_messages := ts_total_messages s + length t, ts_undeliverable := ts_undeliverable s + in_state Undeliverable t,
       ts_queued := ts_queued s + in_state Queued t, ts_pending_node := ts_pending_node s + in_state PendingNode t,
       ts_pending_client := ts_pending_client s + in_state PendingClient t, ts_delivered := ts_delivered s + in_state Delivered t,
       ts_waiting_for_ack := ts_waiting_for_ack s + in_state WaitingForClientAck t,
       ts_ack_success := ts_ack_success s + in_state AckSuccess t, ts_ack_failure := ts_ack_failure s + in_state AckFailure t\<rparr>"
proof (induction t arbitrary: s)
  case (Cons e t)
  obtain k r where e: "e = (k, r)" by (cases e)
  show ?case
    by (cases "mr_status r") (simp_all add: Cons.IH[unfolded comp_def] e count_record_def[of r] in_state_def comp_def)
qed (simp add: in_state_def)

lemma tracker_get_stats_counts:
  "ts_total_messages (tracker_get_stats t) = length t" "ts_undeliverable (tracker_get_stats t) = in_state Undeliverable t"
  "ts_queued (tracker_get_stats t) = in_state Queued t" "ts_pending_node (tracker_get_stats t) = in_state PendingNode t"
  "ts_pending_client (tracker_get_stats t) = in_state PendingClient t" "ts_delivered (tracker_get_stats t) = in_state Delivered t"
  "ts_waiting_for_ack (tracker_get_stats t) = in_state WaitingForClientAck t"
  "ts_ack_success (tracker_get_stats t) = in_state AckSuccess t" "ts_ack_failure (tracker_get_stats t) = in_state AckFailure t"
  by (simp_all add: tracker_get_stats_def fold_count_record tracker_stats_default_def)

lemma states_add_up:
  "in_state StatusUnspecified t + in_state Undeliverable t + in_state Queued t + in_state PendingNode t
     + in_state PendingClient t + in_state Delivered t + in_state WaitingForClientAck t + in_state AckSuccess t
     + in_state AckFailure t = length t"
proof (induction t)
  case (Cons e t)
  obtain k r where e: "e = (k, r)" by (cases e)
  show ?case using Cons by (cases "mr_status r") (simp_all add: e in_state_def)
qed (simp add: in_state_def)


text \<open>The flows of a sample that choose a hop.\<close>

definition chosen :: "(u64 list \<Rightarrow> u64) \<Rightarrow> ecmp_selector \<Rightarrow> hop_set \<Rightarrow> node_id \<Rightarrow> (node_id \<times> u64) list \<Rightarrow> (node_id \<times> u64) list" where
  "chosen hash sel hs k flows = filter (\<lambda>(dst, corr). map_option nh_node_id (select_hop hash sel hs dst corr) = Some k) flows"

lemma chosen_simps [simp]:
  "chosen hash sel hs k [] = []"
  "select_hop hash sel hs (fst flow) (snd flow) = Some h \<Longrightarrow>
     chosen hash sel hs k (flow # flows) = (if nh_node_id h = k then flow # chosen hash sel hs k flows else chosen hash sel hs k flows)"
  by (auto simp: chosen_def split: prod.split)

lemma sum_hm_count:
  "sum_list (map snd (hm_insert k (get_or 0 (hm_get m k) + 1) m)) = sum_list (map snd m) + (1 :: nat)"
proof -
  have "sum_list (map snd (hm_insert k v m)) + get_or 0 (hm_get m k) = sum_list (map snd m) + v" for v :: nat
    by (induction k v m rule: hm_insert.induct) (auto simp: hm_get_def get_or_def)
  from this[of "get_or 0 (hm_get m k) + 1"] show ?thesis by simp
qed

lemma fold_count_hop:
  assumes "\<not> hop_set_is_empty hs" and "hm_wf m"
  shows "hm_wf (fold (count_hop hash sel hs) flows m)
    \<and> (\<forall>k. hm_get (fold (count_hop hash sel hs) flows m) k =
         (if hm_get m k = None \<and> chosen hash sel hs k flows = [] then None
          else Some (get_or 0 (hm_get m k) + length (chosen hash sel hs k flows))))
    \<and> sum_list (map snd (fold (count_hop hash sel hs) flows m)) = sum_list (map snd m) + length flows"
  using assms(2)
proof (induction flows arbitrary: m)
  case Nil
  then show ?case by (auto simp: get_or_def)
next
  case (Cons flow flows)
  obtain h where h: "select_hop hash sel hs (fst flow) (snd flow) = Some h"
    using assms(1) by (simp add: select_hop_def Let_def)
  define m' where "m' = hm_insert (nh_node_id h) (get_or 0 (hm_get m (nh_node_id h)) + 1) m"
  have m: "count_hop hash sel hs flow m = m'" by (simp add: count_hop_def h m'_def)
  have wf: "hm_wf m'" using Cons.prems by (simp add: m'_def)
  have get: "hm_get m' k = (if k = nh_node_id h then Some (get_or 0 (hm_get m k) + 1) else hm_get m k)" for k
    by (simp add: m'_def)
  have sum: "sum_list (map snd m') = sum_list (map snd m) + 1" unfolding m'_def by (rule sum_hm_count)
  show ?case using Cons.IH[OF wf] by (simp add: m h sum get)
qed

section \<open>Properties\<close>

text \<open>
  C39: The health check of a node warns exactly when it should: with at most \<open>2 ^ 44\<close> messages tracked, it warns of undeliverable
  messages when they are more than a tenth, of pending messages when they are more than a fifth, and of failed
  acknowledgements when they are more than a twentieth of the acknowledgements, and of nothing else; the rounding of the rates
  never tips a comparison.
\<close>

theorem health_warnings_exact:
  assumes "length t \<le> 2 ^ 44"
  shows "collection_tick t =
     (if 10 * in_state Undeliverable t > length t then [HighUndeliverableRate] else [])
     @ (if 5 * (in_state Queued t + in_state PendingNode t + in_state PendingClient t + in_state WaitingForClientAck t) > length t
        then [HighPendingRate] else [])
     @ (if 20 * in_state AckFailure t > in_state AckSuccess t + in_state AckFailure t then [HighAckFailureRate] else [])"
proof -
  let ?pending = "in_state Queued t + in_state PendingNode t + in_state PendingClient t + in_state WaitingForClientAck t"
    and ?acks = "in_state AckSuccess t + in_state AckFailure t"
  note sum = states_add_up[of t]
  show ?thesis
  proof (cases "t = []")
    case True
    then show ?thesis by (simp add: collection_tick_def check_health_def tracker_get_stats_counts in_state_def)
  next
    case False
    have "percentage (in_state Undeliverable t) (length t) > of_nat 10 \<longleftrightarrow> 100 * in_state Undeliverable t > 10 * length t"
      by (rule percentage_threshold) (use False assms sum thresholds in simp_all)
    then have u: "percentage (in_state Undeliverable t) (length t) > 10 \<longleftrightarrow> 10 * in_state Undeliverable t > length t"
      by simp
    have "percentage ?pending (length t) > of_nat 20 \<longleftrightarrow> 100 * ?pending > 20 * length t"
      by (rule percentage_threshold) (use False assms sum thresholds in simp_all)
    then have p: "percentage ?pending (length t) > 20 \<longleftrightarrow> 5 * ?pending > length t" by auto
    have "percentage (in_state AckFailure t) ?acks > of_nat 5 \<longleftrightarrow> 100 * in_state AckFailure t > 5 * ?acks" if "?acks > 0"
      by (rule percentage_threshold) (use that assms sum thresholds in simp_all)
    then have a: "?acks > 0 \<and> percentage (in_state AckFailure t) ?acks > 5 \<longleftrightarrow> 20 * in_state AckFailure t > ?acks"
      by (cases "?acks > 0") auto
    show ?thesis
      using False u p a by (auto simp: collection_tick_def check_health_def tracker_get_stats_counts)
  qed
qed

text \<open>
  The report on message states accounts for every message: it has the number of messages in each state, its three rates
  are percentages between 0 and 100, and when every message has a state they add up to 100 but for the rounding,
  less than \<open>1 / 2 ^ 44\<close>.
\<close>

lemma distribution_accounts:
  assumes "length t < 2 ^ 53"
  shows "let d = from_stats (tracker_get_stats t) in
    msd_total d = length t
    \<and> (\<forall>status. hm_get (msd_by_status d) status =
         (if status = StatusUnspecified then None else Some (in_state status t)))
    \<and> 0 \<le> msd_success_rate d \<and> msd_success_rate d \<le> 100 \<and> 0 \<le> msd_failure_rate d \<and> msd_failure_rate d \<le> 100
    \<and> 0 \<le> msd_pending_rate d \<and> msd_pending_rate d \<le> 100
    \<and> (t \<noteq> [] \<and> in_state StatusUnspecified t = 0 \<longrightarrow>
         \<bar>msd_success_rate d + msd_failure_rate d + msd_pending_rate d - 100\<bar> < 1 / 2 ^ 44)"
  unfolding Let_def
proof (intro conjI allI impI)
  let ?d = "from_stats (tracker_get_stats t)"
  define s f p where "s = in_state Delivered t + in_state AckSuccess t"
    and "f = in_state Undeliverable t + in_state AckFailure t"
    and "p = in_state Queued t + in_state PendingNode t + in_state PendingClient t + in_state WaitingForClientAck t"
  note sum = states_add_up[of t]
  have r: "msd_success_rate ?d = rate s (length t)" "msd_failure_rate ?d = rate f (length t)"
      "msd_pending_rate ?d = rate p (length t)"
    by (simp_all add: from_stats_def tracker_get_stats_counts s_def f_def p_def)
  have le: "s \<le> length t" "f \<le> length t" "p \<le> length t" using sum by (simp_all add: s_def f_def p_def)
  show "msd_total ?d = length t" by (simp add: from_stats_def tracker_get_stats_counts)
  show "hm_get (msd_by_status ?d) status = (if status = StatusUnspecified then None else Some (in_state status t))" for status
    by (cases status) (simp_all add: from_stats_def tracker_get_stats_counts hm_get_def)
  show "0 \<le> msd_success_rate ?d" "msd_success_rate ?d \<le> 100" "0 \<le> msd_failure_rate ?d" "msd_failure_rate ?d \<le> 100"
    "0 \<le> msd_pending_rate ?d" "msd_pending_rate ?d \<le> 100"
    using le percentage_bounds by (simp_all add: r rate_def)
  assume a: "t \<noteq> [] \<and> in_state StatusUnspecified t = 0"
  let ?q = "\<lambda>n. of_nat n / of_nat (length t) :: rat"
  have "s + f + p = length t" using a sum by (simp add: s_def f_def p_def)
  then have "?q s + ?q f + ?q p = 1"
    using a by (simp flip: add_divide_distrib of_nat_add)
  moreover have "100 * ?q n * (1 - 1 / 2 ^ 51) \<le> rate n (length t)" "rate n (length t) \<le> 100 * ?q n * (1 + 1 / 2 ^ 51)"
    if "n \<le> length t" for n
    using percentage_error[of "length t" n] that a assms by (simp_all add: rate_def)
  note e = this[OF le(1)] this[OF le(2)] this[OF le(3)]
  ultimately show "\<bar>msd_success_rate ?d + msd_failure_rate ?d + msd_pending_rate ?d - 100\<bar> < 1 / 2 ^ 44"
    unfolding r abs_less_iff using e by (simp add: algebra_simps)
qed


text \<open>
  The reported load of the next hops is what the selector does with the sample: a hop is listed exactly when it is chosen for some
  flow, with the percentage of the flows it is chosen for; the flows of the hops listed are all the flows of the sample.
\<close>

lemma load_distribution_spec:
  assumes "\<not> hop_set_is_empty hs" and "flows \<noteq> []"
  shows "let load = get_load_distribution hash sel hs flows
     in distinct (map fst load)
     \<and> (\<forall>k. hm_get load k = (if chosen hash sel hs k flows = [] then None
           else Some (percentage (length (chosen hash sel hs k flows)) (length flows))))
     \<and> sum_list (map (\<lambda>(k, _). length (chosen hash sel hs k flows)) load) = length flows"
proof -
  let ?counts = "fold (count_hop hash sel hs) flows []"
  have c: "hm_wf ?counts" "sum_list (map snd ?counts) = length flows"
      "\<And>k. hm_get ?counts k = (if chosen hash sel hs k flows = [] then None else Some (length (chosen hash sel hs k flows)))"
    using fold_count_hop[OF assms(1) hm_wf_Nil, of hash sel flows] by (auto simp: get_or_def)
  have load: "get_load_distribution hash sel hs flows = map (\<lambda>(k, c). (k, percentage c (length flows))) ?counts"
    using assms by (simp add: get_load_distribution_def)
  have "map fst (map (\<lambda>(k, c). (k, percentage c (length flows))) ?counts) = map fst ?counts" by auto
  then have d: "distinct (map fst (get_load_distribution hash sel hs flows))"
    using c(1) unfolding load hm_wf_def hm_keys_def by (simp only:)
  have g: "hm_get (get_load_distribution hash sel hs flows) k = map_option (\<lambda>c. percentage c (length flows)) (hm_get ?counts k)" for k
    unfolding load hm_get_def by (simp add: map_of_map)
  have "map (\<lambda>(k, _). length (chosen hash sel hs k flows)) (get_load_distribution hash sel hs flows) = map snd ?counts"
    unfolding load using c(1,3) by (auto dest!: hm_get_mem[OF c(1)] split: if_splits)
  with d g c show ?thesis by (simp add: Let_def)
qed


section \<open>Witnesses\<close>

text \<open>Three messages: one delivered, one undeliverable, one pending.\<close>

definition ex_tracker :: tracker where
  "ex_tracker =
     track_message 0 0 3 PendingNode [] False (track_message 0 0 2 Undeliverable [] False (track_message 0 0 1 Delivered [] False []))"

lemma ex_tracker_states:
  "length ex_tracker = 3" "in_state Undeliverable ex_tracker = 1" "in_state PendingNode ex_tracker = 1"
  "in_state Queued ex_tracker = 0" "in_state PendingClient ex_tracker = 0" "in_state WaitingForClientAck ex_tracker = 0"
  "in_state AckFailure ex_tracker = 0" "in_state AckSuccess ex_tracker = 0" "in_state StatusUnspecified ex_tracker = 0"
  by (simp_all add: ex_tracker_def track_message_def message_record_new_def in_state_def)

theorem health_warnings_exact_witness:
  "length ex_tracker \<le> 2 ^ 44 \<and> collection_tick ex_tracker = [HighUndeliverableRate, HighPendingRate]"
proof -
  have "length ex_tracker \<le> 2 ^ 44" by (simp add: ex_tracker_states)
  from health_warnings_exact[OF this] show ?thesis by (simp add: ex_tracker_states)
qed

end
