(* ===== verification/Control.thy ===== *)
theory Control
  imports Node Metrics
begin

text \<open>
  The service operators use: \<open>mesh-grpc/src/control.rs\<close>. It reports on the sessions, the routes, the topology and the messages of the node, keeps
  policies, and hands commands on sessions to the event loop.
\<close>

section \<open>State\<close>

text \<open>
  What the service shares with the rest of the node is there when it was configured; a channel of commands holds what was sent on
  it, or is closed.
\<close>

record control_service =
  ctl_node_id :: node_id
  ctl_policies :: "(string, string) hmap"
  ctl_routing_table :: "routing_table option"
  ctl_session_registry :: "(node_id, session_info) hmap option"
  ctl_topology_db :: "topology_database option"
  ctl_message_tracker :: "tracker option"
  ctl_session_command_tx :: "session_command list option option"

definition control_service_new :: "node_id \<Rightarrow> routing_table option \<Rightarrow> (node_id, session_info) hmap option
    \<Rightarrow> topology_database option \<Rightarrow> control_service" where
  "control_service_new node_id routing_table session_registry topology_db =
     \<lparr>ctl_node_id = node_id, ctl_policies = [], ctl_routing_table = routing_table,
      ctl_session_registry = session_registry, ctl_topology_db = topology_db, ctl_message_tracker = None,
      ctl_session_command_tx = None\<rparr>"

definition set_session_command_channel :: "session_command list option \<Rightarrow> control_service \<Rightarrow> control_service" where
  "set_session_command_channel tx s = s\<lparr>ctl_session_command_tx := Some tx\<rparr>"

definition set_message_tracker :: "tracker \<Rightarrow> control_service \<Rightarrow> control_service" where
  "set_message_tracker tracker s = s\<lparr>ctl_message_tracker := Some tracker\<rparr>"

definition get_policy :: "control_service \<Rightarrow> string \<Rightarrow> string option" where
  "get_policy s key = hm_get (ctl_policies s) key"

definition list_policies :: "control_service \<Rightarrow> (string, string) hmap" where
  "list_policies s = ctl_policies s"

section \<open>Reports\<close>

record session_report =
  sr_peer_node_id :: node_id
  sr_remote_addr :: string
  sr_state :: string
  sr_rtt_microseconds :: u64
  sr_bytes_sent :: u64
  sr_bytes_received :: u64
  sr_frames_sent :: u64
  sr_frames_received :: u64
  sr_is_tls :: bool

definition control_get_sessions :: "control_service \<Rightarrow> session_report list" where
  "control_get_sessions s =
     (case ctl_session_registry s of
        Some registry \<Rightarrow> map (\<lambda>(node_id, info).
          \<lparr>sr_peer_node_id = node_id, sr_remote_addr = si_remote_addr info, sr_state = ''Connected'',
           sr_rtt_microseconds = 0, sr_bytes_sent = 0, sr_bytes_received = 0, sr_frames_sent = 0,
           sr_frames_received = 0, sr_is_tls = False\<rparr>) registry
      | None \<Rightarrow> [])"

record route_entry =
  re_dst_node :: node_id
  re_next_hops :: "node_id list"
  re_cost :: u32
  re_epoch :: u32

definition table_entries :: "routing_table \<Rightarrow> route_entry list" where
  "table_entries table =
     map (\<lambda>(dst_node, hop_set). \<lparr>re_dst_node = dst_node, re_next_hops = node_ids hop_set,
            re_cost = hs_cost hop_set, re_epoch = get_epoch table\<rparr>) (get_all_routes table)"

definition get_routing_table :: "control_service \<Rightarrow> route_entry list \<times> u32" where
  "get_routing_table s =
     (case ctl_routing_table s of
        Some table \<Rightarrow> (table_entries table, get_epoch table)
      | None \<Rightarrow> ([], 0))"

record neighbor_report =
  nr_node_id :: node_id
  nr_addr :: string
  nr_connected :: bool
  nr_epoch :: u32

record topology_snapshot =
  tsn_local_node_id :: node_id
  tsn_current_epoch :: u32
  tsn_neighbors :: "neighbor_report list"
  tsn_routes :: "route_entry list"

definition get_topology :: "control_service \<Rightarrow> topology_snapshot" where
  "get_topology s =
     (case ctl_topology_db s of
        Some db \<Rightarrow>
          let current_epoch = ucast (ts_local_sequence (get_stats db)) :: u32;
              neighbors = (case hm_get (get_nodes db) (ctl_node_id s) of
                 Some local_node \<Rightarrow> map (\<lambda>(node_id, link_info).
                   \<lparr>nr_node_id = node_id, nr_addr = get_or [] (li_addr link_info), nr_connected = True,
                    nr_epoch = current_epoch\<rparr>) (nd_neighbors local_node)
               | None \<Rightarrow> []);
              routes = map (\<lambda>(dst_node, computed_route).
                 \<lparr>re_dst_node = dst_node, re_next_hops = [cr_next_hop computed_route],
                  re_cost = cr_total_cost computed_route, re_epoch = current_epoch\<rparr>) (get_routes db)
          in \<lparr>tsn_local_node_id = ctl_node_id s, tsn_current_epoch = current_epoch, tsn_neighbors = neighbors,
              tsn_routes = routes\<rparr>
      | None \<Rightarrow>
          (case ctl_routing_table s of
             Some table \<Rightarrow> \<lparr>tsn_local_node_id = ctl_node_id s, tsn_current_epoch = get_epoch table, tsn_neighbors = [],
                            tsn_routes = table_entries table\<rparr>
           | None \<Rightarrow> \<lparr>tsn_local_node_id = ctl_node_id s, tsn_current_epoch = 0, tsn_neighbors = [], tsn_routes = []\<rparr>))"

record message_metrics =
  mm_total_messages :: u64
  mm_undeliverable :: u64
  mm_queued :: u64
  mm_pending_node :: u64
  mm_pending_client :: u64
  mm_delivered :: u64
  mm_waiting_for_ack :: u64
  mm_ack_success :: u64
  mm_ack_failure :: u64
  mm_success_rate :: f64
  mm_failure_rate :: f64
  mm_pending_rate :: f64

definition metrics_rate :: "f64 \<Rightarrow> nat \<Rightarrow> f64" where
  "metrics_rate t n = (if t > 0 then f64_mul (f64_div (f64_of_nat n) t) 100 else 0)"

definition get_message_metrics :: "control_service \<Rightarrow> (grpc_status, message_metrics) outcome" where
  "get_message_metrics s =
     (case ctl_message_tracker s of
        Some tracker \<Rightarrow>
          let stats = tracker_get_stats tracker; t = f64_of_nat (ts_total_messages stats)
          in Ok \<lparr>mm_total_messages = of_nat (ts_total_messages stats), mm_undeliverable = of_nat (ts_undeliverable stats),
                 mm_queued = of_nat (ts_queued stats), mm_pending_node = of_nat (ts_pending_node stats),
                 mm_pending_client = of_nat (ts_pending_client stats), mm_delivered = of_nat (ts_delivered stats),
                 mm_waiting_for_ack = of_nat (ts_waiting_for_ack stats), mm_ack_success = of_nat (ts_ack_success stats),
                 mm_ack_failure = of_nat (ts_ack_failure stats),
                 mm_success_rate = metrics_rate t (ts_delivered stats + ts_ack_success stats),
                 mm_failure_rate = metrics_rate t (ts_undeliverable stats + ts_ack_failure stats),
                 mm_pending_rate = metrics_rate t (ts_queued stats + ts_pending_node stats + ts_pending_client stats
                   + ts_waiting_for_ack stats)\<rparr>
      | None \<Rightarrow> Err (Unavailable ''Message tracking not enabled''))"

section \<open>Commands\<close>

definition send_command :: "string \<Rightarrow> session_command \<Rightarrow> control_service
    \<Rightarrow> (grpc_status, unit) outcome \<times> control_service" where
  "send_command failure command s =
     (case ctl_session_command_tx s of
        Some (Some commands) \<Rightarrow> (Ok (), s\<lparr>ctl_session_command_tx := Some (Some (commands @ [command]))\<rparr>)
      | Some None \<Rightarrow> (Err (InternalError failure), s)
      | None \<Rightarrow> (Err (Unavailable ''Session management not available''), s))"

definition drop_session :: "node_id \<Rightarrow> control_service \<Rightarrow> (grpc_status, unit) outcome \<times> control_service" where
  "drop_session peer_node_id s = send_command ''Failed to process drop session request'' (DropSession peer_node_id) s"

text \<open>The parser of socket addresses is a parameter: the address, or its error message.\<close>

definition add_session :: "(string \<Rightarrow> string + string) \<Rightarrow> string \<Rightarrow> control_service
    \<Rightarrow> (grpc_status, unit) outcome \<times> control_service" where
  "add_session parse_addr addr s =
     (case parse_addr addr of
        Inl e \<Rightarrow> (Err (InvalidArgument (''Invalid address format: '' @ e)), s)
      | Inr a \<Rightarrow> send_command ''Failed to process add session request'' (AddSession a) s)"

definition inject_neighbor :: "string \<Rightarrow> control_service \<Rightarrow> (grpc_status, unit) outcome \<times> control_service" where
  "inject_neighbor addr s = (Ok (), s)"

definition set_policy :: "string \<Rightarrow> string \<Rightarrow> control_service \<Rightarrow> (grpc_status, unit) outcome \<times> control_service" where
  "set_policy key value s =
     (if key = [] then (Err (InvalidArgument ''Policy key cannot be empty''), s)
      else (Ok (), s\<lparr>ctl_policies := hm_insert key value (ctl_policies s)\<rparr>))"

section \<open>Properties\<close>

text \<open>The control service of a node, over its database, its routing table and its sessions.\<close>

definition control_of :: "mesh_node \<Rightarrow> control_service" where
  "control_of n = control_service_new (mn_node_id n) (Some (mn_routing_table n)) (mn_session_registry n) (Some (mn_topology_db n))"

lemma f64_of_nat_pos: "f64_of_nat n > 0 \<longleftrightarrow> n > 0"
proof (cases "n = 0")
  case False
  have "(2 :: rat) powi f64_exponent (of_nat n) > 0" by simp
  also have "\<dots> \<le> f64_round (of_nat n)" using False by (intro f64_round_bounds) simp
  finally show ?thesis using False by (simp add: f64_of_nat_def)
qed (simp add: f64_of_nat_def)

lemma metrics_rate: "metrics_rate (f64_of_nat t) n = rate n t"
  by (simp add: metrics_rate_def rate_def percentage_def f64_of_nat_pos)


lemma set_policy_get:
  "snd (set_policy key v s) = s' \<Longrightarrow> get_policy s' k = (if key \<noteq> [] \<and> k = key then Some v else get_policy s k)"
  by (auto simp: set_policy_def get_policy_def)

text \<open>The routes of the reports, by destination.\<close>

definition reports :: "route_entry list \<Rightarrow> node_id \<Rightarrow> node_id list \<Rightarrow> u32 \<Rightarrow> bool" where
  "reports es dst hops cost \<longleftrightarrow> (\<exists>e \<in> set es. re_dst_node e = dst \<and> re_next_hops e = hops \<and> re_cost e = cost)"

lemma reports_map:
  assumes "hm_wf m"
  shows "reports (map (\<lambda>(d, x). \<lparr>re_dst_node = d, re_next_hops = h x, re_cost = c x, re_epoch = ep\<rparr>) m) dst hops cost \<longleftrightarrow>
    (\<exists>x. hm_get m dst = Some x \<and> h x = hops \<and> c x = cost)"
proof -
  have "(d, x) \<in> set m \<longleftrightarrow> hm_get m d = Some x" for d x using hm_get_mem[OF assms] hm_get_Some_mem by metis
  then have "(\<exists>x. hm_get m dst = Some x \<and> h x = hops \<and> c x = cost) \<longleftrightarrow>
      (\<exists>(d, x) \<in> set m. d = dst \<and> h x = hops \<and> c x = cost)" by blast
  then show ?thesis by (simp add: reports_def case_prod_beta)
qed

lemma reports_table:
  assumes "hm_wf (rt_routes t)"
  shows "reports (table_entries t) dst hops cost \<longleftrightarrow>
    (\<exists>hs. table_get_route t dst = Some hs \<and> node_ids hs = hops \<and> hs_cost hs = cost)"
  unfolding table_entries_def get_all_routes_def table_get_route_def by (rule reports_map[OF assms])

lemma reports_topology:
  assumes "hm_wf (db_routes db)"
  shows "reports (tsn_routes (get_topology (control_service_new k tb reg (Some db)))) dst hops cost \<longleftrightarrow>
    (\<exists>cr. get_route db dst = Some cr \<and> [cr_next_hop cr] = hops \<and> cr_total_cost cr = cost)"
  using reports_map[OF assms, of "\<lambda>cr. [cr_next_hop cr]" cr_total_cost]
  by (simp add: get_topology_def control_service_new_def get_routes_def get_route_def Let_def)

text \<open>
  The two reports on messages agree: what an operator is told by the control service are the counters of the tracker and the rates of the
  monitoring, and the service that has no tracker says so.
\<close>

lemma message_metrics_agree:
  "get_message_metrics s = (case ctl_message_tracker s of
      None \<Rightarrow> Err (Unavailable ''Message tracking not enabled'')
    | Some t \<Rightarrow> (let d = from_stats (tracker_get_stats t); number = \<lambda>status. of_nat (in_state status t)
        in Ok \<lparr>mm_total_messages = of_nat (length t), mm_undeliverable = number Undeliverable, mm_queued = number Queued,
               mm_pending_node = number PendingNode, mm_pending_client = number PendingClient,
               mm_delivered = number Delivered, mm_waiting_for_ack = number WaitingForClientAck,
               mm_ack_success = number AckSuccess, mm_ack_failure = number AckFailure,
               mm_success_rate = msd_success_rate d, mm_failure_rate = msd_failure_rate d,
               mm_pending_rate = msd_pending_rate d\<rparr>))"
  by (simp add: get_message_metrics_def from_stats_def metrics_rate tracker_get_stats_counts Let_def split: option.split)



text \<open>
  A session in the task with the given handle, or in one that has none: of an accepted connection or a connector of the command
  line. An aborted task is not run on from where its session waits, so the session takes no more inputs and
  is not cleaned up.
\<close>

definition session_task_loop :: "mesh_node \<Rightarrow> nat option \<Rightarrow> 'o session_env \<Rightarrow> node_id option \<Rightarrow> session_input list \<Rightarrow> 'o session_run
    \<Rightarrow> (session_error, unit) outcome option \<times> 'o session_run" where
  "session_task_loop n task_handle env tls_node_id inputs r =
     (if (case task_handle of Some h \<Rightarrow> h \<in> set (mn_aborted n) | None \<Rightarrow> False) then (None, r)
      else session_loop env tls_node_id inputs r)"

text \<open>
  C9: What dropping a session does. The request puts the command into the channel of the event loop, which takes the peer from its
  neighbours. When the session runs in a task the event loop has started for an operator, that task is aborted, and that is all: the session
  stops where it is and announces nothing, and the session manager, the database and the routing table are as before, with
  the link. Any other session finds a termination message in its channel, ends its loop on it, announces its end and leaves
  the registry of channels; when the event loop and the session manager have worked that off, the peer is gone from the sessions of the manager, the
  node is connected to the same peers as before but this one, advertises exactly those, and its routes are the shortest
  paths without the link. (A connector of the command line then dials again, see \<open>ended_session_redialled\<close>.)
\<close>

theorem drop_session_effect:
  assumes "settled n" and "ctl_session_command_tx s = Some (Some commands)"
    and "mn_session_registry n = Some registry" and "hm_get registry peer = Some info"
    and "hm_get (mn_channels n) (si_message_tx info) = Some queue" and "get_sessions m = registry"
    and "ses_remote_node_id (run_state r) = Some peer" and "\<forall>h. task = Some h \<longrightarrow> h \<notin> set (mn_aborted n)"
  shows "\<exists>n1. drop_session peer s = (Ok (), s\<lparr>ctl_session_command_tx := Some (Some (commands @ [DropSession peer]))\<rparr>)
     \<and> node_step (CommandInput (DropSession peer)) n = Some n1 \<and> peers n1 = peers n - {peer}
     \<and> (if task \<noteq> None \<and> hm_get (mn_outbound_session_tasks n) (si_remote_addr info) = task
        then session_task_loop n1 task env tls_node_id inputs r = (None, r) \<and> mn_manager_events n1 = mn_manager_events n
          \<and> mn_topology_db n1 = mn_topology_db n \<and> mn_routing_table n1 = mn_routing_table n \<and> mn_tasks n1 = []
        else \<exists>r1 n2 bye m'.
          hm_get (mn_channels n1) (si_message_tx info) = Some (queue @ [bye])
          \<and> session_task_loop n1 task env tls_node_id [OutboundReady now bye] r = (Some (Ok ()), r1)
          \<and> run_events r1 = run_events r @ [Disconnected (Some peer)] \<and> hm_get (run_registry r1) peer = None
          \<and> node_run (serial [(SessionInput (last (run_events r1)), unix, unix', clock)]) n1 = Some n2
          \<and> mn_manager_events n2 = map_option (\<lambda>es. es @ [last (run_events r1)]) (mn_manager_events n)
          \<and> handle_session_event hash (last (run_events r1)) m = m'
          \<and> hm_get (get_sessions m') = (hm_get registry)(peer := None)
          \<and> peers n2 = peers n - {peer} \<and> advertises n2 \<and> follows n2 \<and> routes_ok (mn_topology_db n2))"
proof -
  let ?bye = "create_termination_message (mn_node_id n) peer"
  define n1 where "n1 = on_session_command (DropSession peer) n"
  have step: "node_step (CommandInput (DropSession peer)) n = Some n1" by (simp add: node_step_def n1_def)
  have n1: "node_ok n1" "mn_tasks n1 = []" "mn_topology_db n1 = mn_topology_db n" "mn_routing_table n1 = mn_routing_table n"
      "mn_manager_events n1 = mn_manager_events n" "hm_get (mn_channels n1) (si_message_tx info) = Some (queue @ [?bye])"
      "set (mn_aborted n1) = set (mn_aborted n) \<union> set_option (hm_get (mn_outbound_session_tasks n) (si_remote_addr info))"
    using assms(1,3-5) by (auto simp: n1_def on_session_command_def settled_def node_ok_def channel_send_def split: option.split)
  have p1: "peers n1 = peers n - {peer}" using node_step_view[OF step] by (simp add: peer_step_def)
  have req: "drop_session peer s = (Ok (), s\<lparr>ctl_session_command_tx := Some (Some (commands @ [DropSession peer]))\<rparr>)"
    using assms(2) by (simp add: drop_session_def send_command_def)
  show ?thesis
  proof (cases "task \<noteq> None \<and> hm_get (mn_outbound_session_tasks n) (si_remote_addr info) = task")
    case True
    then have "session_task_loop n1 task env tls_node_id inputs r = (None, r)"
      using n1(7) by (auto simp: session_task_loop_def)
    with True req step p1 n1 show ?thesis by (intro exI[of _ n1]) simp
  next
    case False
    let ?r1 = "session_cleanup r"
    have "is_termination_message ?bye"
      by (simp add: is_termination_message_def create_termination_message_def has_frame_type_def hm_get_def)
    then have r1: "session_task_loop n1 task env tls_node_id [OutboundReady now ?bye] r = (Some (Ok ()), ?r1)"
        "run_events ?r1 = run_events r @ [Disconnected (Some peer)]" "hm_get (run_registry ?r1) peer = None"
      using assms(7,8) False n1(7)
      by (auto simp: session_task_loop_def session_step_def on_outbound_def session_cleanup_def emit_def split: option.split)
    obtain n2 where n2: "node_run (serial [(SessionInput (Disconnected (Some peer)), unix, unix', clock)]) n1 = Some n2" "settled n2"
      using session_change_settles[OF n1(1,2), of "Disconnected (Some peer)" False _ peer unix unix' clock] by auto
    have v2: "peers n2 = peers n - {peer}" "mn_manager_events n2 = map_option (\<lambda>es. es @ [Disconnected (Some peer)]) (mn_manager_events n)"
      using node_run_view[OF n2(1)] n1(5) p1 by (auto simp: peer_step_def session_events_def List.map_filter_simps)
    define m' where "m' = handle_session_event hash (Disconnected (Some peer)) m"
    have m': "hm_get (get_sessions m') = (hm_get registry)(peer := None)"
      using assms(6) by (auto simp: m'_def handle_session_event_def get_sessions_def fun_eq_iff)
    have "advertises n2" "follows n2" "routes_ok (mn_topology_db n2)"
      using n2(2) by (simp_all add: settled_def node_ok_def db_ok_def)
    with n1(6) r1 n2(1) v2 m' have "hm_get (mn_channels n1) (si_message_tx info) = Some (queue @ [?bye])
          \<and> session_task_loop n1 task env tls_node_id [OutboundReady now ?bye] r = (Some (Ok ()), ?r1)
          \<and> run_events ?r1 = run_events r @ [Disconnected (Some peer)] \<and> hm_get (run_registry ?r1) peer = None
          \<and> node_run (serial [(SessionInput (last (run_events ?r1)), unix, unix', clock)]) n1 = Some n2
          \<and> mn_manager_events n2 = map_option (\<lambda>es. es @ [last (run_events ?r1)]) (mn_manager_events n)
          \<and> handle_session_event hash (last (run_events ?r1)) m = m'
          \<and> hm_get (get_sessions m') = (hm_get registry)(peer := None)
          \<and> peers n2 = peers n - {peer} \<and> advertises n2 \<and> follows n2 \<and> routes_ok (mn_topology_db n2)"
      unfolding r1(2) last_snoc m'_def by (intro conjI refl)
    with req step p1 show ?thesis unfolding if_not_P[OF False] by blast
  qed
qed

section \<open>Witnesses\<close>


text \<open>
  A node with a session, which is dropped: once it was accepted, and once it was added by an operator.
\<close>

definition ex_session_info :: session_info where
  "ex_session_info = \<lparr>si_remote_node_id = 2, si_remote_addr = ''b'', si_message_tx = 7\<rparr>"

definition ex_control :: control_service where
  "ex_control = set_session_command_channel (Some []) (control_service_new 1 None None None)"

theorem drop_session_effect_witness:
  "\<exists>n n2 (r1 :: bytes list session_run) k k1. settled n \<and> 2 \<in> peers n \<and> run_events r1 = [Disconnected (Some 2)]
     \<and> 2 \<notin> peers n2 \<and> follows n2 \<and> advertises n2
     \<and> settled k \<and> node_step (CommandInput (DropSession 2)) k = Some k1 \<and> mn_topology_db k1 = mn_topology_db k \<and> 2 \<notin> peers k1"
proof -
  obtain n0 where n0: "settled n0" "2 \<in> peers n0" "mn_outbound_session_tasks n0 = []" "mn_aborted n0 = []"
  proof -
    have "list_all (\<lambda>(i, _). input_ok 1 i) three_inputs"
      by (simp add: three_inputs_def input_ok_def link_update_def topology_update_new_def)
    then have "\<exists>n. node_run (serial three_inputs) (mesh_node_new 1 True) = Some n \<and> settled n"
      using serial_settles[OF settled_new[of 1 True], of three_inputs] by (auto simp: mesh_node_new_def)
    moreover have "\<exists>n. node_run (serial three_inputs) (mesh_node_new 1 True) = Some n
        \<and> hm_contains (mn_connected_neighbors n) 2 \<and> mn_outbound_session_tasks n = [] \<and> mn_aborted n = []"
      by (simp add: node_eval three_inputs_def link_update_def hm_contains_def)
    ultimately show thesis using that by (auto simp: peers_def)
  qed
  define n where "n = n0\<lparr>mn_session_registry := Some [(2, ex_session_info)], mn_channels := [(7, [])]\<rparr>"
  define k where "k = n\<lparr>mn_outbound_session_tasks := [(''b'', 0)]\<rparr>"
  define m where "m = register_session 2 ''b'' 7 (session_manager_new 1 (routing_table_new 1))"
  define r where "r = (initial_run 0 ([] :: bytes list) [])\<lparr>run_state := session_state_new\<lparr>ses_remote_node_id := Some 2\<rparr>\<rparr>"
  have settled: "settled n" "settled k"
    by (rule settled_idle[OF n0(1)]; use n0(1) in \<open>simp add: n_def k_def settled_def\<close>)+
  have b: "ctl_session_command_tx ex_control = Some (Some [])"
    by (simp add: ex_control_def set_session_command_channel_def)
  have c: "mn_session_registry n = Some [(2, ex_session_info)]" "hm_get [(2 :: node_id, ex_session_info)] 2 = Some ex_session_info"
    "hm_get (mn_channels n) (si_message_tx ex_session_info) = Some []" "get_sessions m = [(2, ex_session_info)]"
    "ses_remote_node_id (run_state r) = Some 2" "\<forall>h. None = Some h \<longrightarrow> h \<notin> set (mn_aborted n)"
    "mn_session_registry k = Some [(2, ex_session_info)]" "hm_get (mn_channels k) (si_message_tx ex_session_info) = Some []"
    "\<forall>h. Some 0 = Some h \<longrightarrow> h \<notin> set (mn_aborted k)"
    "hm_get (mn_outbound_session_tasks k) (si_remote_addr ex_session_info) = Some 0"
    using n0(4) by (simp_all add: n_def k_def r_def m_def ex_session_info_def hm_get_def register_session_def session_manager_new_def
        get_sessions_def)
  obtain r1 :: "bytes list session_run" and n2 where
    "run_events r1 = run_events r @ [Disconnected (Some 2)]" "peers n2 = peers n - {2}" "advertises n2" "follows n2"
    using drop_session_effect[OF settled(1) b c(1-6), of "ex_env 1" None "[]" 0 0 0 noon "\<lambda>_. 0"] by auto
  moreover have "run_events r = []" "2 \<in> peers n" using n0(2) by (simp_all add: r_def initial_run_def n_def peers_def)
  moreover obtain k1 where "node_step (CommandInput (DropSession 2)) k = Some k1" "mn_topology_db k1 = mn_topology_db k"
      "peers k1 = peers k - {2}"
    using drop_session_effect[OF settled(2) b c(7,2,8,4,5,9), of "ex_env 1" None "[]" 0 0 0 noon "\<lambda>_. 0"] c(10) by auto
  ultimately show ?thesis using settled
    by (intro exI[of _ n] exI[of _ n2] exI[of _ r1] exI[of _ k] exI[of _ k1]) simp
qed

end
