(* ===== verification/Transport.thy ===== *)
theory Transport
  imports Manager
begin

text \<open>
  The transport of sessions: \<open>mesh-session/src/transport.rs\<close>, with the places of \<open>main.rs\<close> and \<open>session.rs\<close> that
  open a stream. TLS configurations are put together from PEM files by the packages for PEM, X.509 and TLS, which are
  parameters; the node a certificate names is read from its alternative names.
\<close>

section \<open>Node identifiers in certificates\<close>

text \<open>Reading a \<open>u64\<close> as \<open>str::parse\<close> does: an optional sign, then decimal digits, with every step checked for overflow.\<close>

definition to_digit :: "char \<Rightarrow> nat option" where
  "to_digit c = (if 48 \<le> (of_char c :: nat) \<and> (of_char c :: nat) < 58 then Some (of_char c - 48) else None)"

fun parse_digits :: "u64 \<Rightarrow> string \<Rightarrow> u64 option" where
  "parse_digits acc [] = Some acc"
| "parse_digits acc (c # cs) =
     (case to_digit c of
        Some d \<Rightarrow> if unat acc * 10 + d < 2 ^ 64 then parse_digits (of_nat (unat acc * 10 + d)) cs else None
      | None \<Rightarrow> None)"

definition parse_u64 :: "string \<Rightarrow> u64 option" where
  "parse_u64 s =
     (case s of
        [] \<Rightarrow> None
      | c # cs \<Rightarrow> if c = CHR ''+'' then (if cs = [] then None else parse_digits 0 cs) else parse_digits 0 s)"

fun strip_prefix :: "string \<Rightarrow> string \<Rightarrow> string option" where
  "strip_prefix [] s = Some s"
| "strip_prefix (p # ps) [] = None"
| "strip_prefix (p # ps) (c # cs) = (if p = c then strip_prefix ps cs else None)"

datatype general_name = URI string | OtherName

datatype cert_error = CertInvalid | CertNodeIdInvalid | CertNodeIdMissing

fun node_id_of_names :: "general_name list \<Rightarrow> (cert_error, node_id) outcome" where
  "node_id_of_names [] = Err CertNodeIdMissing"
| "node_id_of_names (URI uri # names) =
     (case strip_prefix ''mesh://node/'' uri of
        Some node_id_str \<Rightarrow> ok_or (parse_u64 node_id_str) CertNodeIdInvalid
      | None \<Rightarrow> node_id_of_names names)"
| "node_id_of_names (OtherName # names) = node_id_of_names names"

text \<open>
  The parser of certificates gives nothing for bytes that are no certificate, and otherwise the alternative names, where
  the certificate has them.
\<close>

type_synonym x509 = "bytes \<Rightarrow> general_name list option option"

definition extract_node_id_from_cert :: "x509 \<Rightarrow> bytes \<Rightarrow> (cert_error, node_id) outcome" where
  "extract_node_id_from_cert parse cert_der =
     (case parse cert_der of
        None \<Rightarrow> Err CertInvalid
      | Some (Some general_names) \<Rightarrow> node_id_of_names general_names
      | Some None \<Rightarrow> Err CertNodeIdMissing)"

text \<open>What a session makes of the result.\<close>

definition cert_node_id :: "x509 \<Rightarrow> bytes \<Rightarrow> node_id option" where
  "cert_node_id parse cert_der =
     (case extract_node_id_from_cert parse cert_der of Ok node_id \<Rightarrow> Some node_id | _ \<Rightarrow> None)"

section \<open>TLS configurations\<close>

datatype tls_error = ChainParse | ChainEmpty | KeyParse | KeyMissing | CaParse | CaRejected | VerifierRejected
  | CertRejected | ServerNameInvalid | HandshakeFailed

text \<open>The packages: certificates and keys of a PEM file, trust anchors, the verifier of client certificates.\<close>

record ('c, 'k, 'a, 'v) tls_env =
  pem_certs :: "string \<Rightarrow> 'c list option"
  pem_pkcs8_private_keys :: "string \<Rightarrow> 'k list option"
  root_anchor :: "'c \<Rightarrow> 'a option"
  client_verifier :: "'a list \<Rightarrow> 'v option"
  server_cert_ok :: "'c list \<Rightarrow> 'k \<Rightarrow> bool"
  client_cert_ok :: "'c list \<Rightarrow> 'k \<Rightarrow> bool"

record ('c, 'k, 'v) server_config =
  srv_verifier :: 'v
  srv_certs :: "'c list"
  srv_key :: 'k
  srv_alpn_protocols :: "string list"

record ('c, 'k, 'a) client_config =
  cli_roots :: "'a list"
  cli_certs :: "'c list"
  cli_key :: 'k
  cli_alpn_protocols :: "string list"

fun add_roots :: "('c \<Rightarrow> 'a option) \<Rightarrow> 'c list \<Rightarrow> 'a list \<Rightarrow> (tls_error, 'a list) outcome" where
  "add_roots anchor [] roots = Ok roots"
| "add_roots anchor (c # cs) roots =
     (case anchor c of Some a \<Rightarrow> add_roots anchor cs (roots @ [a]) | None \<Rightarrow> Err CaRejected)"

definition load_chain :: "('c, 'k, 'a, 'v) tls_env \<Rightarrow> string \<Rightarrow> (tls_error, 'c list) outcome" where
  "load_chain env cert_chain_pem =
     obind (ok_or (pem_certs env cert_chain_pem) ChainParse)
       (\<lambda>certs. if certs = [] then Err ChainEmpty else Ok certs)"

definition load_key :: "('c, 'k, 'a, 'v) tls_env \<Rightarrow> string \<Rightarrow> (tls_error, 'k) outcome" where
  "load_key env private_key_pem =
     obind (ok_or (pem_pkcs8_private_keys env private_key_pem) KeyParse)
       (\<lambda>keys. case keys of [] \<Rightarrow> Err KeyMissing | key # _ \<Rightarrow> Ok key)"

definition load_roots :: "('c, 'k, 'a, 'v) tls_env \<Rightarrow> string \<Rightarrow> (tls_error, 'a list) outcome" where
  "load_roots env ca_pem =
     obind (ok_or (pem_certs env ca_pem) CaParse) (\<lambda>ca_certs. add_roots (root_anchor env) ca_certs [])"

definition make_server_config :: "('c, 'k, 'a, 'v) tls_env \<Rightarrow> string \<Rightarrow> string \<Rightarrow> string
    \<Rightarrow> (tls_error, ('c, 'k, 'v) server_config) outcome" where
  "make_server_config env cert_chain_pem private_key_pem ca_pem =
     obind (load_chain env cert_chain_pem) (\<lambda>certs.
     obind (load_key env private_key_pem) (\<lambda>key.
     obind (load_roots env ca_pem) (\<lambda>roots.
     obind (ok_or (client_verifier env roots) VerifierRejected) (\<lambda>verifier.
     if server_cert_ok env certs key
     then Ok \<lparr>srv_verifier = verifier, srv_certs = certs, srv_key = key, srv_alpn_protocols = [''mesh/1'']\<rparr>
     else Err CertRejected))))"

definition make_client_config :: "('c, 'k, 'a, 'v) tls_env \<Rightarrow> string \<Rightarrow> string \<Rightarrow> string
    \<Rightarrow> (tls_error, ('c, 'k, 'a) client_config) outcome" where
  "make_client_config env cert_chain_pem private_key_pem ca_pem =
     obind (load_roots env ca_pem) (\<lambda>roots.
     obind (load_chain env cert_chain_pem) (\<lambda>certs.
     obind (load_key env private_key_pem) (\<lambda>key.
     if client_cert_ok env certs key
     then Ok \<lparr>cli_roots = roots, cli_certs = certs, cli_key = key, cli_alpn_protocols = [''mesh/1'']\<rparr>
     else Err CertRejected)))"

section \<open>Opening a stream\<close>

text \<open>
  A stream is what the network package gives. A handshake fails or gives the encrypted stream and
  the certificates of the peer, where it has sent any.
\<close>

datatype 's io_stream = Plain 's | Tls 's | TlsClient 's

definition peer_addr :: "('s \<Rightarrow> string option) \<Rightarrow> 's io_stream \<Rightarrow> string option" where
  "peer_addr addr stream = (case stream of Plain s \<Rightarrow> addr s | Tls s \<Rightarrow> addr s | TlsClient s \<Rightarrow> addr s)"

type_synonym 's handshake = "'s \<Rightarrow> ('s \<times> bytes list option) option"

definition first_cert :: "bytes list option \<Rightarrow> bytes" where
  "first_cert certs = get_or [] (Option.bind certs (\<lambda>cs. case cs of c # _ \<Rightarrow> Some c | [] \<Rightarrow> None))"

text \<open>A stream whose peer has no address any more panics: the text that is to stand for the address is no address.\<close>

definition accept_tls :: "('s \<Rightarrow> string option) \<Rightarrow> 's handshake \<Rightarrow> 's \<Rightarrow> (tls_error, 's io_stream \<times> bytes) outcome" where
  "accept_tls addr acceptor tcp_stream =
     (if addr tcp_stream = None then Panic
      else case acceptor tcp_stream of
             Some (tls_stream, certs) \<Rightarrow> Ok (Tls tls_stream, first_cert certs)
           | None \<Rightarrow> Err HandshakeFailed)"

definition connect_tls :: "('s \<Rightarrow> string option) \<Rightarrow> (string \<Rightarrow> 's handshake option) \<Rightarrow> 's \<Rightarrow> string
    \<Rightarrow> (tls_error, 's io_stream \<times> bytes) outcome" where
  "connect_tls addr connector tcp_stream sni =
     (if addr tcp_stream = None then Panic
      else case connector sni of
             None \<Rightarrow> Err ServerNameInvalid
           | Some connect \<Rightarrow>
               (case connect tcp_stream of
                  Some (tls_stream, certs) \<Rightarrow> Ok (TlsClient tls_stream, first_cert certs)
                | None \<Rightarrow> Err HandshakeFailed))"

text \<open>The stream and the certificate a session is started with, for an accepted connection and for one that was dialled.\<close>

definition accept_connection :: "('s \<Rightarrow> string option) \<Rightarrow> 's handshake option \<Rightarrow> 's \<Rightarrow> ('s io_stream \<times> bytes option) option" where
  "accept_connection addr tls_acceptor tcp_stream =
     (case tls_acceptor of
        Some acceptor \<Rightarrow>
          (case accept_tls addr acceptor tcp_stream of Ok (stream, cert) \<Rightarrow> Some (stream, Some cert) | _ \<Rightarrow> None)
      | None \<Rightarrow> Some (Plain tcp_stream, None))"

definition dial_connection :: "('s \<Rightarrow> string option) \<Rightarrow> ((string \<Rightarrow> 's handshake option) \<times> string) option \<Rightarrow> 's
    \<Rightarrow> (tls_error, 's io_stream \<times> bytes option) outcome" where
  "dial_connection addr tls_config tcp_stream =
     (case tls_config of
        Some (client_config, server_name) \<Rightarrow>
          obind (connect_tls addr client_config tcp_stream server_name) (\<lambda>(stream, cert). Ok (stream, Some cert))
      | None \<Rightarrow> Ok (Plain tcp_stream, None))"

section \<open>Numbers and names\<close>

lemma parse_digits_append: "parse_digits a (xs @ ys) = Option.bind (parse_digits a xs) (\<lambda>b. parse_digits b ys)"
  by (induction xs arbitrary: a) (simp_all split: option.split)

lemma to_digit [simp]: "d < 10 \<Longrightarrow> to_digit (char_of (48 + d)) = Some d" for d :: nat
  by (simp add: to_digit_def)

lemma parse_digits_string_of_nat: "n < 2 ^ 64 \<Longrightarrow> parse_digits 0 (string_of_nat n) = Some (of_nat n)"
proof (induction n rule: string_of_nat.induct)
  case (1 n)
  show ?case
  proof (cases "n < 10")
    case True
    then show ?thesis by (simp add: string_of_nat.simps)
  next
    case False
    with 1 have ih: "parse_digits 0 (string_of_nat (n div 10)) = Some (of_nat (n div 10))" by simp
    have "n div 10 < 2 ^ 64" using 1(2) by simp
    then have "unat (of_nat (n div 10) :: u64) = n div 10" by (simp add: unat_of_nat)
    moreover have "n div 10 * 10 + n mod 10 = n" by simp
    ultimately have "parse_digits (of_nat (n div 10)) [char_of (48 + n mod 10)] = Some (of_nat n)"
      using 1(2) by (simp del: of_nat_add of_nat_mult)
    with ih False show ?thesis by (subst string_of_nat.simps) (simp add: parse_digits_append)
  qed
qed

lemma string_of_nat_head: "\<exists>d cs. string_of_nat n = char_of (48 + d) # cs \<and> d < (10 :: nat)"
proof (induction n rule: string_of_nat.induct)
  case (1 n)
  show ?case
  proof (cases "n < 10")
    case True
    then show ?thesis by (intro exI[of _ n]) (simp add: string_of_nat.simps[of n])
  next
    case False
    with 1 obtain d cs where "string_of_nat (n div 10) = char_of (48 + d) # cs" "d < (10 :: nat)" by blast
    with False show ?thesis by (intro exI[of _ d]) (simp add: string_of_nat.simps[of n])
  qed
qed

lemma parse_string_of_nat: "parse_u64 (string_of_nat (unat n)) = Some n"
proof -
  obtain d :: nat and cs where d: "string_of_nat (unat n) = char_of (48 + d) # cs" "d < 10"
    using string_of_nat_head by blast
  have "to_digit CHR ''+'' = None" by (simp add: to_digit_def)
  with d(2) have "char_of (48 + d) \<noteq> CHR ''+''" by (metis option.distinct(1) to_digit)
  then have "parse_u64 (string_of_nat (unat n)) = parse_digits 0 (string_of_nat (unat n))"
    by (simp add: parse_u64_def d(1))
  then show ?thesis using parse_digits_string_of_nat[of "unat n"] unsigned_less[of n] by simp
qed

lemma strip_prefix_append [simp]: "strip_prefix p (p @ s) = Some s"
  by (induction p) simp_all

lemma strip_prefix_Some_iff: "strip_prefix p s = Some t \<longleftrightarrow> s = p @ t"
  by (induction p s rule: strip_prefix.induct) auto


text \<open>The decimal numbers a node may be written as.\<close>

definition decimal :: "nat list \<Rightarrow> nat \<Rightarrow> nat" where
  "decimal ds v = foldl (\<lambda>v d. v * 10 + d) v ds"

definition digits :: "nat list \<Rightarrow> string" where
  "digits ds = map (\<lambda>d. char_of (48 + d)) ds"

definition written_as :: "node_id \<Rightarrow> string \<Rightarrow> bool" where
  "written_as n s \<longleftrightarrow> (\<exists>ds. ds \<noteq> [] \<and> list_all (\<lambda>d. d < 10) ds \<and> decimal ds 0 = unat n \<and> (s = digits ds \<or> s = ''+'' @ digits ds))"

lemma u64_less: "unat n < 2 ^ 64" for n :: u64
  by (rule order_less_le_trans[OF unsigned_less]) simp

lemma decimal_ge: "v \<le> decimal ds v"
proof (induction ds arbitrary: v)
  case (Cons d ds)
  have "v * 10 + d \<le> decimal ds (v * 10 + d)" by (rule Cons.IH)
  then show ?case by (simp add: decimal_def)
qed (simp add: decimal_def)

lemma to_digit_Some_iff: "to_digit c = Some d \<longleftrightarrow> d < 10 \<and> c = char_of (48 + d)"
proof
  assume "to_digit c = Some d"
  then have "of_char c = 48 + d" "d < 10" by (auto simp: to_digit_def split: if_splits)
  then show "d < 10 \<and> c = char_of (48 + d)" by (metis char_of_char)
qed auto

lemma parse_digits_Some_iff:
  "parse_digits a cs = Some n \<longleftrightarrow> (\<exists>ds. cs = digits ds \<and> list_all (\<lambda>d. d < 10) ds \<and> decimal ds (unat a) = unat n)"
proof (induction cs arbitrary: a)
  case Nil
  then show ?case by (auto simp: digits_def decimal_def word_eq_iff_unsigned)
next
  case (Cons c cs)
  show ?case
  proof (cases "to_digit c")
    case None
    then show ?thesis using to_digit by (fastforce simp: digits_def)
  next
    case (Some d)
    let ?v = "unat a * 10 + d"
    have "(\<exists>ds. c # cs = digits ds \<and> list_all (\<lambda>d. d < 10) ds \<and> decimal ds (unat a) = unat n) \<longleftrightarrow>
        (\<exists>ds. cs = digits ds \<and> list_all (\<lambda>d. d < 10) ds \<and> decimal ds ?v = unat n)" (is "?l \<longleftrightarrow> ?r")
    proof
      assume ?l
      then obtain e ds where "c = char_of (48 + e)" "e < 10" "cs = digits ds" "list_all (\<lambda>d. d < 10) ds"
          "decimal ds (unat a * 10 + e) = unat n"
        by (auto simp: digits_def decimal_def Cons_eq_map_conv)
      moreover from this Some have "e = d" by simp
      ultimately show ?r by auto
    next
      assume ?r
      then obtain ds where "cs = digits ds" "list_all (\<lambda>d. d < 10) ds" "decimal ds ?v = unat n" by auto
      with Some show ?l by (intro exI[of _ "d # ds"]) (simp add: digits_def decimal_def to_digit_Some_iff)
    qed
    moreover have "?v < 2 ^ 64" if "decimal ds ?v = unat n" for ds
      using decimal_ge[of ?v ds] that u64_less[of n] by simp
    moreover have "unat (of_nat ?v :: u64) = ?v" if "?v < 2 ^ 64"
      using that by (simp add: unat_of_nat del: of_nat_add of_nat_mult)
    ultimately show ?thesis
      using Cons.IH[of "of_nat ?v"] Some by (auto simp del: of_nat_add of_nat_mult)
  qed
qed

lemma parse_u64_Some_iff: "parse_u64 s = Some n \<longleftrightarrow> written_as n s"
proof -
  have plus: "digits ds \<noteq> CHR ''+'' # cs" if "list_all (\<lambda>d. d < 10) ds" for ds cs
  proof
    assume "digits ds = CHR ''+'' # cs"
    then obtain d where "d \<in> set ds" "char_of (48 + d) = CHR ''+''"
      by (cases ds) (auto simp: digits_def)
    with that have "to_digit CHR ''+'' = Some d" using to_digit[of d] by (metis list_all_iff)
    then show False by (simp add: to_digit_def split: if_splits)
  qed
  show ?thesis
  proof (cases s)
    case Nil
    then show ?thesis by (auto simp: parse_u64_def written_as_def digits_def)
  next
    case (Cons c cs)
    show ?thesis
    proof (cases "c = CHR ''+''")
      case True
      have "written_as n s \<longleftrightarrow> (\<exists>ds. ds \<noteq> [] \<and> list_all (\<lambda>d. d < 10) ds \<and> decimal ds 0 = unat n \<and> cs = digits ds)"
        unfolding written_as_def Cons True using plus by (metis append_Cons append_Nil list.inject)
      moreover have "ds \<noteq> [] \<longleftrightarrow> cs \<noteq> []" if "cs = digits ds" for ds using that by (auto simp: digits_def)
      moreover have "parse_u64 s = Some n \<longleftrightarrow> cs \<noteq> [] \<and> parse_digits 0 cs = Some n"
        by (simp add: parse_u64_def Cons True)
      ultimately show ?thesis unfolding parse_digits_Some_iff by auto
    next
      case False
      have "written_as n s \<longleftrightarrow> (\<exists>ds. ds \<noteq> [] \<and> list_all (\<lambda>d. d < 10) ds \<and> decimal ds 0 = unat n \<and> s = digits ds)"
        unfolding written_as_def using False by (simp add: Cons)
      moreover have "ds \<noteq> []" if "s = digits ds" for ds using that Cons by (auto simp: digits_def)
      moreover have "parse_u64 s = Some n \<longleftrightarrow> parse_digits 0 s = Some n" by (simp add: parse_u64_def Cons False)
      ultimately show ?thesis unfolding parse_digits_Some_iff by auto
    qed
  qed
qed

text \<open>The name that decides: the first that has the form of a node of the mesh.\<close>

definition decides :: "general_name list \<Rightarrow> string \<Rightarrow> bool" where
  "decides names s \<longleftrightarrow> (\<exists>before after. names = before @ URI (''mesh://node/'' @ s) # after
     \<and> (\<forall>t. URI (''mesh://node/'' @ t) \<notin> set before))"

lemma decides_Nil [simp]: "\<not> decides [] s"
  by (simp add: decides_def)

lemma decides_Cons:
  "decides (x # names) s \<longleftrightarrow> x = URI (''mesh://node/'' @ s) \<or> (\<forall>t. x \<noteq> URI (''mesh://node/'' @ t)) \<and> decides names s"
proof
  assume "decides (x # names) s"
  then obtain before after where ba: "x # names = before @ URI (''mesh://node/'' @ s) # after"
      "\<forall>t. URI (''mesh://node/'' @ t) \<notin> set before" by (auto simp: decides_def)
  then show "x = URI (''mesh://node/'' @ s) \<or> (\<forall>t. x \<noteq> URI (''mesh://node/'' @ t)) \<and> decides names s"
    by (cases before) (auto simp: decides_def)
next
  assume "x = URI (''mesh://node/'' @ s) \<or> (\<forall>t. x \<noteq> URI (''mesh://node/'' @ t)) \<and> decides names s"
  then show "decides (x # names) s"
  proof
    assume "x = URI (''mesh://node/'' @ s)"
    then show ?thesis unfolding decides_def by (intro exI[of _ "[]"] exI[of _ names]) simp
  next
    assume a: "(\<forall>t. x \<noteq> URI (''mesh://node/'' @ t)) \<and> decides names s"
    then obtain before after where ba: "names = before @ URI (''mesh://node/'' @ s) # after"
        "\<forall>t. URI (''mesh://node/'' @ t) \<notin> set before" by (auto simp: decides_def)
    show ?thesis unfolding decides_def
      by (rule exI[of _ "x # before"], rule exI[of _ after]) (use a ba in auto)
  qed
qed

text \<open>What the loop over the names returns.\<close>

lemma node_id_of_names_spec:
  "node_id_of_names names = Ok n \<longleftrightarrow> (\<exists>s. decides names s \<and> written_as n s)"
  "node_id_of_names names = Err CertNodeIdInvalid \<longleftrightarrow> (\<exists>s. decides names s \<and> (\<forall>n. \<not> written_as n s))"
  "node_id_of_names names = Err CertNodeIdMissing \<longleftrightarrow> (\<forall>s. \<not> decides names s)"
proof (induction names rule: node_id_of_names.induct)
  case (2 uri names)
  note ih = this
  have d: "decides (URI uri # names) s \<longleftrightarrow>
      (case strip_prefix ''mesh://node/'' uri of Some t \<Rightarrow> s = t | None \<Rightarrow> decides names s)" for s
    unfolding decides_Cons using strip_prefix_Some_iff[of "''mesh://node/''" uri]
    by (cases "strip_prefix ''mesh://node/'' uri") (auto simp del: append.simps)
  {
    case 1
    show ?case using ih by (simp add: d ok_or_def parse_u64_Some_iff[symmetric] split: option.split)
  next
    case 2
    show ?case using ih by (simp add: d ok_or_def parse_u64_Some_iff[symmetric] split: option.split)
  next
    case 3
    show ?case using ih by (simp add: d ok_or_def split: option.split)
  }
qed (simp_all add: decides_Cons)


lemmas load_defs = load_chain_def load_key_def load_roots_def

text \<open>The trust anchors are those of all the certificates, in order.\<close>

lemma add_roots_Ok:
  "add_roots anchor cs roots = Ok rs \<longleftrightarrow> (\<exists>as. map anchor cs = map Some as \<and> rs = roots @ as)"
proof (induction cs arbitrary: roots)
  case (Cons c cs)
  show ?case
  proof (cases "anchor c")
    case (Some a)
    then have "map anchor (c # cs) = map Some as \<longleftrightarrow> (\<exists>as'. as = a # as' \<and> map anchor cs = map Some as')" for as
      by (cases as) auto
    with Some Cons.IH[of "roots @ [a]"] show ?thesis by auto
  qed (auto simp: Cons_eq_map_conv)
qed auto

section \<open>Properties\<close>

text \<open>
  C32: The node a certificate names is that of its first alternative name of the form \<open>mesh://node/\<close>, where what follows is the
  node's number in decimal digits, with or without a plus sign; a number that is not written so, or that does not fit
  64 bits, is an error, as is a certificate without such a name; and the plain decimal form of every node is read back as
  that node.
\<close>

theorem certificate_node_id:
  "(extract_node_id_from_cert parse cert = Ok n \<longleftrightarrow>
      (\<exists>names s. parse cert = Some (Some names) \<and> decides names s \<and> written_as n s))
   \<and> (extract_node_id_from_cert parse cert = Err CertNodeIdInvalid \<longleftrightarrow>
      (\<exists>names s. parse cert = Some (Some names) \<and> decides names s \<and> (\<forall>n. \<not> written_as n s)))
   \<and> (extract_node_id_from_cert parse cert = Err CertInvalid \<longleftrightarrow> parse cert = None)
   \<and> written_as m (string_of_nat (unat m))"
proof -
  have "node_id_of_names names \<noteq> Err CertInvalid" for names
    by (induction names rule: node_id_of_names.induct) (auto simp: ok_or_def split: option.split)
  moreover have "written_as m (string_of_nat (unat m))" using parse_string_of_nat[of m] by (simp add: parse_u64_Some_iff)
  ultimately show ?thesis
    unfolding extract_node_id_from_cert_def using node_id_of_names_spec(1,2)
    by (cases "parse cert"; cases "the (parse cert)") simp_all
qed

text \<open>
  The two TLS configurations of a node agree. Made from the same files, both present the whole
  certificate chain with the first private key, both speak exactly the protocol \<open>mesh/1\<close>, and the clients the
  server verifies and the servers the client verifies are judged by the same trust anchors: all those
  of the CA file. No configuration is made without a chain, a key and anchors that the TLS package takes, and
  a file that gives a server configuration gives a client configuration when the client accepts the same chain and key.
\<close>

lemma tls_configs_agree:
  assumes "make_server_config env chain_pem key_pem ca_pem = Ok srv"
  shows "(\<exists>certs keys cas roots. pem_certs env chain_pem = Some certs \<and> certs \<noteq> []
      \<and> pem_pkcs8_private_keys env key_pem = Some keys \<and> keys \<noteq> [] \<and> pem_certs env ca_pem = Some cas
      \<and> map (root_anchor env) cas = map Some roots \<and> client_verifier env roots = Some (srv_verifier srv)
      \<and> srv_certs srv = certs \<and> srv_key srv = hd keys \<and> srv_alpn_protocols srv = [''mesh/1'']
      \<and> make_client_config env chain_pem key_pem ca_pem =
          (if client_cert_ok env certs (hd keys)
           then Ok \<lparr>cli_roots = roots, cli_certs = certs, cli_key = hd keys, cli_alpn_protocols = srv_alpn_protocols srv\<rparr>
           else Err CertRejected))"
proof -
  from assms obtain certs key ks cas roots where
    r: "pem_certs env chain_pem = Some certs" "certs \<noteq> []" "pem_pkcs8_private_keys env key_pem = Some (key # ks)"
      "pem_certs env ca_pem = Some cas" "map (root_anchor env) cas = map Some roots"
      "client_verifier env roots = Some (srv_verifier srv)" "srv_certs srv = certs" "srv_key srv = key"
      "srv_alpn_protocols srv = [''mesh/1'']"
    by (auto simp: make_server_config_def load_defs ok_or_def add_roots_Ok obind_eq_Ok split: option.splits if_splits list.splits)
  have "add_roots (root_anchor env) cas [] = Ok roots" using r(5) add_roots_Ok[of "root_anchor env" cas "[]" roots] by auto
  with r have "make_client_config env chain_pem key_pem ca_pem =
      (if client_cert_ok env certs (hd (key # ks))
       then Ok \<lparr>cli_roots = roots, cli_certs = certs, cli_key = hd (key # ks), cli_alpn_protocols = srv_alpn_protocols srv\<rparr>
       else Err CertRejected)"
    by (simp add: make_client_config_def load_defs ok_or_def)
  with r show ?thesis by (metis list.distinct(1) list.sel(1))
qed

section \<open>Witnesses\<close>

text \<open>A parser of certificates that name node 7, and PEM files with one certificate and one key.\<close>

definition ex_x509 :: x509 where
  "ex_x509 cert = (if cert = [] then None else Some (Some [OtherName, URI ''https://mesh'', URI ''mesh://node/7'']))"

definition ex_tls :: "(nat, nat, nat, nat list) tls_env" where
  "ex_tls = \<lparr>pem_certs = (\<lambda>pem. Some [length pem]), pem_pkcs8_private_keys = (\<lambda>pem. Some [length pem]),
     root_anchor = Some, client_verifier = Some, server_cert_ok = (\<lambda>_ _. True), client_cert_ok = (\<lambda>_ _. True)\<rparr>"

end
