(* ===== verification/Storage_Mode.thy ===== *)
theory Storage_Mode
  imports Session Storage_File
begin

text \<open>
  The choice of a storage backend, \<open>Storage::from_mode\<close> of \<open>mesh-storage/src/lib.rs\<close>, the placeholder for Redis of \<open>backend/redis.rs\<close>, and
  what a restart finds of a file log.
\<close>

section \<open>Redis\<close>

text \<open>No value of the types is ever made: their constructors fail, as do the operations.\<close>

datatype redis_wal = RedisWal
datatype redis_dedup = RedisDedup

definition redis_wal_error :: storage_error where
  "redis_wal_error = Invalid ''Redis WAL not yet implemented''"

definition redis_dedup_error :: storage_error where
  "redis_dedup_error = Invalid ''Redis Dedup not yet implemented''"

definition redis_wal_new :: "string \<Rightarrow> (storage_error, redis_wal) outcome" where
  "redis_wal_new url = Err redis_wal_error"

definition redis_append :: "peer \<Rightarrow> wal_frame \<Rightarrow> redis_wal \<Rightarrow> (storage_error, unit) outcome \<times> redis_wal" where
  "redis_append p f w = (Err redis_wal_error, w)"

definition redis_range :: "redis_wal \<Rightarrow> peer \<Rightarrow> u64 \<Rightarrow> nat option \<Rightarrow> (storage_error, wal_entry list) outcome" where
  "redis_range w p from_exclusive limit = Err redis_wal_error"

definition redis_truncate_through :: "peer \<Rightarrow> u64 \<Rightarrow> redis_wal \<Rightarrow> (storage_error, unit) outcome \<times> redis_wal" where
  "redis_truncate_through p up_to_inclusive w = (Err redis_wal_error, w)"

definition redis_last_appended :: "redis_wal \<Rightarrow> peer \<Rightarrow> (storage_error, u64) outcome" where
  "redis_last_appended w p = Err redis_wal_error"

definition redis_load_ack :: "redis_wal \<Rightarrow> peer \<Rightarrow> (storage_error, ack_state) outcome" where
  "redis_load_ack w p = Err redis_wal_error"

definition redis_store_ack :: "peer \<Rightarrow> ack_state \<Rightarrow> redis_wal \<Rightarrow> (storage_error, unit) outcome \<times> redis_wal" where
  "redis_store_ack p ack w = (Err redis_wal_error, w)"

definition redis_dedup_new :: "string \<Rightarrow> (storage_error, redis_dedup) outcome" where
  "redis_dedup_new url = Err redis_dedup_error"

definition redis_is_processed :: "redis_dedup \<Rightarrow> peer \<Rightarrow> u64 \<Rightarrow> (storage_error, bool) outcome" where
  "redis_is_processed d p msg_id = Err redis_dedup_error"

definition redis_mark_processed :: "peer \<Rightarrow> u64 \<Rightarrow> redis_dedup \<Rightarrow> (storage_error, unit) outcome \<times> redis_dedup" where
  "redis_mark_processed p msg_id d = (Err redis_dedup_error, d)"

definition redis_cum_processed :: "redis_dedup \<Rightarrow> peer \<Rightarrow> (storage_error, u64) outcome" where
  "redis_cum_processed d p = Err redis_dedup_error"

definition redis_advance_cum :: "peer \<Rightarrow> u64 \<Rightarrow> redis_dedup \<Rightarrow> (storage_error, unit) outcome \<times> redis_dedup" where
  "redis_advance_cum p i d = (Err redis_dedup_error, d)"

definition redis_snapshot :: "redis_dedup \<Rightarrow> (storage_error, unit) outcome \<times> redis_dedup" where
  "redis_snapshot d = (Ok (), d)"

section \<open>The choice\<close>

datatype storage =
    MemoryStorage memory_wal memory_dedup
  | FileStorage file_wal file_dedup

definition from_mode :: "(bytes \<Rightarrow> peer_state option) \<Rightarrow> disk \<Rightarrow> storage_mode \<Rightarrow> (storage_error, storage) outcome" where
  "from_mode de d mode =
     (case mode of
        InMemory \<Rightarrow> Ok (MemoryStorage memory_wal_new with_default_window)
      | FileMode data_dir max_bytes every \<Rightarrow>
          let config = \<lparr>segment_bytes = unat max_bytes, fsync_every = every\<rparr>
          in Ok (FileStorage (file_wal_new de config d) (file_dedup_new de 65536 d))
      | RedisCache _ _ \<Rightarrow> Err (Invalid ''Redis cache not yet implemented'')
      | RedisPrimary _ \<Rightarrow> Err (Invalid ''Redis primary not yet implemented''))"


section \<open>Restart\<close>

text \<open>The log of a process that is started on the disk another one has left.\<close>

definition reopen :: "(bytes \<Rightarrow> peer_state option) \<Rightarrow> file_wal_config \<Rightarrow> disk \<Rightarrow> file_wal \<times> disk" where
  "reopen de cfg d = (file_wal_new de cfg d, d)"

definition segments_left :: "disk \<Rightarrow> bool" where
  "segments_left d \<longleftrightarrow> (\<forall>p. list_all (\<lambda>n. n < - 1) (hm_keys (wal_dir d p)))"

abbreviation file_run :: "(bytes \<Rightarrow> u32) \<Rightarrow> (peer_state \<Rightarrow> bytes option)
    \<Rightarrow> (peer \<times> wal_frame + peer \<times> u64 + peer \<times> ack_state) list \<Rightarrow> file_wal \<times> disk \<Rightarrow> file_wal \<times> disk" where
  "file_run crc ser \<equiv> wal.run (file_append crc ser) (file_truncate_through ser) (file_store_ack ser)"

lemma file_wal_ok_reopen:
  assumes "file_wal_ok crc (w, d)" and "segments_left d"
  shows "file_wal_ok crc (reopen de cfg d)"
  using assms by (simp add: file_wal_ok_iff reopen_def file_wal_new_def active_ok_def segments_left_def list_all_iff)

lemma file_range_reopen: "file_range crc (reopen de cfg (snd st)) = file_range crc st"
  by (simp add: file_range_def reopen_def fun_eq_iff)

lemma file_wal_ok_empty: "file_wal_ok crc (reopen de cfg empty_disk)"
proof -
  have "dir_log crc [] []" by (simp add: dir_log_def segment_files_def)
  then show ?thesis by (auto simp: file_wal_ok_def reopen_def file_wal_new_def active_ok_def empty_disk_def)
qed

lemma replayable_append: "replayable fits p n (xs @ ys) \<longleftrightarrow> replayable fits p n xs \<and> replayable fits p n ys"
  by (induction fits p n xs rule: replayable.induct) auto

lemma appended_append: "appended p n (xs @ ys) = appended p n xs @ appended p n ys"
  by (induction p n xs rule: appended.induct) auto

text \<open>
  C13: A file log survives a restart. A process that opens the disk another process has left, with any segment size
  of its own, and goes on to append, truncate and acknowledge, reads back all frames appended before and
  after the restart above \<open>n\<close>, byte for byte and in order, provided neither process truncated above \<open>n\<close> and no segment has the last number there is.
\<close>

theorem file_wal_survives_restart:
  assumes "json_ok ser de" and "replayable frame_fits p n (ops @ ops')"
    and "segments_left (snd (file_run crc ser ops (reopen de cfg empty_disk)))"
  shows "file_range crc (file_run crc ser ops'
      (reopen de cfg' (snd (file_run crc ser ops (reopen de cfg empty_disk))))) p n None = Ok (appended p n (ops @ ops'))"
proof -
  let ?st = "file_run crc ser ops (reopen de cfg empty_disk)"
  have r: "replayable frame_fits p n ops" "replayable frame_fits p n ops'" using assms(2) by (simp_all add: replayable_append)
  have "file_range crc (reopen de cfg empty_disk) p n None = Ok []" by (simp add: file_range_def reopen_def empty_disk_def)
  from wal.run_replay[OF file_wal_impl[OF assms(1)] file_wal_ok_empty this r(1)]
  have st: "file_wal_ok crc ?st" "file_range crc ?st p n None = Ok (appended p n ops)" by simp_all
  have "file_wal_ok crc (reopen de cfg' (snd ?st))"
    using file_wal_ok_reopen[of crc "fst ?st" "snd ?st"] st(1) assms(3) by simp
  moreover have "file_range crc (reopen de cfg' (snd ?st)) p n None = Ok (appended p n ops)"
    using st(2) by (simp add: file_range_reopen)
  ultimately show ?thesis
    using wal.run_replay[OF file_wal_impl[OF assms(1)] _ _ r(2)] by (simp add: appended_append)
qed

text \<open>
  The last identifier is saved with every hundredth only: a log reopened after fewer starts again from the
  beginning, and the sender gives out the same identifiers a second time.
\<close>

definition ex_frame :: "u64 \<Rightarrow> wal_frame" where
  "ex_frame m = \<lparr>wf_msg_id = m, wf_bytes = [1, 2], wf_approx_len = 2\<rparr>"

definition ex_config :: file_wal_config where
  "ex_config = \<lparr>segment_bytes = 100, fsync_every = 1\<rparr>"

definition ex_len_crc :: "bytes \<Rightarrow> u32" where
  "ex_len_crc bs = word_of_nat (length bs)"

lemma restart_forgets_last_appended:
  "let st = snd (file_append ex_len_crc ex_ser 7 (ex_frame 1) (reopen ex_de ex_config empty_disk))
   in file_last_appended st 7 = Ok 1
      \<and> file_last_appended (reopen ex_de ex_config (snd st)) 7 = Ok 0"
  by code_simp

text \<open>
  A record that a crash has cut short stays at the end of its segment, and the next process appends behind it: what it appends is read
  as the rest of the torn record, and the whole log of the peer is reported as corrupt.
\<close>

definition ex_sum_crc :: "bytes \<Rightarrow> u32" where
  "ex_sum_crc bs = sum_list (map ucast bs)"

definition torn_disk :: disk where
  "torn_disk = \<lparr>dk_wal = [(7, [(1, take 17 (segment_record ex_sum_crc 1 [1, 9]))])], dk_state = []\<rparr>"

lemma torn_record_poisons_log:
  "let st = reopen ex_de ex_config torn_disk
   in file_range ex_sum_crc st 7 0 None = Ok []
      \<and> file_range ex_sum_crc (snd (file_append ex_sum_crc ex_ser 7 (ex_frame 2) st)) 7 0 None = Err (Corruption ''CRC mismatch'')"
  by code_simp

theorem file_wal_survives_restart_witness:
  "file_range ex_len_crc (file_run ex_len_crc ex_ser [Inl (7, ex_frame 2)]
      (reopen ex_de ex_config
         (snd (file_run ex_len_crc ex_ser [Inl (7, ex_frame 1)] (reopen ex_de ex_config empty_disk))))) 7 0 None =
     Ok [\<lparr>we_msg_id = 1, we_bytes = [1, 2]\<rparr>, \<lparr>we_msg_id = 2, we_bytes = [1, 2]\<rparr>]"
proof -
  have "file_run ex_len_crc ex_ser [Inl (7, ex_frame 1)] st = snd (file_append ex_len_crc ex_ser 7 (ex_frame 1) st)" for st
    by (simp add: wal.run.simps[OF file_wal_impl[OF ex_json_ok]])
  moreover have "list_all (\<lambda>n. n < - 1) (hm_keys (wal_dir (snd (snd (file_append ex_len_crc ex_ser 7 (ex_frame 1)
      (reopen ex_de ex_config empty_disk)))) p))" for p
    by (simp add: file_append_def get_or_create_active_segment_def reopen_def file_wal_new_def empty_disk_def hm_contains_def
        write_segment_def wal_dir_def pick_segment_def segment_files_def ex_frame_def hm_keys_def
        hm_get_def Let_def word_less_nat_alt unsigned_minus_1_eq_mask mask_eq_exp_minus_1)
  ultimately have "segments_left (snd (file_run ex_len_crc ex_ser [Inl (7, ex_frame 1)] (reopen ex_de ex_config empty_disk)))"
    by (simp add: segments_left_def)
  from file_wal_survives_restart[OF ex_json_ok _ this, of 7 0 "[Inl (7, ex_frame 2)]" ex_config] show ?thesis
    by (simp add: ex_frame_def frame_fits_def)
qed

end
