(* ===== verification/Startup.thy ===== *)
theory Startup
  imports Control Transport Storage_Mode
begin

text \<open>
  How a node comes up: the builder of the gRPC server, \<open>mesh-grpc/src/server.rs\<close>, and \<open>main\<close> of \<open>mesh-bin/src/main.rs\<close> up to
  its event loop: the arguments are checked, TLS is set up, the first neighbours are taken over, and the parts of the
  node are put together. Parsing the command line, binding sockets and reading files are parameters.
\<close>

section \<open>The gRPC server\<close>

record grpc_server_config =
  gsc_bind_addr :: string
  gsc_max_recv_message_size :: "nat option"
  gsc_max_send_message_size :: "nat option"

definition grpc_server_config_default :: grpc_server_config where
  "grpc_server_config_default =
     \<lparr>gsc_bind_addr = ''127.0.0.1:50051'', gsc_max_recv_message_size = Some (4 * 1024 * 1024),
      gsc_max_send_message_size = Some (4 * 1024 * 1024)\<rparr>"

text \<open>The server, with whether the task that applies routing feedback was started.\<close>

record mesh_grpc_server =
  gs_config :: grpc_server_config
  gs_data_service :: data_service
  gs_control_service :: control_service
  gs_routing_feedback_task :: bool

definition grpc_server_new :: "grpc_server_config \<Rightarrow> node_id \<Rightarrow> delivery_queue \<Rightarrow> outbound_message list option
    \<Rightarrow> routing_table option \<Rightarrow> (node_id, session_info) hmap option \<Rightarrow> topology_database option
    \<Rightarrow> session_command list option option \<Rightarrow> bool \<Rightarrow> mesh_grpc_server" where
  "grpc_server_new config node_id delivery_queue outbound_tx routing_table session_registry topology_db
       session_command_tx routing_feedback =
     (let message_tracker = [];
          queue = message_queue_new message_queue_config_default outbound_tx message_tracker;
          data_service = data_service_new node_id delivery_queue queue;
          data_service = (case topology_db of Some db \<Rightarrow> set_topology_db db data_service | None \<Rightarrow> data_service);
          control = control_service_new node_id routing_table session_registry topology_db;
          control = set_message_tracker message_tracker control;
          control = (case session_command_tx of Some tx \<Rightarrow> set_session_command_channel tx control | None \<Rightarrow> control)
      in \<lparr>gs_config = config, gs_data_service = data_service, gs_control_service = control,
          gs_routing_feedback_task = routing_feedback\<rparr>)"

record mesh_grpc_server_builder =
  gb_config :: grpc_server_config
  gb_node_id :: "node_id option"
  gb_delivery_queue :: "delivery_queue option"
  gb_outbound_tx :: "outbound_message list option option"
  gb_routing_table :: "routing_table option"
  gb_session_registry :: "(node_id, session_info) hmap option"
  gb_topology_db :: "topology_database option"
  gb_session_command_tx :: "session_command list option option"
  gb_routing_feedback_rx :: bool

definition grpc_builder_new :: mesh_grpc_server_builder where
  "grpc_builder_new =
     \<lparr>gb_config = grpc_server_config_default, gb_node_id = None, gb_delivery_queue = None, gb_outbound_tx = None,
      gb_routing_table = None, gb_session_registry = None, gb_topology_db = None, gb_session_command_tx = None,
      gb_routing_feedback_rx = False\<rparr>"

definition with_bind_addr :: "string \<Rightarrow> mesh_grpc_server_builder \<Rightarrow> mesh_grpc_server_builder" where
  "with_bind_addr addr b = b\<lparr>gb_config := (gb_config b)\<lparr>gsc_bind_addr := addr\<rparr>\<rparr>"

definition with_max_recv_message_size :: "nat \<Rightarrow> mesh_grpc_server_builder \<Rightarrow> mesh_grpc_server_builder" where
  "with_max_recv_message_size n b = b\<lparr>gb_config := (gb_config b)\<lparr>gsc_max_recv_message_size := Some n\<rparr>\<rparr>"

definition with_max_send_message_size :: "nat \<Rightarrow> mesh_grpc_server_builder \<Rightarrow> mesh_grpc_server_builder" where
  "with_max_send_message_size n b = b\<lparr>gb_config := (gb_config b)\<lparr>gsc_max_send_message_size := Some n\<rparr>\<rparr>"

definition with_node_id :: "node_id \<Rightarrow> mesh_grpc_server_builder \<Rightarrow> mesh_grpc_server_builder" where
  "with_node_id node_id b = b\<lparr>gb_node_id := Some node_id\<rparr>"

definition with_delivery_queue :: "delivery_queue \<Rightarrow> mesh_grpc_server_builder \<Rightarrow> mesh_grpc_server_builder" where
  "with_delivery_queue queue b = b\<lparr>gb_delivery_queue := Some queue\<rparr>"

definition with_outbound_channel :: "outbound_message list option \<Rightarrow> mesh_grpc_server_builder \<Rightarrow> mesh_grpc_server_builder" where
  "with_outbound_channel tx b = b\<lparr>gb_outbound_tx := Some tx\<rparr>"

definition with_routing_table :: "routing_table \<Rightarrow> mesh_grpc_server_builder \<Rightarrow> mesh_grpc_server_builder" where
  "with_routing_table table b = b\<lparr>gb_routing_table := Some table\<rparr>"

definition with_session_registry :: "(node_id, session_info) hmap \<Rightarrow> mesh_grpc_server_builder \<Rightarrow> mesh_grpc_server_builder" where
  "with_session_registry registry b = b\<lparr>gb_session_registry := Some registry\<rparr>"

definition with_topology_db :: "topology_database \<Rightarrow> mesh_grpc_server_builder \<Rightarrow> mesh_grpc_server_builder" where
  "with_topology_db db b = b\<lparr>gb_topology_db := Some db\<rparr>"

definition with_session_command_channel :: "session_command list option \<Rightarrow> mesh_grpc_server_builder \<Rightarrow> mesh_grpc_server_builder" where
  "with_session_command_channel tx b = b\<lparr>gb_session_command_tx := Some tx\<rparr>"

definition with_routing_feedback_receiver :: "mesh_grpc_server_builder \<Rightarrow> mesh_grpc_server_builder" where
  "with_routing_feedback_receiver b = b\<lparr>gb_routing_feedback_rx := True\<rparr>"

definition grpc_build :: "mesh_grpc_server_builder \<Rightarrow> (string, mesh_grpc_server) outcome" where
  "grpc_build b =
     obind (ok_or (gb_node_id b) ''Node ID is required'') (\<lambda>node_id.
     obind (ok_or (gb_delivery_queue b) ''Delivery queue is required'') (\<lambda>delivery_queue.
     obind (ok_or (gb_outbound_tx b) ''Outbound channel is required'') (\<lambda>outbound_tx.
     Ok (grpc_server_new (gb_config b) node_id delivery_queue outbound_tx (gb_routing_table b) (gb_session_registry b)
           (gb_topology_db b) (gb_session_command_tx b) (gb_routing_feedback_rx b)))))"

section \<open>Arguments\<close>

text \<open>A socket address with its parts and its text.\<close>

record socket_addr =
  sa_ip :: string
  sa_port :: "16 word"
  sa_text :: string

record args =
  ar_node_id :: node_id
  ar_listen :: "socket_addr option"
  ar_connect :: "socket_addr list"
  ar_ping_interval :: nat
  ar_idle_timeout :: nat
  ar_log_level :: string
  ar_tls :: bool
  ar_tls_cert :: "string option"
  ar_tls_key :: "string option"
  ar_tls_ca :: "string option"
  ar_tls_sni :: "string option"
  ar_tls_verify_node_id :: bool
  ar_storage_mode :: string
  ar_storage_data_dir :: string
  ar_storage_segment_bytes :: u64
  ar_storage_fsync_every :: u32
  ar_ack_interval :: nat
  ar_ack_batch_size :: u32
  ar_recv_window :: u32
  ar_neighbor :: "socket_addr list"
  ar_domain_id :: u32
  ar_topology_recompute_interval :: nat
  ar_grpc_bind :: string
  ar_grpc_max_recv_bytes :: nat
  ar_grpc_max_send_bytes :: nat
  ar_enable_grpc :: bool

definition args_default :: args where
  "args_default =
     \<lparr>ar_node_id = 1, ar_listen = None, ar_connect = [], ar_ping_interval = 10 * SECOND,
      ar_idle_timeout = 30 * SECOND, ar_log_level = ''info'', ar_tls = False, ar_tls_cert = None, ar_tls_key = None,
      ar_tls_ca = None, ar_tls_sni = None, ar_tls_verify_node_id = True, ar_storage_mode = ''memory'',
      ar_storage_data_dir = ''./meshdata'', ar_storage_segment_bytes = 134217728, ar_storage_fsync_every = 1,
      ar_ack_interval = 20 * 1000000, ar_ack_batch_size = 256, ar_recv_window = 33554432, ar_neighbor = [],
      ar_domain_id = 0, ar_topology_recompute_interval = SECOND, ar_grpc_bind = ''127.0.0.1:50051'',
      ar_grpc_max_recv_bytes = 4194304, ar_grpc_max_send_bytes = 4194304, ar_enable_grpc = False\<rparr>"

datatype startup_error = LogLevelInvalid | TlsFilesMissing | StorageModeInvalid string | FileUnreadable string
  | TlsSetupFailed tls_error | GrpcBuildFailed string | ListenFailed | NoMode

definition validate_tls :: "args \<Rightarrow> (startup_error, unit) outcome" where
  "validate_tls a =
     (if ar_tls a \<and> (ar_tls_cert a = None \<or> ar_tls_key a = None \<or> ar_tls_ca a = None) then Err TlsFilesMissing else Ok ())"

definition parse_storage_mode :: "args \<Rightarrow> (startup_error, storage_mode) outcome" where
  "parse_storage_mode a =
     (if ar_storage_mode a = ''memory'' then Ok InMemory
      else if ar_storage_mode a = ''file''
      then Ok (FileMode (ar_storage_data_dir a) (ar_storage_segment_bytes a) (ar_storage_fsync_every a))
      else Err (StorageModeInvalid (ar_storage_mode a)))"

definition session_config_of :: "args \<Rightarrow> storage_mode \<Rightarrow> session_config" where
  "session_config_of a mode =
     \<lparr>sc_my_node_id = ar_node_id a, sc_ping_interval = ar_ping_interval a, sc_idle_timeout = ar_idle_timeout a,
      sc_verify_node_id = ar_tls_verify_node_id a, sc_storage_mode = mode, sc_ack_interval = ar_ack_interval a,
      sc_ack_batch_size = ar_ack_batch_size a, sc_recv_window = ar_recv_window a\<rparr>"

section \<open>TLS\<close>

definition tls_server_name :: "args \<Rightarrow> string" where
  "tls_server_name a =
     (case ar_tls_sni a of
        Some sni \<Rightarrow> sni
      | None \<Rightarrow> (case ar_connect a of addr # _ \<Rightarrow> sa_ip addr | [] \<Rightarrow> ''localhost''))"

definition load_tls :: "(string \<Rightarrow> string option) \<Rightarrow> ('c, 'k, 'a, 'v) tls_env \<Rightarrow> args
    \<Rightarrow> (startup_error, (('c, 'k, 'v) server_config \<times> ('c, 'k, 'a) client_config \<times> string) option) outcome" where
  "load_tls read_to_string env a =
     (if ar_tls a
      then obind (or_panic (ar_tls_cert a)) (\<lambda>cert_path.
           obind (or_panic (ar_tls_key a)) (\<lambda>key_path.
           obind (or_panic (ar_tls_ca a)) (\<lambda>ca_path.
           obind (ok_or (read_to_string cert_path) (FileUnreadable cert_path)) (\<lambda>cert_pem.
           obind (ok_or (read_to_string key_path) (FileUnreadable key_path)) (\<lambda>key_pem.
           obind (ok_or (read_to_string ca_path) (FileUnreadable ca_path)) (\<lambda>ca_pem.
           obind (map_err TlsSetupFailed (make_server_config env cert_pem key_pem ca_pem)) (\<lambda>server_config.
           obind (map_err TlsSetupFailed (make_client_config env cert_pem key_pem ca_pem)) (\<lambda>client_config.
           Ok (Some (server_config, client_config, tls_server_name a))))))))))
      else Ok None)"

section \<open>The parts of the node\<close>

definition grpc_components :: "args \<Rightarrow> mesh_node
    \<Rightarrow> (startup_error, (session_manager \<times> mesh_grpc_server) option) outcome" where
  "grpc_components a n =
     (if ar_enable_grpc a
      then let session_manager = set_routing_feedback_sender (set_received_topology_sender
                 (set_topology_update_receiver (set_delivery_sender (set_outbound_receiver
                    (session_manager_new (ar_node_id a) (mn_routing_table n))))));
               session_registry = get_sessions session_manager;
               builder = with_max_send_message_size (ar_grpc_max_send_bytes a)
                 (with_max_recv_message_size (ar_grpc_max_recv_bytes a)
                 (with_routing_feedback_receiver
                 (with_session_command_channel (Some [])
                 (with_topology_db (mn_topology_db n)
                 (with_session_registry session_registry
                 (with_routing_table (mn_routing_table n)
                 (with_outbound_channel (Some [])
                 (with_delivery_queue delivery_queue_new
                 (with_node_id (ar_node_id a)
                 (with_bind_addr (ar_grpc_bind a) grpc_builder_new))))))))))
           in obind (map_err GrpcBuildFailed (grpc_build builder)) (\<lambda>server. Ok (Some (session_manager, server)))
      else Ok None)"

record ('c, 'k, 'a, 'v) node_setup =
  su_config :: session_config
  su_tls :: "(('c, 'k, 'v) server_config \<times> ('c, 'k, 'a) client_config \<times> string) option"
  su_node :: mesh_node
  su_grpc :: "(session_manager \<times> mesh_grpc_server) option"
  su_listen :: "socket_addr option"
  su_connect :: "socket_addr list"

text \<open>What is done before the topology, and after it.\<close>

definition check_args :: "(string \<Rightarrow> bool) \<Rightarrow> (string \<Rightarrow> string option) \<Rightarrow> ('c, 'k, 'a, 'v) tls_env \<Rightarrow> args
    \<Rightarrow> (startup_error, session_config \<times> (('c, 'k, 'v) server_config \<times> ('c, 'k, 'a) client_config \<times> string) option) outcome" where
  "check_args log_level_ok read_to_string env a =
     obind (if log_level_ok (ar_log_level a) then Ok () else Err LogLevelInvalid) (\<lambda>_.
     obind (validate_tls a) (\<lambda>_.
     obind (parse_storage_mode a) (\<lambda>storage_mode.
     obind (load_tls read_to_string env a) (\<lambda>tls.
     Ok (session_config_of a storage_mode, tls)))))"

definition check_mode :: "args \<Rightarrow> (startup_error, unit) outcome" where
  "check_mode a = (if ar_listen a = None \<and> ar_connect a = [] then Err NoMode else Ok ())"

definition bring_up :: "(socket_addr \<Rightarrow> bool) \<Rightarrow> args
    \<Rightarrow> session_config \<times> (('c, 'k, 'v) server_config \<times> ('c, 'k, 'a) client_config \<times> string) option
    \<Rightarrow> mesh_node \<Rightarrow> (startup_error, ('c, 'k, 'a, 'v) node_setup) outcome" where
  "bring_up listen_tcp a checked n =
     obind (grpc_components a n) (\<lambda>grpc.
     obind (case ar_listen a of Some addr \<Rightarrow> if listen_tcp addr then Ok () else Err ListenFailed | None \<Rightarrow> Ok ()) (\<lambda>_.
     obind (check_mode a) (\<lambda>_.
     Ok \<lparr>su_config = fst checked, su_tls = snd checked, su_node = n, su_grpc = grpc, su_listen = ar_listen a,
         su_connect = ar_connect a\<rparr>)))"

text \<open>\<open>None\<close> when the computation of the first routes does not return.\<close>

definition start :: "(string \<Rightarrow> bool) \<Rightarrow> (string \<Rightarrow> string option) \<Rightarrow> ('c, 'k, 'a, 'v) tls_env \<Rightarrow> (socket_addr \<Rightarrow> bool)
    \<Rightarrow> u64 \<Rightarrow> u64 \<Rightarrow> args \<Rightarrow> (startup_error, ('c, 'k, 'a, 'v) node_setup) outcome option" where
  "start log_level_ok read_to_string env listen_tcp now now' a =
     (case check_args log_level_ok read_to_string env a of
        Ok checked \<Rightarrow>
          map_option (bring_up listen_tcp a checked)
            (bootstrap now now' (map (\<lambda>addr. (sa_port addr, sa_text addr)) (ar_neighbor a))
               (mesh_node_new (ar_node_id a) (ar_enable_grpc a)))
      | Err e \<Rightarrow> Some (Err e)
      | Panic \<Rightarrow> Some Panic)"


section \<open>Properties\<close>

lemma bootstrap_ok:
  assumes "node_ok n" and "follows n"
  shows "\<exists>n'. bootstrap now now' addrs n = Some n' \<and> node_ok n' \<and> follows n' \<and> mn_node_id n' = mn_node_id n
    \<and> mn_tasks n' = mn_tasks n \<and> (\<forall>(port, addr) \<in> set addrs.
      \<exists>info. hm_get (db_nodes (mn_topology_db n')) (mn_node_id n) = Some info \<and> hm_contains (nd_neighbors info) (bootstrap_node_id port))"
proof (cases "addrs = []")
  case True
  with assms show ?thesis by (simp add: bootstrap_def)
next
  case False
  have wf: "db_wf (mn_topology_db n)" using assms(1) by (simp add: node_ok_def db_ok_def)
  let ?ns = "bootstrap_neighbors addrs"
  obtain u db' where db': "update_local_neighbors now now' ?ns (mn_topology_db n) = Some (u, db')" "db_ok db'"
      "db_local_node_id db' = db_local_node_id (mn_topology_db n)"
      "hm_get (db_nodes db') (db_local_node_id (mn_topology_db n)) = Some \<lparr>nd_node_id = db_local_node_id (mn_topology_db n),
         nd_sequence_number = db_local_sequence (mn_topology_db n), nd_last_updated = now, nd_neighbors = links_of now ?ns []\<rparr>"
    by (rule update_local_neighbors_ok[OF wf, of now now' ?ns]) auto
  define n' where "n' = n\<lparr>mn_topology_db := db',
    mn_routing_table := update_routes_from_topology (get_routes db') (mn_routing_table n)\<rparr>"
  have run: "bootstrap now now' addrs n = Some n'" using False db'(1) by (simp add: bootstrap_def n'_def)
  have "node_ok n'" using assms(1) db'(2,3) by (auto simp: node_ok_def table_topology_ok n'_def)
  moreover have "follows n'"
    by (rule follows_topology[where t = "mn_routing_table n"]) (use assms(1) db'(2) in \<open>simp_all add: node_ok_def n'_def\<close>)
  moreover have "bootstrap_node_id port \<in> ni_node_id ` set ?ns" if "(port, addr) \<in> set addrs" for port addr
    using that by (force simp: bootstrap_neighbors_def neighbor_info_new_def)
  then have "hm_contains (links_of now ?ns []) (bootstrap_node_id port)" if "(port, addr) \<in> set addrs" for port addr
    using that by (simp add: hm_contains_links_of)
  ultimately show ?thesis
    using run db'(4) assms(1) by (auto simp: n'_def node_ok_def)
qed

text \<open>Nothing of the setup panics; the files of TLS are there when they are opened.\<close>

lemma obind_Panic_iff: "obind x f = Panic \<longleftrightarrow> x = Panic \<or> (\<exists>a. x = Ok a \<and> f a = Panic)"
  by (cases x) simp_all

lemma ok_or_no_panic [simp]: "ok_or x e \<noteq> Panic"
  by (simp add: ok_or_def split: option.split)

lemma map_err_no_panic [simp]: "map_err g x = Panic \<longleftrightarrow> x = Panic"
  by (cases x) simp_all

lemma add_roots_no_panic [simp]: "add_roots anchor cs roots \<noteq> Panic"
  by (induction cs arbitrary: roots) (simp_all split: option.split)

lemma tls_config_no_panic: "make_server_config env c k r \<noteq> Panic" "make_client_config env c k r \<noteq> Panic"
proof -
  have "load_chain env c \<noteq> Panic" "load_key env k \<noteq> Panic" "load_roots env r \<noteq> Panic"
    by (auto simp: load_defs obind_Panic_iff split: if_splits list.splits)
  then show "make_server_config env c k r \<noteq> Panic" "make_client_config env c k r \<noteq> Panic"
    by (auto simp: make_server_config_def make_client_config_def obind_Panic_iff split: if_splits)
qed

lemma load_tls_no_panic:
  assumes "validate_tls a = Ok ()"
  shows "load_tls read env a \<noteq> Panic"
proof (cases "ar_tls a")
  case True
  with assms obtain c k r where "ar_tls_cert a = Some c" "ar_tls_key a = Some k" "ar_tls_ca a = Some r"
    by (auto simp: validate_tls_def split: if_splits)
  with True show ?thesis
    by (auto simp: load_tls_def or_panic_def tls_config_no_panic obind_Panic_iff)
qed (simp add: load_tls_def)

lemma load_tls_Some: "load_tls read env a = Ok tls \<Longrightarrow> tls \<noteq> None \<longleftrightarrow> ar_tls a"
  by (auto simp: load_tls_def obind_eq_Ok split: if_splits)

lemma check_args_cases:
  "check_args log_ok read env a \<noteq> Panic"
  "check_args log_ok read env a = Ok (config, tls) \<Longrightarrow>
     (tls \<noteq> None \<longleftrightarrow> ar_tls a) \<and> (\<exists>storage. from_mode de d (sc_storage_mode config) = Ok storage)"
  "log_ok (ar_log_level a) \<Longrightarrow> \<not> ar_tls a \<Longrightarrow> ar_storage_mode a \<in> {''memory'', ''file''} \<Longrightarrow>
     \<exists>x. check_args log_ok read env a = Ok x"
proof -
  show "check_args log_ok read env a \<noteq> Panic"
    using load_tls_no_panic[of a read env]
    by (auto simp: check_args_def obind_Panic_iff validate_tls_def parse_storage_mode_def split: if_splits)
  show "(tls \<noteq> None \<longleftrightarrow> ar_tls a) \<and> (\<exists>storage. from_mode de d (sc_storage_mode config) = Ok storage)"
    if "check_args log_ok read env a = Ok (config, tls)"
    using that load_tls_Some[of read env a tls]
    by (auto simp: check_args_def obind_eq_Ok session_config_of_def parse_storage_mode_def from_mode_def Let_def split: if_splits)
  show "\<exists>x. check_args log_ok read env a = Ok x"
    if "log_ok (ar_log_level a)" "\<not> ar_tls a" "ar_storage_mode a \<in> {''memory'', ''file''}"
    using that by (auto simp: check_args_def validate_tls_def parse_storage_mode_def load_tls_def)
qed

lemmas builder_defs = with_bind_addr_def with_max_recv_message_size_def with_max_send_message_size_def with_node_id_def
  with_delivery_queue_def with_outbound_channel_def with_routing_table_def with_session_registry_def with_topology_db_def
  with_session_command_channel_def with_routing_feedback_receiver_def grpc_builder_new_def

lemmas manager_setters = set_routing_feedback_sender_def set_received_topology_sender_def set_topology_update_receiver_def
  set_delivery_sender_def set_outbound_receiver_def session_manager_new_def

text \<open>Both services of the gRPC server are for this node, on its topology, with one tracker.\<close>

definition wired :: "args \<Rightarrow> mesh_node \<Rightarrow> (session_manager \<times> mesh_grpc_server) option \<Rightarrow> bool" where
  "wired a n grpc \<longleftrightarrow> (case grpc of
     None \<Rightarrow> \<not> ar_enable_grpc a
   | Some (manager, server) \<Rightarrow> ar_enable_grpc a \<and> sm_local_node_id manager = ar_node_id a
       \<and> ds_node_id (gs_data_service server) = ar_node_id a \<and> ctl_node_id (gs_control_service server) = ar_node_id a
       \<and> ds_topology_db (gs_data_service server) = Some (mn_topology_db n)
       \<and> ctl_topology_db (gs_control_service server) = Some (mn_topology_db n)
       \<and> ctl_routing_table (gs_control_service server) = Some (mn_routing_table n)
       \<and> ctl_message_tracker (gs_control_service server) = Some (mq_tracker (ds_queue (gs_data_service server))))"

lemma grpc_components_wired: "\<exists>grpc. grpc_components a n = Ok grpc \<and> wired a n grpc"
  by (simp add: grpc_components_def wired_def grpc_build_def builder_defs manager_setters ok_or_def grpc_server_new_def
      data_service_new_def set_topology_db_def control_service_new_def set_message_tracker_def
      set_session_command_channel_def message_queue_new_def Let_def)



definition ex_args :: args where
  "ex_args = args_default\<lparr>ar_listen := Some \<lparr>sa_ip = ''0.0.0.0'', sa_port = 9000, sa_text = ''0.0.0.0:9000''\<rparr>,
     ar_neighbor := [\<lparr>sa_ip = ''10.0.0.2'', sa_port = 9001, sa_text = ''10.0.0.2:9001''\<rparr>], ar_enable_grpc := True\<rparr>"


end
