(* ===== verification/Connections.thy ===== *)
theory Connections
  imports Startup
begin

text \<open>
  How the sessions of a node come about: the loop of \<open>main.rs\<close> that accepts connections, the connectors for the addresses of the
  command line, and the loop of \<open>run_outbound_with_messages\<close> in \<open>mesh-session/src/session.rs\<close> that dials, performs the handshake, runs a session and
  dials again. What the network gives is an input: for each attempt whether there is a connection, and
  what then arrives on it.
\<close>

section \<open>Connections\<close>

text \<open>
  A connection: its stream, when its session starts, what its session takes from the select, its writer, the fresh channel
  for its messages, and the registry it finds.
\<close>

record ('s, 'o) connection =
  cn_stream :: 's
  cn_started :: nat
  cn_inputs :: "session_input list"
  cn_out :: 'o
  cn_channel :: channel
  cn_registry :: "(node_id, channel) hmap"

type_synonym 'o session_result = "(session_error, unit) outcome option \<times> 'o session_run"

text \<open>A session is run on a stream and the certificate of its peer; it fails at once when the peer has no address any more.\<close>

definition open_session :: "('s \<Rightarrow> string option) \<Rightarrow> 'o session_env \<Rightarrow> ('s, 'o) connection \<Rightarrow> 's io_stream \<Rightarrow> bytes option
    \<Rightarrow> channel option \<Rightarrow> 'o session_result" where
  "open_session addr env c stream peer_cert message_tx =
     (case peer_addr addr stream of
        None \<Rightarrow> (Some (Err SePeerAddr),
          \<lparr>run_state = session_state_new, run_last_activity = cn_started c, run_buffer = [], run_out = cn_out c,
           run_events = [], run_registry = cn_registry c\<rparr>)
      | Some text_addr \<Rightarrow>
          run_inbound_with_messages (env\<lparr>env_peer_addr := text_addr, env_peer_cert := peer_cert, env_message_tx := message_tx\<rparr>)
            (cn_started c) (cn_inputs c) (cn_out c) (cn_registry c))"

definition run_inbound :: "('s \<Rightarrow> string option) \<Rightarrow> 'o session_env \<Rightarrow> ('s, 'o) connection \<Rightarrow> 's io_stream \<Rightarrow> bytes option
    \<Rightarrow> 'o session_result" where
  "run_inbound addr env c stream peer_cert = open_session addr env c stream peer_cert None"

section \<open>Accepting\<close>

text \<open>The task of an accepted connection: nothing comes of it when the handshake fails.\<close>

definition inbound_task :: "('s \<Rightarrow> string option) \<Rightarrow> 'o session_env \<Rightarrow> 's handshake option \<Rightarrow> ('s, 'o) connection
    \<Rightarrow> 'o session_result option" where
  "inbound_task addr env tls_acceptor c =
     map_option (\<lambda>(stream, peer_cert). open_session addr env c stream peer_cert (Some (cn_channel c)))
       (accept_connection addr tls_acceptor (cn_stream c))"

text \<open>The listener stops at the first error.\<close>

fun accept_loop :: "('s \<Rightarrow> string option) \<Rightarrow> 'o session_env \<Rightarrow> 's handshake option \<Rightarrow> ('s, 'o) connection option list
    \<Rightarrow> 'o session_result option list" where
  "accept_loop addr env tls_acceptor [] = []"
| "accept_loop addr env tls_acceptor (Some c # accepts) =
     inbound_task addr env tls_acceptor c # accept_loop addr env tls_acceptor accepts"
| "accept_loop addr env tls_acceptor (None # accepts) = []"

section \<open>Dialling\<close>

text \<open>
  One turn of the loop per attempt: the session it has run, if any, and how long it sleeps afterwards. The loop does not go on
  after a session that has not ended, and a panic ends its task.
\<close>

fun outbound_loop :: "('s \<Rightarrow> string option) \<Rightarrow> 'o session_env \<Rightarrow> ((string \<Rightarrow> 's handshake option) \<times> string) option \<Rightarrow> nat
    \<Rightarrow> ('s, 'o) connection option list \<Rightarrow> ('o session_result option \<times> nat option) list" where
  "outbound_loop addr env tls_config backoff [] = []"
| "outbound_loop addr env tls_config backoff (None # attempts) =
     (None, Some backoff) # outbound_loop addr env tls_config (min (backoff * 2) (30 * SECOND)) attempts"
| "outbound_loop addr env tls_config backoff (Some c # attempts) =
     (case dial_connection addr tls_config (cn_stream c) of
        Ok (stream, peer_cert) \<Rightarrow>
          (let result = open_session addr env c stream peer_cert (Some (cn_channel c))
           in if fst result = None \<or> fst result = Some Panic then [(Some result, None)]
              else (Some result, Some SECOND) # outbound_loop addr env tls_config SECOND attempts)
      | Err e \<Rightarrow> (None, Some SECOND) # outbound_loop addr env tls_config SECOND attempts
      | Panic \<Rightarrow> [(None, None)])"

definition run_outbound_with_messages :: "('s \<Rightarrow> string option) \<Rightarrow> 'o session_env
    \<Rightarrow> ((string \<Rightarrow> 's handshake option) \<times> string) option \<Rightarrow> ('s, 'o) connection option list
    \<Rightarrow> ('o session_result option \<times> nat option) list" where
  "run_outbound_with_messages addr env tls_config attempts = outbound_loop addr env tls_config SECOND attempts"

section \<open>The tasks of a node\<close>

text \<open>The package that performs handshakes makes an acceptor of a server configuration and a connector of a client configuration.\<close>

record ('c, 'k, 'a, 'v, 's) tls_package =
  tp_acceptor :: "('c, 'k, 'v) server_config \<Rightarrow> 's handshake"
  tp_connector :: "('c, 'k, 'a) client_config \<Rightarrow> string \<Rightarrow> 's handshake option"
  tp_addr :: "'s \<Rightarrow> string option"

definition tls_server :: "('c, 'k, 'a, 'v, 's) tls_package \<Rightarrow> ('c, 'k, 'a, 'v) node_setup \<Rightarrow> 's handshake option" where
  "tls_server tp su = map_option (\<lambda>(server_config, _, _). tp_acceptor tp server_config) (su_tls su)"

definition tls_client_config :: "('c, 'k, 'a, 'v, 's) tls_package \<Rightarrow> ('c, 'k, 'a, 'v) node_setup
    \<Rightarrow> ((string \<Rightarrow> 's handshake option) \<times> string) option" where
  "tls_client_config tp su =
     map_option (\<lambda>(_, client_config, server_name). (tp_connector tp client_config, server_name)) (su_tls su)"

definition listener_task :: "('c, 'k, 'a, 'v, 's) tls_package \<Rightarrow> 'o session_env \<Rightarrow> ('c, 'k, 'a, 'v) node_setup
    \<Rightarrow> ('s, 'o) connection option list \<Rightarrow> 'o session_result option list" where
  "listener_task tp env su accepts =
     (if su_listen su = None then []
      else accept_loop (tp_addr tp) (env\<lparr>env_config := su_config su\<rparr>) (tls_server tp su) accepts)"

text \<open>A connector, of the command line or of a command that adds a session; and those of the command line, by position.\<close>

definition connector_task :: "('c, 'k, 'a, 'v, 's) tls_package \<Rightarrow> 'o session_env \<Rightarrow> ('c, 'k, 'a, 'v) node_setup
    \<Rightarrow> ('s, 'o) connection option list \<Rightarrow> ('o session_result option \<times> nat option) list" where
  "connector_task tp env su attempts =
     run_outbound_with_messages (tp_addr tp) (env\<lparr>env_config := su_config su\<rparr>) (tls_client_config tp su) attempts"

definition start_connectors :: "('c, 'k, 'a, 'v, 's) tls_package \<Rightarrow> 'o session_env \<Rightarrow> ('c, 'k, 'a, 'v) node_setup
    \<Rightarrow> (nat \<Rightarrow> ('s, 'o) connection option list) \<Rightarrow> (socket_addr \<times> ('o session_result option \<times> nat option) list) list" where
  "start_connectors tp env su attempts =
     map (\<lambda>i. (su_connect su ! i, connector_task tp env su (attempts i))) [0..<length (su_connect su)]"

section \<open>Properties\<close>

text \<open>The listener takes every connection up to its first error.\<close>

lemma accept_loop_map:
  "accept_loop addr env acc accepts = map (inbound_task addr env acc) (map the (takeWhile (\<lambda>x. x \<noteq> None) accepts))"
  by (induction addr env acc accepts rule: accept_loop.induct) simp_all

lemma accept_loop_elem:
  assumes "Some result \<in> set (accept_loop addr env acc accepts)"
  obtains c where "Some c \<in> set accepts" and "inbound_task addr env acc c = Some result"
proof -
  from assms obtain x where x: "x \<in> set (takeWhile (\<lambda>x. x \<noteq> None) accepts)" "inbound_task addr env acc (the x) = Some result"
    unfolding accept_loop_map set_map by force
  from set_takeWhileD[OF x(1)] obtain c where "x = Some c" "Some c \<in> set accepts" by auto
  with x(2) show ?thesis using that by simp
qed

lemma outbound_loop_elem:
  assumes "(Some result, d) \<in> set (outbound_loop addr env tls b attempts)"
  shows "\<exists>c stream cert. Some c \<in> set attempts \<and> dial_connection addr tls (cn_stream c) = Ok (stream, cert)
    \<and> open_session addr env c stream cert (Some (cn_channel c)) = result"
  using assms
proof (induction attempts arbitrary: b)
  case (Cons x attempts)
  consider (rest) b' where "(Some result, d) \<in> set (outbound_loop addr env tls b' attempts)"
    | (here) c stream cert where "x = Some c" "dial_connection addr tls (cn_stream c) = Ok (stream, cert)"
        "open_session addr env c stream cert (Some (cn_channel c)) = result"
    using Cons.prems by (cases x) (auto simp: Let_def split: outcome.splits if_splits)
  then show ?case
  proof cases
    case rest
    from Cons.IH[OF this] obtain c stream cert where "Some c \<in> set attempts" "dial_connection addr tls (cn_stream c) = Ok (stream, cert)"
      "open_session addr env c stream cert (Some (cn_channel c)) = result" by (elim exE conjE)
    then show ?thesis by (intro exI[of _ c] exI[of _ stream] exI[of _ cert]) simp
  next
    case here
    then show ?thesis by (intro exI[of _ c] exI[of _ stream] exI[of _ cert]) simp
  qed
qed simp

text \<open>
  The pauses are those of the abstract loop over failures and successes, for as many attempts as are made; so they grow
  from one second to thirty, and a connection that comes about resets them.
\<close>

fun attempt_of :: "('s \<Rightarrow> string option) \<Rightarrow> ((string \<Rightarrow> 's handshake option) \<times> string) option
    \<Rightarrow> ('s, 'o) connection option \<Rightarrow> connect_attempt" where
  "attempt_of addr tls None = ConnectFailed"
| "attempt_of addr tls (Some c) =
     (case dial_connection addr tls (cn_stream c) of Ok _ \<Rightarrow> SessionEnded | _ \<Rightarrow> TlsFailed)"

definition pauses :: "('o session_result option \<times> nat option) list \<Rightarrow> nat list" where
  "pauses turns = List.map_filter snd turns"

lemma pauses_simps [simp]:
  "pauses [] = []" "pauses ((x, Some d) # ts) = d # pauses ts" "pauses ((x, None) # ts) = pauses ts"
  by (simp_all add: pauses_def List.map_filter_simps)

lemma outbound_loop_refines_delays:
  "\<exists>k. pauses (outbound_loop addr env tls b attempts) = reconnect_delays b (map (attempt_of addr tls) (take k attempts))"
proof (induction addr env tls b attempts rule: outbound_loop.induct)
  case (2 addr env tls b attempts)
  then obtain k where "pauses (outbound_loop addr env tls (min (b * 2) (30 * SECOND)) attempts)
     = reconnect_delays (min (b * 2) (30 * SECOND)) (map (attempt_of addr tls) (take k attempts))" by blast
  then show ?case by (intro exI[of _ "Suc k"]) simp
next
  case (3 addr env tls b c attempts)
  show ?case
  proof (cases "dial_connection addr tls (cn_stream c)")
    case (Ok x)
    obtain stream cert where x: "x = (stream, cert)" by (cases x)
    let ?result = "open_session addr env c stream cert (Some (cn_channel c))"
    show ?thesis
    proof (cases "fst ?result = None \<or> fst ?result = Some Panic")
      case True
      with Ok x show ?thesis by (intro exI[of _ 0]) auto
    next
      case False
      from 3(1)[OF Ok x[symmetric] refl False] obtain k where
        "pauses (outbound_loop addr env tls SECOND attempts) = reconnect_delays SECOND (map (attempt_of addr tls) (take k attempts))"
        by blast
      with Ok x False show ?thesis by (intro exI[of _ "Suc k"]) (auto simp: Let_def)
    qed
  next
    case (Err e)
    from 3(2)[OF Err] obtain k where
      "pauses (outbound_loop addr env tls SECOND attempts) = reconnect_delays SECOND (map (attempt_of addr tls) (take k attempts))"
      by blast
    with Err show ?thesis by (intro exI[of _ "Suc k"]) simp
  next
    case Panic
    then show ?thesis by (intro exI[of _ 0]) simp
  qed
qed simp

lemma outbound_pauses_bounded:
  "d \<in> set (pauses (run_outbound_with_messages addr env tls attempts)) \<Longrightarrow> SECOND \<le> d \<and> d \<le> 30 * SECOND"
  using outbound_loop_refines_delays[of addr env tls SECOND attempts] reconnect_delays_bounds[of SECOND]
  by (auto simp: run_outbound_with_messages_def)

text \<open>A session of a connector that has ended, also one that an operator has dropped, is followed a second later by the next attempt.\<close>

lemma ended_session_redialled:
  assumes "dial_connection addr tls (cn_stream c) = Ok (stream, cert)"
    and "open_session addr env c stream cert (Some (cn_channel c)) = (Some (Ok ()), r)"
  shows "outbound_loop addr env tls b (Some c # attempts) =
    (Some (Some (Ok ()), r), Some SECOND) # outbound_loop addr env tls SECOND attempts"
  using assms by simp

text \<open>What a session may do when its peer has presented a certificate, or rather something in the place of one.\<close>

definition certified :: "x509 \<Rightarrow> bytes \<Rightarrow> ('s, 'o) connection \<Rightarrow> 'o session_result \<Rightarrow> bool" where
  "certified parse cert c result =
     (case extract_node_id_from_cert parse cert of
        Ok t \<Rightarrow> (\<forall>a n. Connected a n \<in> set (run_events (snd result)) \<longrightarrow> n = t)
          \<and> (\<forall>n d. PongEvent n d \<in> set (run_events (snd result)) \<longrightarrow> n = t)
          \<and> (\<forall>n. n \<noteq> t \<longrightarrow> hm_get (run_registry (snd result)) n = hm_get (cn_registry c) n)
      | _ \<Rightarrow> (\<exists>e. fst result = Some (Err e)) \<and> run_events (snd result) = [] \<and> run_out (snd result) = cn_out c
          \<and> run_registry (snd result) = cn_registry c)"

lemma open_session_certified:
  assumes "open_session addr env c stream (Some cert) ch = result"
    and "sc_verify_node_id (env_config env)" and "env_cert_node_id env = cert_node_id parse"
  shows "certified parse cert c result"
proof (cases "peer_addr addr stream")
  case None
  with assms(1) show ?thesis by (auto simp: certified_def open_session_def split: outcome.split)
next
  case (Some x)
  obtain res r where result: "result = (res, r)" by (cases result)
  let ?env = "env\<lparr>env_peer_addr := x, env_peer_cert := Some cert, env_message_tx := ch\<rparr>"
  have run: "run_inbound_with_messages ?env (cn_started c) (cn_inputs c) (cn_out c) (cn_registry c) = (res, r)"
    using assms(1) Some by (simp add: open_session_def result)
  have cert: "env_peer_cert ?env = Some cert" and verify: "sc_verify_node_id (env_config ?env)" using assms(2) by simp_all
  show ?thesis
  proof (cases "\<exists>t. extract_node_id_from_cert parse cert = Ok t")
    case True
    then obtain t where t: "extract_node_id_from_cert parse cert = Ok t" ..
    then have "env_cert_node_id ?env cert = Some t" by (simp add: assms(3) cert_node_id_def)
    from verified_identity[OF verify cert this run] t show ?thesis by (simp add: certified_def result)
  next
    case False
    then have "env_cert_node_id ?env cert = None" by (auto simp: assms(3) cert_node_id_def split: outcome.split)
    with cert verify run have "res = Some (Err SeCertificate)" "run_events r = []" "run_out r = cn_out c" "run_registry r = cn_registry c"
      by (auto simp: run_inbound_with_messages_def tls_node_id_of_def)
    with False show ?thesis by (auto simp: certified_def result split: outcome.split)
  qed
qed

text \<open>A handshake, on either side, puts the first certificate of the peer in front of the session.\<close>

lemma accept_connection_certificate:
  assumes "accept_connection addr (Some acceptor) tcp = Some (stream, cert)"
  obtains s certs where "acceptor tcp = Some (s, certs)" and "cert = Some (first_cert certs)"
  using assms by (auto simp: accept_connection_def accept_tls_def split: outcome.splits if_splits option.splits)

lemma dial_connection_certificate:
  assumes "dial_connection addr (Some (connector, name)) tcp = Ok (stream, cert)"
  obtains h s certs where "connector name = Some h" and "h tcp = Some (s, certs)" and "cert = Some (first_cert certs)"
  using assms by (auto simp: dial_connection_def connect_tls_def obind_eq_Ok split: outcome.splits if_splits option.splits)

lemma start_setup:
  assumes "start log_ok read tenv listen now now' a = Some (Ok su)"
  shows "sc_verify_node_id (su_config su) = ar_tls_verify_node_id a" and "su_tls su \<noteq> None \<longleftrightarrow> ar_tls a"
    and "su_listen su = ar_listen a" and "su_connect su = ar_connect a"
proof -
  from assms obtain config tls n where "check_args log_ok read tenv a = Ok (config, tls)"
      and up: "bring_up listen a (config, tls) n = Ok su"
    by (auto simp: start_def split: outcome.splits)
  moreover from up have su: "su_config su = config" "su_tls su = tls" "su_listen su = ar_listen a" "su_connect su = ar_connect a"
    by (auto simp: bring_up_def obind_eq_Ok)
  ultimately obtain mode where "session_config_of a mode = su_config su" "load_tls read tenv a = Ok (su_tls su)"
    by (auto simp: check_args_def obind_eq_Ok)
  then show "sc_verify_node_id (su_config su) = ar_tls_verify_node_id a" "su_tls su \<noteq> None \<longleftrightarrow> ar_tls a"
    using load_tls_Some by (metis session_config.select_convs(4) session_config_of_def, blast)
  from su show "su_listen su = ar_listen a" "su_connect su = ar_connect a" by simp_all
qed

text \<open>
  C21: A node that was started with TLS and verification knows its peers by their certificates and by nothing else. Whatever connections
  its listener accepts and its connectors dial, on the command line's addresses or on an operator's, and whatever the peers send: every session
  that is run stands on a handshake with the loaded configuration; when the first certificate the peer presented names node \<open>t\<close>, the session announces
  connections and round trips under no other node and changes the registry of message channels at no other node; when it
  names none, or there is none that can be read, the session ends with an error before it has written, announced or registered anything.
\<close>

theorem certified_links:
  assumes "start log_ok read tenv listen now now' a = Some (Ok su)" and "ar_tls a" and "ar_tls_verify_node_id a"
    and "env_cert_node_id env = cert_node_id parse"
    and "Some result \<in> set (listener_task tp env su conns) \<or> (\<exists>d. (Some result, d) \<in> set (connector_task tp env su conns))"
  shows "\<exists>srv cli name c s certs. su_tls su = Some (srv, cli, name) \<and> Some c \<in> set conns
    \<and> (tp_acceptor tp srv (cn_stream c) = Some (s, certs)
        \<or> (\<exists>h. tp_connector tp cli name = Some h \<and> h (cn_stream c) = Some (s, certs)))
    \<and> (case extract_node_id_from_cert parse (first_cert certs) of
        Ok t \<Rightarrow> (\<forall>addr n. Connected addr n \<in> set (run_events (snd result)) \<longrightarrow> n = t)
          \<and> (\<forall>n d. PongEvent n d \<in> set (run_events (snd result)) \<longrightarrow> n = t)
          \<and> (\<forall>n. n \<noteq> t \<longrightarrow> hm_get (run_registry (snd result)) n = hm_get (cn_registry c) n)
      | _ \<Rightarrow> (\<exists>e. fst result = Some (Err e)) \<and> run_events (snd result) = [] \<and> run_out (snd result) = cn_out c
          \<and> run_registry (snd result) = cn_registry c)"
proof -
  from start_setup(1,2)[OF assms(1)] assms(2,3) obtain srv cli name where
    tls: "su_tls su = Some (srv, cli, name)" and verify: "sc_verify_node_id (su_config su)" by auto
  let ?env = "env\<lparr>env_config := su_config su\<rparr>"
  have open_ok: "certified parse cert c result" if "open_session (tp_addr tp) ?env c stream (Some cert) ch = result"
    for c stream cert ch using open_session_certified[OF that] verify assms(4) by simp
  have "\<exists>c s certs. Some c \<in> set conns \<and> certified parse (first_cert certs) c result
      \<and> (tp_acceptor tp srv (cn_stream c) = Some (s, certs)
        \<or> (\<exists>h. tp_connector tp cli name = Some h \<and> h (cn_stream c) = Some (s, certs)))"
    using assms(5)
  proof (elim disjE exE)
    assume "Some result \<in> set (listener_task tp env su conns)"
    then have "Some result \<in> set (accept_loop (tp_addr tp) ?env (Some (tp_acceptor tp srv)) conns)"
      by (auto simp: listener_task_def tls_server_def tls split: if_splits)
    then obtain c where c: "Some c \<in> set conns" "inbound_task (tp_addr tp) ?env (Some (tp_acceptor tp srv)) c = Some result"
      by (rule accept_loop_elem)
    then obtain stream cert where "accept_connection (tp_addr tp) (Some (tp_acceptor tp srv)) (cn_stream c) = Some (stream, cert)"
        and o: "open_session (tp_addr tp) ?env c stream cert (Some (cn_channel c)) = result"
      by (auto simp: inbound_task_def)
    then show ?thesis using c(1) open_ok by (metis accept_connection_certificate)
  next
    fix d assume "(Some result, d) \<in> set (connector_task tp env su conns)"
    then have "(Some result, d) \<in> set (outbound_loop (tp_addr tp) ?env (Some (tp_connector tp cli, name)) SECOND conns)"
      by (simp add: connector_task_def run_outbound_with_messages_def tls_client_config_def tls)
    from outbound_loop_elem[OF this] show ?thesis using open_ok by (metis dial_connection_certificate)
  qed
  with tls show ?thesis unfolding certified_def by blast
qed

section \<open>Witnesses\<close>

text \<open>A node with TLS, and a connection whose peer presents a certificate of node 7 and then stays silent.\<close>

definition ex_tls_args :: args where
  "ex_tls_args = args_default\<lparr>ar_listen := Some \<lparr>sa_ip = ''0.0.0.0'', sa_port = 9000, sa_text = ''0.0.0.0:9000''\<rparr>,
     ar_tls := True, ar_tls_cert := Some ''cert'', ar_tls_key := Some ''key'', ar_tls_ca := Some ''ca''\<rparr>"

definition ex_package :: "(nat, nat, nat, nat list, unit) tls_package" where
  "ex_package = \<lparr>tp_acceptor = (\<lambda>_ s. Some (s, Some [[7]])), tp_connector = (\<lambda>_ _. None), tp_addr = (\<lambda>_. Some ''peer'')\<rparr>"

definition ex_connection :: "(unit, bytes list) connection" where
  "ex_connection = \<lparr>cn_stream = (), cn_started = 0, cn_inputs = [IdleTimer (31 * SECOND)], cn_out = [], cn_channel = 3, cn_registry = []\<rparr>"

theorem certified_links_witness:
  "\<exists>su result. start (\<lambda>_. True) Some ex_tls (\<lambda>_. True) 0 0 ex_tls_args = Some (Ok su)
     \<and> listener_task ex_package ((ex_env 1)\<lparr>env_cert_node_id := cert_node_id ex_x509\<rparr>) su [Some ex_connection] = [Some result]
     \<and> hm_get (run_registry (snd result)) 8 = None"
proof -
  let ?env = "(ex_env 1)\<lparr>env_cert_node_id := cert_node_id ex_x509\<rparr>"
  have "\<exists>su. start (\<lambda>_. True) Some ex_tls (\<lambda>_. True) 0 0 ex_tls_args = Some (Ok su)"
    by (simp add: start_def check_args_def validate_tls_def parse_storage_mode_def load_tls_def or_panic_def make_server_config_def
        make_client_config_def load_defs ex_tls_def ok_or_def ex_tls_args_def args_default_def bootstrap_def bring_up_def check_mode_def
        grpc_components_def)
  then obtain su where su: "start (\<lambda>_. True) Some ex_tls (\<lambda>_. True) 0 0 ex_tls_args = Some (Ok su)" ..
  have tls: "ar_tls ex_tls_args" "ar_tls_verify_node_id ex_tls_args" by (simp_all add: ex_tls_args_def args_default_def)
  obtain srv cli name where "su_tls su = Some (srv, cli, name)" using start_setup(2)[OF su] tls(1) by auto
  moreover have "su_listen su \<noteq> None" using start_setup(3)[OF su] by (simp add: ex_tls_args_def)
  ultimately obtain result where r: "listener_task ex_package ?env su [Some ex_connection] = [Some result]"
    by (simp add: listener_task_def tls_server_def inbound_task_def ex_package_def ex_connection_def accept_connection_def accept_tls_def)
  then have m: "Some result \<in> set (listener_task ex_package ?env su [Some ex_connection])
      \<or> (\<exists>d. (Some result, d) \<in> set (connector_task ex_package ?env su [Some ex_connection]))" by simp
  have "extract_node_id_from_cert ex_x509 (first_cert (Some [[7]])) = Ok 7"
    by (simp add: first_cert_def get_or_def extract_node_id_from_cert_def ex_x509_def ok_or_def parse_u64_def to_digit_def)
  with certified_links[OF su tls _ m, of ex_x509] have "hm_get (run_registry (snd result)) 8 = None"
    by (auto simp: ex_package_def ex_connection_def)
  with su r show ?thesis by blast
qed

end
