(* ===== verification/Flooding.thy ===== *)
theory Flooding
  imports Control
begin

text \<open>
  Flooding of link-state updates over a mesh of nodes. Every node runs the event loop of the theory on the node; an update on the
  channel to its session manager is broadcast to every neighbour it is connected to. Sessions come and go, copies of updates travel
  in any order, and a node works off one input before it takes the next.
\<close>

section \<open>The mesh\<close>

definition flooded :: "mesh_node \<Rightarrow> topology_update list" where
  "flooded n = (case mn_topology_updates n of Some us \<Rightarrow> us | None \<Rightarrow> [])"

text \<open>What an input of a node puts on its channel of updates, and the node after it.\<close>

definition node_round :: "u64 \<Rightarrow> u64 \<Rightarrow> (node_id \<Rightarrow> u64) \<Rightarrow> node_input \<Rightarrow> mesh_node
    \<Rightarrow> (topology_update list \<times> mesh_node) option" where
  "node_round now now' clock i n =
     map_option (\<lambda>n'. (drop (length (flooded n)) (flooded n'), n')) (node_run (serial [(i, now, now', clock)]) n)"

text \<open>The copies that are under way, each with the node it is for.\<close>

type_synonym mesh_state = "(node_id \<Rightarrow> mesh_node) \<times> (node_id \<times> topology_update) list"

abbreviation neighbors :: "mesh_node \<Rightarrow> node_id set" where
  "neighbors n \<equiv> set (hm_keys (mn_connected_neighbors n))"

definition copies :: "topology_update list \<Rightarrow> mesh_node \<Rightarrow> (node_id \<times> topology_update) list" where
  "copies us n = concat (map (\<lambda>u. map (\<lambda>w. (w, u)) (hm_keys (mn_connected_neighbors n))) us)"

text \<open>A copy arrives, no later than five minutes after its stamp by the clock of the receiver.\<close>

inductive arrival :: "mesh_state \<Rightarrow> mesh_state \<Rightarrow> bool" where
  arrival: "node_round now now' clock (TopologyInput u) (N v) = Some (us, n') \<Longrightarrow>
     unat now \<le> unat (tu_timestamp u) + 300 \<Longrightarrow>
     arrival (N, xs @ (v, u) # ys) (N(v := n'), xs @ ys @ copies us n')"

text \<open>A session of the node \<open>a\<close> comes up or ends. Sequence numbers have \<open>2 ^ 63\<close> values to go before they compare the other way round.\<close>

definition session_change :: "node_id set \<Rightarrow> node_id \<Rightarrow> session_event \<Rightarrow> bool" where
  "session_change V a e \<longleftrightarrow> (case e of Connected _ b \<Rightarrow> b \<in> V \<and> b \<noteq> a | Disconnected (Some _) \<Rightarrow> True | _ \<Rightarrow> False)"

inductive mesh_step :: "node_id set \<Rightarrow> mesh_state \<Rightarrow> mesh_state \<Rightarrow> bool" for V where
  mesh_arrival: "arrival s s' \<Longrightarrow> mesh_step V s s'"
| mesh_session: "a \<in> V \<Longrightarrow> session_change V a e \<Longrightarrow> unat (db_local_sequence (mn_topology_db (N a))) + 1 < 2 ^ 63 \<Longrightarrow>
     node_round now now' clock (SessionInput e) (N a) = Some (us, n') \<Longrightarrow>
     mesh_step V (N, fl) (N(a := n'), fl @ copies us n')"

definition mesh_start :: mesh_state where
  "mesh_start = (\<lambda>v. mesh_node_new v True, [])"

definition connected_in :: "(node_id \<Rightarrow> mesh_node) \<Rightarrow> node_id \<Rightarrow> node_id \<Rightarrow> bool" where
  "connected_in N x y \<longleftrightarrow> hm_contains (mn_connected_neighbors (N x)) y"

lemma connected_in_iff: "connected_in N x y \<longleftrightarrow> y \<in> neighbors (N x)"
  by (simp add: connected_in_def hm_contains_def hm_get_None_iff)

lemma copies_Nil [simp]: "copies [] n = []"
  by (simp add: copies_def)

lemma set_copies [simp]: "set (copies us n) = neighbors n \<times> set us"
  by (auto simp: copies_def)

section \<open>Rounds\<close>

text \<open>An update that is no news changes nothing, and is not passed on.\<close>

lemma round_stale:
  assumes "mn_tasks n = []" and "\<not> update_fresh now u (mn_topology_db n)"
  shows "node_round now now' clock (TopologyInput u) n = Some ([], n)"
proof -
  have "run_section now now' clock (TaskUpdate True u) (spawn (TaskUpdate True u) n) = Some (None, spawn (TaskUpdate True u) n)"
    using assms by (simp add: run_section_defs process_topology_update_stale spawn_def)
  from run_both(1)[OF _ this] assms(1)
  have "node_run (serial [(TopologyInput u, now, now', clock)]) n = Some ((spawn (TaskUpdate True u) n)\<lparr>mn_tasks := []\<rparr>)"
    by (simp add: node_step_def[of "TopologyInput _"] on_received_topology_def spawn_def)
  moreover have "(spawn (TaskUpdate True u) n)\<lparr>mn_tasks := []\<rparr> = n" using assms(1) by (simp add: spawn_def)
  ultimately show ?thesis by (simp add: node_round_def)
qed

text \<open>One that is news enters the database and is passed on while its time to live lasts.\<close>

definition forwarded :: "topology_update \<Rightarrow> topology_update list" where
  "forwarded u = (if tu_ttl u > 1 then [u\<lparr>tu_ttl := tu_ttl u - 1\<rparr>] else [])"

lemma round_fresh:
  assumes "settled n" and "tu_originator_node u \<noteq> mn_node_id n" and "update_fresh now u (mn_topology_db n)"
    and "mn_topology_updates n \<noteq> None"
  obtains n' where "node_round now now' clock (TopologyInput u) n = Some (forwarded u, n')"
    and "settled n'" and "mn_node_id n' = mn_node_id n" and "mn_topology_updates n' \<noteq> None"
    and "mn_connected_neighbors n' = mn_connected_neighbors n"
    and "db_local_sequence (mn_topology_db n') = db_local_sequence (mn_topology_db n)"
    and "\<And>a. hm_get (db_nodes (mn_topology_db n')) a = (if a = tu_originator_node u
      then Some \<lparr>nd_node_id = a, nd_sequence_number = tu_sequence_number u, nd_last_updated = now,
        nd_neighbors = links_of now (tu_neighbors u) []\<rparr>
      else hm_get (db_nodes (mn_topology_db n)) a)"
proof -
  let ?ts = "[RunTask 0 now now' clock, RunTask 0 now now' clock]"
  have idle: "mn_tasks n = []" and wf: "db_wf (mn_topology_db n)"
    using assms(1) by (simp_all add: settled_def node_ok_def db_ok_def)
  from spawned_update_settles[OF assms(1) refl idle refl refl refl refl assms(2), where f = True and now = now and now' = now'
      and clock = clock]
  obtain n' where n': "node_run ?ts (spawn (TaskUpdate True u) n) = Some n'" "settled n'" "mn_node_id n' = mn_node_id n"
      "mn_topology_updates n' = map_option (\<lambda>us. us @ forwarded u) (mn_topology_updates n)"
      "process_topology_update now u (mn_topology_db n) = Some (True, mn_topology_db n')"
    using assms(3) by (auto simp: forwarded_def)
  have "mn_connected_neighbors n' = mn_connected_neighbors (spawn (TaskUpdate True u) n)"
    by (rule tasks_keep_connected[OF _ n'(1)]) simp
  moreover have "node_run (serial [(TopologyInput u, now, now', clock)]) n = Some n'"
    using n'(1) by (simp add: node_step_def[of "TopologyInput _"] on_received_topology_def)
  ultimately show thesis
    by (rule_tac process_topology_update_fresh[OF wf assms(3)], rule_tac that[of n'])
      (use n' assms(4) in \<open>auto simp: node_round_def flooded_def spawn_def\<close>)
qed

text \<open>A change of the sessions: the own links are announced, and after a connection all that is known of others.\<close>

definition sessions_after :: "session_event \<Rightarrow> (node_id, string) hmap \<Rightarrow> (node_id, string) hmap" where
  "sessions_after e c = (case e of Connected peer b \<Rightarrow> hm_insert b peer c | Disconnected (Some b) \<Rightarrow> hm_remove b c | _ \<Rightarrow> c)"

definition announcement :: "u64 \<Rightarrow> session_event \<Rightarrow> mesh_node \<Rightarrow> topology_update" where
  "announcement now' e n = topology_update_new now' (mn_node_id n) (db_local_sequence (mn_topology_db n))
     (neighbors_of (sessions_after e (mn_connected_neighbors n))) DEFAULT_TOPOLOGY_TTL"

definition announced :: "u64 \<Rightarrow> (node_id \<Rightarrow> u64) \<Rightarrow> session_event \<Rightarrow> mesh_node \<Rightarrow> topology_update list" where
  "announced now' clock e n = announcement now' e n #
     (case e of Connected _ _ \<Rightarrow> get_all_topology_updates clock (mn_topology_db n) | _ \<Rightarrow> [])"

lemma session_round:
  assumes "settled n" and "mn_topology_updates n \<noteq> None" and "session_change V a e"
  obtains n' where "node_round now now' clock (SessionInput e) n = Some (announced now' clock e n, n')"
    and "settled n'" and "mn_node_id n' = mn_node_id n" and "mn_topology_updates n' \<noteq> None"
    and "mn_connected_neighbors n' = sessions_after e (mn_connected_neighbors n)"
    and "db_local_sequence (mn_topology_db n') = db_local_sequence (mn_topology_db n) + 1"
    and "\<And>a. hm_get (db_nodes (mn_topology_db n')) a = (if a = mn_node_id n
      then Some \<lparr>nd_node_id = a, nd_sequence_number = db_local_sequence (mn_topology_db n), nd_last_updated = now,
        nd_neighbors = links_of now (tu_neighbors (announcement now' e n)) []\<rparr>
      else hm_get (db_nodes (mn_topology_db n)) a)"
proof -
  let ?ts = "[RunTask 0 now now' clock, RunTask 0 now now' clock]"
  let ?m = "on_session_event e n"
  let ?ns = "neighbors_of (sessions_after e (mn_connected_neighbors n))"
  define task where "task = (case e of Connected _ _ \<Rightarrow> TaskConnected ?ns | _ \<Rightarrow> TaskDisconnected ?ns)"
  have ok: "db_wf (mn_topology_db n)" "db_local_node_id (mn_topology_db n) = mn_node_id n" "mn_tasks n = []"
    using assms(1) by (simp_all add: settled_def node_ok_def db_ok_def)
  have m: "mn_tasks ?m = [task]" "mn_connected_neighbors ?m = sessions_after e (mn_connected_neighbors n)"
      "mn_topology_db ?m = mn_topology_db n" "mn_routing_table ?m = mn_routing_table n" "mn_node_id ?m = mn_node_id n"
      "mn_topology_updates ?m = mn_topology_updates n"
    using assms(3) by (auto simp: session_change_def on_session_event_defs spawn_def Let_def ok(3) task_def sessions_after_def
        split: session_event.splits option.splits)
  have "task = TaskConnected (neighbors_of (mn_connected_neighbors ?m)) \<or>
      task = TaskDisconnected (neighbors_of (mn_connected_neighbors ?m))"
    by (simp add: m(2) task_def split: session_event.split)
  from spawned_local_settles[OF assms(1) m(1,5,3,4) this, of now now' clock] obtain n' where
    n': "node_run ?ts ?m = Some n'" "settled n'" "mn_node_id n' = mn_node_id n" by auto
  obtain db' where db': "update_local_neighbors now now' ?ns (mn_topology_db n) = Some (announcement now' e n, db')"
      "db_local_sequence db' = db_local_sequence (mn_topology_db n) + 1"
      "\<And>a. hm_get (db_nodes db') a = (if a = mn_node_id n
        then Some \<lparr>nd_node_id = a, nd_sequence_number = db_local_sequence (mn_topology_db n), nd_last_updated = now,
          nd_neighbors = links_of now ?ns []\<rparr>
        else hm_get (db_nodes (mn_topology_db n)) a)"
    by (rule update_local_neighbors_ok[OF ok(1), of now now' ?ns]) (simp add: announcement_def ok(2))
  have "run_section now now' clock task m =
      Some (Some (TaskTable (get_routes db') (announced now' clock e n)), m\<lparr>mn_topology_db := db'\<rparr>)"
    if "mn_topology_db m = mn_topology_db n" for m
    using db'(1) assms(3) that
    by (auto simp: session_change_def run_section_defs task_def announced_def split: session_event.splits)
  from run_both(2)[OF m(1) this[OF m(3)]] n'(1) have eq: "n' = flood (announced now' clock e n) (?m\<lparr>mn_topology_db := db',
      mn_routing_table := update_routes_from_topology (get_routes db') (mn_routing_table n), mn_tasks := []\<rparr>)"
    by (simp add: m(4))
  have "node_run (serial [(SessionInput e, now, now', clock)]) n = Some n'"
    using n'(1) by (simp add: node_step_def[of "SessionInput _"])
  then show thesis
    by (rule_tac that[of n'])
      (use n' assms(2) db'(2,3) m(2,6) in \<open>auto simp: node_round_def flooded_def eq flood_def announcement_def topology_update_new_def\<close>)
qed

section \<open>Deviations\<close>

text \<open>
  The mesh takes it that a broadcast goes to every neighbour the node is connected to. The manager learns of a connection and of
  the update that announces it through two channels, and takes from either: when the update is first, the new neighbour gets nothing.
\<close>

lemma first_update_lost:
  assumes "sm_sessions m = []" and "sm_topology_update_set m" and "hm_get (sm_registry m) b = Some c"
    and "hm_get (sm_channels m) c = Some []" and "update_enc u = Some payload"
  shows "hm_get (sm_channels (fold (manager_step hash update_enc) [FromSession (Connected peer b), FromTopology u] m)) c =
      Some [topology_message (sm_local_node_id m) b payload]"
    and "hm_get (sm_channels (fold (manager_step hash update_enc) [FromTopology u, FromSession (Connected peer b)] m)) c = Some []"
  using assms
  by (simp_all add: manager_step_def handle_session_event_def broadcast_topology_update_def channel_send_get)

end
