(* ===== verification/Convergence.thy ===== *)
theory Convergence
  imports Flooding
begin

text \<open>
  A mesh agrees on its links. The invariant of the mesh says what copies under way and entries of databases may hold, relative to the
  connections that the nodes have; it is kept by arrivals and by changes of sessions, and gives agreement once no copy is under way.
\<close>

section \<open>What is said of a node\<close>

definition costs :: "(node_id, link_info) hmap \<Rightarrow> node_id \<Rightarrow> u32 option" where
  "costs m x = map_option li_cost (hm_get m x)"

text \<open>What an update advertises, and what the node is connected to.\<close>

definition advertised :: "topology_update \<Rightarrow> node_id \<Rightarrow> u32 option" where
  "advertised u = costs (links_of 0 (tu_neighbors u) [])"

definition links :: "mesh_node \<Rightarrow> node_id \<Rightarrow> u32 option" where
  "links n x = (if x \<in> neighbors n then Some 100 else None)"

lemma costs_Nil [simp]: "costs [] x = None"
  by (simp add: costs_def)

lemma costs_insert: "costs (hm_insert k l m) = (costs m)(k \<mapsto> li_cost l)"
  by (auto simp: costs_def)

lemma costs_links_of_cong: "costs m = costs m' \<Longrightarrow> costs (links_of t ns m) = costs (links_of t' ns m')"
proof (induction ns arbitrary: m m')
  case (Cons n ns)
  show ?case unfolding links_of.simps by (rule Cons.IH) (simp add: costs_insert Cons.prems)
qed simp

lemma costs_links_of: "costs (links_of t (tu_neighbors u) []) = advertised u"
  unfolding advertised_def by (rule costs_links_of_cong) simp

lemma costs_neighbors_of: "costs (links_of t (neighbors_of c) m) x = (if x \<in> set (hm_keys c) then Some 100 else costs m x)"
proof (induction c arbitrary: m)
  case (Cons p c)
  then show ?case by (cases p) (auto simp: neighbors_of_def neighbor_info_new_def costs_insert hm_keys_def)
qed (simp add: neighbors_of_def)

text \<open>What a node tells of another is what it has in its database.\<close>

lemma costs_retold:
  assumes "hm_wf m"
  shows "costs (links_of t (map (\<lambda>(k, l). neighbor_info_new k (li_cost l) (li_addr l)) m) m') x =
    (if x \<in> set (hm_keys m) then costs m x else costs m' x)"
  using assms
proof (induction m arbitrary: m')
  case (Cons p m)
  obtain k l where p: "p = (k, l)" by (cases p)
  with Cons.prems have wf: "hm_wf m" "k \<notin> set (hm_keys m)" by (auto simp: hm_wf_def hm_keys_def)
  show ?case using Cons.IH[OF wf(1)] wf(2)
    by (auto simp: p neighbor_info_new_def costs_insert costs_def hm_get_Cons)
qed simp

lemma newer_below:
  assumes "unat (tu_sequence_number u) < 2 ^ 63" and "unat s < 2 ^ 63"
  shows "is_newer_than u s \<longleftrightarrow> unat s < unat (tu_sequence_number u)"
proof
  assume "is_newer_than u s"
  then obtain d where d: "0 < d" "d < 2 ^ 63" "tu_sequence_number u = s + word_of_nat d" by (auto simp: is_newer_than_iff)
  then have "unat (tu_sequence_number u) = unat s + d"
    using assms(2) by (simp add: unat_word_ariths unat_of_nat)
  with d(1) show "unat s < unat (tu_sequence_number u)" by simp
next
  assume "unat s < unat (tu_sequence_number u)"
  then have "0 < unat (tu_sequence_number u) - unat s" "unat (tu_sequence_number u) - unat s < 2 ^ 63"
      "tu_sequence_number u = s + word_of_nat (unat (tu_sequence_number u) - unat s)"
    using assms(1) by (auto simp: of_nat_diff)
  then show "is_newer_than u s" unfolding is_newer_than_iff by blast
qed

section \<open>The invariant\<close>

definition mesh_ok :: "node_id set \<Rightarrow> (node_id \<Rightarrow> mesh_node) \<Rightarrow> bool" where
  "mesh_ok V N \<longleftrightarrow> (\<forall>v\<in>V. settled (N v) \<and> mn_node_id (N v) = v \<and> mn_topology_updates (N v) \<noteq> None \<and> neighbors (N v) \<subseteq> V)"

definition entry :: "(node_id \<Rightarrow> mesh_node) \<Rightarrow> node_id \<Rightarrow> node_id \<Rightarrow> node_info option" where
  "entry N v a = hm_get (db_nodes (mn_topology_db (N v))) a"

definition local_seq :: "(node_id \<Rightarrow> mesh_node) \<Rightarrow> node_id \<Rightarrow> nat" where
  "local_seq N a = unat (db_local_sequence (mn_topology_db (N a)))"

text \<open>News of \<open>a\<close> have a number that \<open>a\<close> has given out, and with the last one they have the links of \<open>a\<close>.\<close>

definition news_ok :: "(node_id \<Rightarrow> mesh_node) \<Rightarrow> node_id \<Rightarrow> u64 \<Rightarrow> (node_id \<Rightarrow> u32 option) \<Rightarrow> bool" where
  "news_ok N a s c \<longleftrightarrow> 1 \<le> unat s \<and> unat s < local_seq N a \<and> (Suc (unat s) = local_seq N a \<longrightarrow> c = links (N a))"

definition entries_ok :: "node_id set \<Rightarrow> (node_id \<Rightarrow> mesh_node) \<Rightarrow> bool" where
  "entries_ok V N \<longleftrightarrow> (\<forall>v\<in>V. \<forall>a j. entry N v a = Some j \<longrightarrow> a \<in> V \<and> news_ok N a (nd_sequence_number j) (costs (nd_neighbors j)))"

definition flights_ok :: "node_id set \<Rightarrow> mesh_state \<Rightarrow> bool" where
  "flights_ok V s \<longleftrightarrow> (case s of (N, fl) \<Rightarrow> \<forall>v w. (v, w) \<in> set fl \<longrightarrow> v \<in> V \<and> tu_originator_node w \<in> V
     \<and> news_ok N (tu_originator_node w) (tu_sequence_number w) (advertised w))"

text \<open>Copies with the last news of their originator, and the nodes that have the last news of \<open>a\<close>.\<close>

definition latest :: "(node_id \<Rightarrow> mesh_node) \<Rightarrow> topology_update \<Rightarrow> bool" where
  "latest N w \<longleftrightarrow> Suc (unat (tu_sequence_number w)) = local_seq N (tu_originator_node w)"

definition informed :: "(node_id \<Rightarrow> mesh_node) \<Rightarrow> node_id \<Rightarrow> node_id \<Rightarrow> bool" where
  "informed N a v \<longleftrightarrow> (\<exists>j. entry N v a = Some j \<and> Suc (unat (nd_sequence_number j)) = local_seq N a)"

text \<open>
  A node numbers below \<open>2 ^ 63\<close>, and knows of itself as soon as it has had a session; the last news of a node have come to the neighbours
  of all that have them, or are on the way; and a copy has lost no more of its time to live than there are nodes that have its news.
\<close>

definition own_ok :: "node_id set \<Rightarrow> (node_id \<Rightarrow> mesh_node) \<Rightarrow> bool" where
  "own_ok V N \<longleftrightarrow> (\<forall>a\<in>V. local_seq N a < 2 ^ 63 \<and> (local_seq N a = 1 \<and> neighbors (N a) = {} \<or> informed N a a))"

definition spread_ok :: "node_id set \<Rightarrow> mesh_state \<Rightarrow> bool" where
  "spread_ok V s \<longleftrightarrow> (case s of (N, fl) \<Rightarrow> \<forall>a\<in>V. \<forall>v\<in>V. informed N a v \<longrightarrow> (\<forall>x\<in>neighbors (N v).
     informed N a x \<or> (\<exists>w. (x, w) \<in> set fl \<and> tu_originator_node w = a \<and> latest N w)))"

definition ttl_ok :: "node_id set \<Rightarrow> mesh_state \<Rightarrow> bool" where
  "ttl_ok V s \<longleftrightarrow> (case s of (N, fl) \<Rightarrow> \<forall>v w. (v, w) \<in> set fl \<longrightarrow> latest N w \<longrightarrow>
     8 < card {v \<in> V. informed N (tu_originator_node w) v} + unat (tu_ttl w))"

definition mesh_inv :: "node_id set \<Rightarrow> mesh_state \<Rightarrow> bool" where
  "mesh_inv V s \<longleftrightarrow> mesh_ok V (fst s) \<and> entries_ok V (fst s) \<and> flights_ok V s \<and> own_ok V (fst s) \<and> spread_ok V s \<and> ttl_ok V s"

lemma mesh_inv_start: "mesh_inv V mesh_start"
proof -
  have "settled (mesh_node_new v True)" for v by (rule settled_new)
  then show ?thesis
    by (simp add: mesh_inv_def mesh_start_def mesh_ok_def entries_ok_def flights_ok_def own_ok_def spread_ok_def ttl_ok_def
        local_seq_def informed_def entry_def mesh_node_new_def topology_database_new_def)
qed

section \<open>Arrivals\<close>

lemma news_bound: "own_ok V N \<Longrightarrow> a \<in> V \<Longrightarrow> news_ok N a s c \<Longrightarrow> unat s < 2 ^ 63"
  by (force simp: own_ok_def news_ok_def)

lemma flightD:
  assumes "mesh_inv V (N, fl)" and "(v, w) \<in> set fl"
  shows "v \<in> V" and "tu_originator_node w \<in> V"
    and "news_ok N (tu_originator_node w) (tu_sequence_number w) (advertised w)"
  using assms by (auto simp: mesh_inv_def flights_ok_def)

lemma entryD:
  assumes "mesh_inv V s" and "v \<in> V" and "entry (fst s) v a = Some j"
  shows "a \<in> V" and "news_ok (fst s) a (nd_sequence_number j) (costs (nd_neighbors j))"
  using assms by (auto simp: mesh_inv_def entries_ok_def)

text \<open>Within the five minutes, a node takes an update exactly when it has older news of the originator, or none.\<close>

lemma fresh_iff:
  assumes "mesh_inv V (N, fl)" and "(v, w) \<in> set fl" and "unat now \<le> unat (tu_timestamp w) + 300"
  shows "update_fresh now w (mn_topology_db (N v)) \<longleftrightarrow>
    (\<forall>j. entry N v (tu_originator_node w) = Some j \<longrightarrow> unat (nd_sequence_number j) < unat (tu_sequence_number w))"
proof -
  have own: "own_ok V N" using assms(1) by (simp add: mesh_inv_def)
  have "is_newer_than w (nd_sequence_number j) \<longleftrightarrow> unat (nd_sequence_number j) < unat (tu_sequence_number w)"
    if "entry N v (tu_originator_node w) = Some j" for j
    by (rule newer_below; rule news_bound[OF own flightD(2)[OF assms(1,2)]])
      (use that flightD[OF assms(1,2)] entryD(2)[OF assms(1), of v _ j] in auto)
  then show ?thesis using assms(3) by (auto simp: update_fresh_def entry_def)
qed

lemma stale_informed:
  assumes "mesh_inv V (N, fl)" and "(v, w) \<in> set fl" and "unat now \<le> unat (tu_timestamp w) + 300"
    and "\<not> update_fresh now w (mn_topology_db (N v))" and "latest N w"
  shows "informed N (tu_originator_node w) v"
proof -
  obtain j where j: "entry N v (tu_originator_node w) = Some j" "unat (tu_sequence_number w) \<le> unat (nd_sequence_number j)"
    using fresh_iff[OF assms(1-3)] assms(4) by (auto simp: not_less)
  have "unat (nd_sequence_number j) < local_seq N (tu_originator_node w)"
    using entryD[OF assms(1), of v _ j] flightD[OF assms(1,2)] j(1) by (simp add: news_ok_def)
  with j assms(5) show ?thesis by (auto simp: informed_def latest_def)
qed

lemma fresh_uninformed:
  assumes "mesh_inv V (N, fl)" and "(v, w) \<in> set fl" and "unat now \<le> unat (tu_timestamp w) + 300"
    and "update_fresh now w (mn_topology_db (N v))"
  shows "\<not> informed N (tu_originator_node w) v" and "tu_originator_node w \<noteq> v"
proof -
  have w: "1 \<le> unat (tu_sequence_number w)" "unat (tu_sequence_number w) < local_seq N (tu_originator_node w)"
    using flightD(3)[OF assms(1,2)] by (simp_all add: news_ok_def)
  show un: "\<not> informed N (tu_originator_node w) v"
    using fresh_iff[OF assms(1-3)] assms(4) w(2) by (fastforce simp: informed_def)
  show "tu_originator_node w \<noteq> v"
    using un flightD(2)[OF assms(1,2)] w assms(1) by (auto simp: mesh_inv_def own_ok_def)
qed

text \<open>A round that leaves sessions and numbers alone.\<close>

lemma quiet_update:
  assumes "mn_connected_neighbors n' = mn_connected_neighbors (N v)"
    and "db_local_sequence (mn_topology_db n') = db_local_sequence (mn_topology_db (N v))"
  shows "local_seq (N(v := n')) = local_seq N" and "neighbors ((N(v := n')) x) = neighbors (N x)"
    and "links ((N(v := n')) x) = links (N x)" and "news_ok (N(v := n')) = news_ok N" and "latest (N(v := n')) = latest N"
proof -
  show seq: "local_seq (N(v := n')) = local_seq N" using assms(2) by (auto simp: local_seq_def)
  show "neighbors ((N(v := n')) x) = neighbors (N x)" using assms(1) by simp
  show ln: "links ((N(v := n')) x) = links (N x)" for x using assms(1) by (auto simp: links_def)
  show "news_ok (N(v := n')) = news_ok N" unfolding news_ok_def seq ln ..
  show "latest (N(v := n')) = latest N" by (simp add: latest_def fun_eq_iff seq)
qed

lemma stale_keeps_inv:
  assumes "mesh_inv V (N, xs @ (v, w) # ys)" and "latest N w \<Longrightarrow> informed N (tu_originator_node w) v"
  shows "mesh_inv V (N, xs @ ys)"
  using assms by (auto simp: mesh_inv_def flights_ok_def ttl_ok_def spread_ok_def) blast+

text \<open>The node \<open>v\<close> has taken the update \<open>w\<close>.\<close>

definition took :: "(node_id \<Rightarrow> mesh_node) \<Rightarrow> node_id \<Rightarrow> topology_update \<Rightarrow> mesh_node \<Rightarrow> bool" where
  "took N v w n' \<longleftrightarrow> settled n' \<and> mn_node_id n' = mn_node_id (N v) \<and> mn_topology_updates n' \<noteq> None
     \<and> mn_connected_neighbors n' = mn_connected_neighbors (N v)
     \<and> db_local_sequence (mn_topology_db n') = db_local_sequence (mn_topology_db (N v))
     \<and> (\<exists>t. \<forall>x a. entry (N(v := n')) x a = (if x = v \<and> a = tu_originator_node w
          then Some \<lparr>nd_node_id = a, nd_sequence_number = tu_sequence_number w, nd_last_updated = t,
            nd_neighbors = links_of t (tu_neighbors w) []\<rparr> else entry N x a))"

lemma took_quiet:
  assumes "took N v w n'"
  shows "local_seq (N(v := n')) = local_seq N" and "\<And>x. neighbors ((N(v := n')) x) = neighbors (N x)"
    and "\<And>x. links ((N(v := n')) x) = links (N x)" and "news_ok (N(v := n')) = news_ok N" and "latest (N(v := n')) = latest N"
  using assms quiet_update[of n' N v] by (auto simp: took_def simp del: fun_upd_apply)

lemma took_informed:
  assumes "took N v w n'"
  shows "informed (N(v := n')) a x \<longleftrightarrow> (if x = v \<and> a = tu_originator_node w then latest N w else informed N a x)"
proof -
  obtain t where "\<forall>x a. entry (N(v := n')) x a = (if x = v \<and> a = tu_originator_node w
      then Some \<lparr>nd_node_id = a, nd_sequence_number = tu_sequence_number w, nd_last_updated = t,
        nd_neighbors = links_of t (tu_neighbors w) []\<rparr> else entry N x a)"
    using assms by (auto simp: took_def)
  then show ?thesis by (auto simp: informed_def latest_def took_quiet(1)[OF assms])
qed

lemma took_keeps:
  assumes "mesh_inv V (N, xs @ (v, w) # ys)" and "took N v w n'" and "\<not> informed N (tu_originator_node w) v"
  shows "mesh_ok V (N(v := n'))" and "entries_ok V (N(v := n'))"
    and "flights_ok V (N(v := n'), xs @ ys @ copies (forwarded w) n')" and "own_ok V (N(v := n'))"
proof -
  note q = took_quiet[OF assms(2)]
  have fl: "(v, w) \<in> set (xs @ (v, w) # ys)" by simp
  note w = flightD[OF assms(1) fl]
  have inv: "mesh_ok V N" "entries_ok V N" "flights_ok V (N, xs @ (v, w) # ys)" "own_ok V N"
    using assms(1) by (simp_all add: mesh_inv_def)
  have n': "settled n'" "mn_node_id n' = v" "mn_topology_updates n' \<noteq> None" "mn_connected_neighbors n' = mn_connected_neighbors (N v)"
    using assms(2) inv(1) w(1) by (simp_all add: took_def mesh_ok_def)
  show "mesh_ok V (N(v := n'))" using inv(1) n' w(1) by (auto simp: mesh_ok_def)
  show "entries_ok V (N(v := n'))"
  proof -
    obtain t where e: "\<forall>x a. entry (N(v := n')) x a = (if x = v \<and> a = tu_originator_node w
        then Some \<lparr>nd_node_id = a, nd_sequence_number = tu_sequence_number w, nd_last_updated = t,
          nd_neighbors = links_of t (tu_neighbors w) []\<rparr> else entry N x a)"
      using assms(2) by (auto simp: took_def)
    show ?thesis unfolding entries_ok_def q(4)
    proof (intro ballI allI impI)
      fix x a j
      assume "x \<in> V" "entry (N(v := n')) x a = Some j"
      then show "a \<in> V \<and> news_ok N a (nd_sequence_number j) (costs (nd_neighbors j))"
        using e inv(2) w(2,3) by (auto simp: entries_ok_def costs_links_of split: if_splits)
    qed
  qed
  have "neighbors n' \<subseteq> V" using n'(4) inv(1) w(1) by (simp add: mesh_ok_def)
  moreover have "advertised (w\<lparr>tu_ttl := t\<rparr>) = advertised w" for t by (simp add: advertised_def)
  ultimately show "flights_ok V (N(v := n'), xs @ ys @ copies (forwarded w) n')"
    using inv(3) w by (auto simp: flights_ok_def q(4) forwarded_def)
  have "informed (N(v := n')) a a" if "informed N a a" for a
    using that assms(3) by (auto simp: took_informed[OF assms(2)])
  then show "own_ok V (N(v := n'))"
    unfolding own_ok_def q(1,2) using inv(4) by (auto simp: own_ok_def)
qed

lemma took_spreads:
  assumes "mesh_inv V (N, xs @ (v, w) # ys)" and "took N v w n'" and "\<not> informed N (tu_originator_node w) v"
    and "finite V" and "card V \<le> 9"
  shows "ttl_ok V (N(v := n'), xs @ ys @ copies (forwarded w) n')"
    and "spread_ok V (N(v := n'), xs @ ys @ copies (forwarded w) n')"
proof -
  let ?o = "tu_originator_node w"
  let ?A = "\<lambda>a. {x \<in> V. informed N a x}" and ?A' = "\<lambda>a. {x \<in> V. informed (N(v := n')) a x}"
  note q = took_quiet[OF assms(2)] and inf = took_informed[OF assms(2)]
  have fl: "(v, w) \<in> set (xs @ (v, w) # ys)" by simp
  have v: "v \<in> V" "?o \<in> V" using flightD[OF assms(1) fl] by simp_all
  have nb: "neighbors n' = neighbors (N v)" "neighbors (N v) \<subseteq> V" using q(2)[of v] assms(1) v(1) by (simp_all add: mesh_inv_def mesh_ok_def)
  have sub: "?A a \<subseteq> ?A' a" for a using assms(3) by (auto simp: inf)
  then have mono: "card (?A a) \<le> card (?A' a)" for a using assms(4) by (intro card_mono) auto
  have grow: "card (?A' ?o) = Suc (card (?A ?o))" if "latest N w"
  proof -
    have "?A' ?o = insert v (?A ?o)" using that v(1) by (auto simp: inf)
    then show ?thesis using assms(3,4) by simp
  qed
  have ttl: "8 < card (?A ?o) + unat (tu_ttl w)" if "latest N w" using assms(1) that by (auto simp: mesh_inv_def ttl_ok_def)
  have latest_fw: "latest N (w\<lparr>tu_ttl := t\<rparr>) = latest N w" for t by (simp add: latest_def)
  have "8 < card (?A' (tu_originator_node y)) + unat (tu_ttl y)" if "(x, y) \<in> set (xs @ ys)" "latest N y" for x y
    using assms(1) that mono[of "tu_originator_node y"] by (force simp: mesh_inv_def ttl_ok_def)
  moreover have "8 < card (?A' ?o) + unat (tu_ttl w - 1)" if "latest N w" "tu_ttl w > 1"
    using ttl[OF that(1)] grow[OF that(1)] that(2) by (simp add: word_less_nat_alt unat_sub word_le_nat_alt)
  ultimately show "ttl_ok V (N(v := n'), xs @ ys @ copies (forwarded w) n')"
    unfolding ttl_ok_def prod.case q(5) by (auto simp: forwarded_def latest_fw)
  have all: "?A' ?o = V" if "latest N w" "\<not> tu_ttl w > 1"
  proof (rule card_subset_eq[OF assms(4)])
    have "unat (tu_ttl w) \<le> 1" using that(2) by (simp add: word_less_nat_alt)
    then show "card (?A' ?o) = card V"
      using ttl[OF that(1)] grow[OF that(1)] assms(5) card_mono[OF assms(4), of "?A' ?o"] by auto
  qed auto
  show "spread_ok V (N(v := n'), xs @ ys @ copies (forwarded w) n')"
    unfolding spread_ok_def prod.case q(2,5)
  proof (intro ballI impI)
    fix a y x
    assume a: "a \<in> V" "y \<in> V" "informed (N(v := n')) a y" "x \<in> neighbors (N y)"
    let ?goal = "informed (N(v := n')) a x \<or>
      (\<exists>w'. (x, w') \<in> set (xs @ ys @ copies (forwarded w) n') \<and> tu_originator_node w' = a \<and> latest N w')"
    show ?goal
    proof (cases "y = v \<and> a = ?o")
      case True
      then have l: "latest N w" using a(3) by (simp add: inf)
      show ?thesis
      proof (cases "tu_ttl w > 1")
        case True
        then show ?thesis using l a(4) nb(1) \<open>y = v \<and> a = ?o\<close> by (auto simp: forwarded_def latest_fw)
      next
        case False
        then show ?thesis using all[OF l] a(4) nb(2) \<open>y = v \<and> a = ?o\<close> by auto
      qed
    next
      case False
      then have "informed N a y" using a(3) by (simp add: inf split: if_splits)
      then have "informed N a x \<or> (\<exists>w'. (x, w') \<in> set (xs @ (v, w) # ys) \<and> tu_originator_node w' = a \<and> latest N w')"
        using assms(1) a by (auto simp: mesh_inv_def spread_ok_def)
      then show ?thesis using assms(3) by (auto simp: inf)
    qed
  qed
qed

text \<open>Every arrival replaces a copy by copies with less time to live.\<close>

definition ttls :: "mesh_state \<Rightarrow> nat multiset" where
  "ttls s = image_mset (unat \<circ> tu_ttl \<circ> snd) (mset (snd s))"

lemma arrival_shortens: "(ttls (N', xs @ ys @ copies (forwarded w) n'), ttls (N, xs @ (v, w) # ys)) \<in> mult less_than"
proof -
  let ?M = "image_mset (unat \<circ> tu_ttl \<circ> snd) (mset (xs @ ys))"
  let ?K = "image_mset (unat \<circ> tu_ttl \<circ> snd) (mset (copies (forwarded w) n'))"
  have "(?M + ?K, ?M + {#unat (tu_ttl w)#}) \<in> mult less_than"
  proof (rule one_step_implies_mult)
    show "\<forall>k\<in>set_mset ?K. \<exists>j\<in>set_mset {#unat (tu_ttl w)#}. (k, j) \<in> less_than"
      by (auto simp: forwarded_def word_less_nat_alt unat_sub word_le_nat_alt)
  qed simp
  then show ?thesis by (simp add: ttls_def ac_simps)
qed

lemma stale_shortens: "(ttls (N', xs @ ys), ttls (N, xs @ (v, w) # ys)) \<in> mult less_than"
  using one_step_implies_mult[of "{#unat (tu_ttl w)#}" "{#}" less_than "image_mset (unat \<circ> tu_ttl \<circ> snd) (mset (xs @ ys))"]
  by (simp add: ttls_def ac_simps)

lemma arrival_round:
  assumes "mesh_inv V (N, xs @ (v, w) # ys)" and "finite V" and "card V \<le> 9" and "unat now \<le> unat (tu_timestamp w) + 300"
  shows "\<exists>us n'. node_round now now' clock (TopologyInput w) (N v) = Some (us, n')
    \<and> mesh_inv V (N(v := n'), xs @ ys @ copies us n') \<and> mn_connected_neighbors n' = mn_connected_neighbors (N v)
    \<and> (ttls (N(v := n'), xs @ ys @ copies us n'), ttls (N, xs @ (v, w) # ys)) \<in> mult less_than"
proof -
  have fl: "(v, w) \<in> set (xs @ (v, w) # ys)" by simp
  have n: "settled (N v)" "mn_node_id (N v) = v" "mn_topology_updates (N v) \<noteq> None"
    using assms(1) flightD(1)[OF assms(1) fl] by (simp_all add: mesh_inv_def mesh_ok_def)
  show ?thesis
  proof (cases "update_fresh now w (mn_topology_db (N v))")
    case False
    then have "node_round now now' clock (TopologyInput w) (N v) = Some ([], N v)"
      using n(1) by (intro round_stale) (simp_all add: settled_def)
    moreover have "mesh_inv V (N, xs @ ys)"
      by (rule stale_keeps_inv[OF assms(1)]) (rule stale_informed[OF assms(1) fl assms(4) False])
    ultimately show ?thesis by (intro exI[of _ "[]"] exI[of _ "N v"]) (simp add: stale_shortens)
  next
    case True
    note un = fresh_uninformed[OF assms(1) fl assms(4) True]
    have "tu_originator_node w \<noteq> mn_node_id (N v)" using un(2) n(2) by simp
    then obtain n' where n': "node_round now now' clock (TopologyInput w) (N v) = Some (forwarded w, n')"
        "mn_connected_neighbors n' = mn_connected_neighbors (N v)" and took: "took N v w n'"
      by (rule round_fresh[OF n(1) _ True n(3), of now' clock]) (auto simp: took_def entry_def)
    have "mesh_inv V (N(v := n'), xs @ ys @ copies (forwarded w) n')"
      using took_keeps[OF assms(1) took un(1)] took_spreads[OF assms(1) took un(1) assms(2,3)] by (simp add: mesh_inv_def)
    with n' arrival_shortens show ?thesis by blast
  qed
qed

lemma arrival_inv:
  assumes "arrival s s'" and "mesh_inv V s" and "finite V" and "card V \<le> 9"
  shows "mesh_inv V s'" and "(ttls s', ttls s) \<in> mult less_than" and "connected_in (fst s') = connected_in (fst s)"
  using assms(1)
proof (atomize(full), cases)
  case (arrival now now' clock u N v us n' xs ys)
  from arrival_round[OF assms(2)[unfolded arrival(1)] assms(3,4) arrival(4), of now' clock] arrival(3)
  have "mesh_inv V s'" "mn_connected_neighbors n' = mn_connected_neighbors (N v)" "(ttls s', ttls s) \<in> mult less_than"
    unfolding arrival(1,2) by auto
  then show "mesh_inv V s' \<and> (ttls s', ttls s) \<in> mult less_than \<and> connected_in (fst s') = connected_in (fst s)"
    by (auto simp: connected_in_def fun_eq_iff arrival(1,2))
qed

section \<open>Changes of sessions\<close>

lemma announcement_fields:
  "tu_originator_node (announcement now' e n) = mn_node_id n"
  "tu_sequence_number (announcement now' e n) = db_local_sequence (mn_topology_db n)"
  "tu_ttl (announcement now' e n) = 8"
  "advertised (announcement now' e n) = (\<lambda>x. if x \<in> set (hm_keys (sessions_after e (mn_connected_neighbors n))) then Some 100 else None)"
proof -
  show "advertised (announcement now' e n) = (\<lambda>x. if x \<in> set (hm_keys (sessions_after e (mn_connected_neighbors n))) then Some 100 else None)"
    using costs_neighbors_of[where m = "[]"]
    by (auto simp: advertised_def announcement_def topology_update_new_def fun_eq_iff costs_def)
qed (simp_all add: announcement_def topology_update_new_def DEFAULT_TOPOLOGY_TTL_def)

text \<open>What is retold of the others: the entries of the database.\<close>

lemma retold:
  assumes "settled n"
  shows "w \<in> set (get_all_topology_updates clock (mn_topology_db n)) \<Longrightarrow> tu_originator_node w \<noteq> mn_node_id n \<and> tu_ttl w = 7
      \<and> (\<exists>j. hm_get (db_nodes (mn_topology_db n)) (tu_originator_node w) = Some j \<and> tu_sequence_number w = nd_sequence_number j
        \<and> advertised w = costs (nd_neighbors j))"
    and "hm_get (db_nodes (mn_topology_db n)) a = Some j \<Longrightarrow> a \<noteq> mn_node_id n \<Longrightarrow>
      \<exists>w\<in>set (get_all_topology_updates clock (mn_topology_db n)). tu_originator_node w = a \<and> tu_sequence_number w = nd_sequence_number j"
proof -
  have wf: "hm_wf (db_nodes (mn_topology_db n))" "\<And>a j. (a, j) \<in> set (db_nodes (mn_topology_db n)) \<Longrightarrow> hm_wf (nd_neighbors j)"
      "db_local_node_id (mn_topology_db n) = mn_node_id n"
    using assms by (auto simp: settled_def node_ok_def db_ok_def db_wf_def)
  have adv: "costs (links_of 0 (map (\<lambda>(k, l). neighbor_info_new k (li_cost l) (li_addr l)) m) []) = costs m"
    if "hm_wf m" for m :: "(node_id, link_info) hmap"
    using costs_retold[OF that, of 0 "[]"] by (auto simp: fun_eq_iff costs_def hm_get_None_iff)
  { assume "w \<in> set (get_all_topology_updates clock (mn_topology_db n))"
    then obtain a j where a: "(a, j) \<in> set (db_nodes (mn_topology_db n))" "a \<noteq> mn_node_id n"
        "w = topology_update_new (clock a) a (nd_sequence_number j)
           (map (\<lambda>(k, l). neighbor_info_new k (li_cost l) (li_addr l)) (nd_neighbors j)) 7"
      by (auto simp: get_all_topology_updates_def wf(3) DEFAULT_TOPOLOGY_TTL_def)
    then show "tu_originator_node w \<noteq> mn_node_id n \<and> tu_ttl w = 7
      \<and> (\<exists>j. hm_get (db_nodes (mn_topology_db n)) (tu_originator_node w) = Some j \<and> tu_sequence_number w = nd_sequence_number j
        \<and> advertised w = costs (nd_neighbors j))"
      using hm_get_mem[OF wf(1) a(1)] adv[OF wf(2)[OF a(1)]] by (simp add: topology_update_new_def advertised_def) }
  assume "hm_get (db_nodes (mn_topology_db n)) a = Some j" "a \<noteq> mn_node_id n"
  then show "\<exists>w\<in>set (get_all_topology_updates clock (mn_topology_db n)). tu_originator_node w = a \<and> tu_sequence_number w = nd_sequence_number j"
    by (force simp: get_all_topology_updates_def wf(3) topology_update_new_def dest: hm_get_Some_mem)
qed

text \<open>The node \<open>a\<close> has gone through the event \<open>e\<close>.\<close>

definition changed :: "(node_id \<Rightarrow> mesh_node) \<Rightarrow> node_id \<Rightarrow> session_event \<Rightarrow> mesh_node \<Rightarrow> bool" where
  "changed N a e n' \<longleftrightarrow> settled n' \<and> mn_node_id n' = a \<and> mn_topology_updates n' \<noteq> None
     \<and> mn_connected_neighbors n' = sessions_after e (mn_connected_neighbors (N a))
     \<and> (\<forall>b. local_seq (N(a := n')) b = (if b = a then Suc (local_seq N a) else local_seq N b))
     \<and> (\<exists>t. \<forall>x b. entry (N(a := n')) x b = (if x = a \<and> b = a
          then Some \<lparr>nd_node_id = a, nd_sequence_number = db_local_sequence (mn_topology_db (N a)), nd_last_updated = t,
            nd_neighbors = links_of t (neighbors_of (mn_connected_neighbors n')) []\<rparr> else entry N x b))"

lemma changed_facts:
  assumes "mesh_inv V (N, fl)" and "changed N a e n'" and "a \<in> V"
  shows "b \<noteq> a \<Longrightarrow> news_ok (N(a := n')) b = news_ok N b"
    and "news_ok N a s c \<Longrightarrow> news_ok (N(a := n')) a s c \<and> Suc (unat s) \<noteq> local_seq (N(a := n')) a"
    and "tu_originator_node w \<noteq> a \<Longrightarrow> latest (N(a := n')) w \<longleftrightarrow> latest N w"
    and "x \<in> V \<Longrightarrow> informed (N(a := n')) b x \<longleftrightarrow> (if b = a then x = a else informed N b x)"
    and "news_ok (N(a := n')) a (db_local_sequence (mn_topology_db (N a))) (links n')"
proof -
  have seq: "local_seq (N(a := n')) b = (if b = a then Suc (local_seq N a) else local_seq N b)" for b
    using assms(2) by (simp add: changed_def)
  obtain t where e: "entry (N(a := n')) x b = (if x = a \<and> b = a
      then Some \<lparr>nd_node_id = a, nd_sequence_number = db_local_sequence (mn_topology_db (N a)), nd_last_updated = t,
        nd_neighbors = links_of t (neighbors_of (mn_connected_neighbors n')) []\<rparr> else entry N x b)" for x b
    using assms(2) unfolding changed_def by metis
  show "b \<noteq> a \<Longrightarrow> news_ok (N(a := n')) b = news_ok N b" by (simp add: news_ok_def fun_eq_iff seq)
  show old: "news_ok N a s c \<Longrightarrow> news_ok (N(a := n')) a s c \<and> Suc (unat s) \<noteq> local_seq (N(a := n')) a" for s c
    by (auto simp: news_ok_def seq)
  show "tu_originator_node w \<noteq> a \<Longrightarrow> latest (N(a := n')) w \<longleftrightarrow> latest N w" by (simp add: latest_def seq)
  have "1 \<le> local_seq N a"
    using assms(1,3) by (auto simp: mesh_inv_def own_ok_def informed_def)
  then show "news_ok (N(a := n')) a (db_local_sequence (mn_topology_db (N a))) (links n')"
    by (simp add: news_ok_def seq) (simp add: local_seq_def)
  show "x \<in> V \<Longrightarrow> informed (N(a := n')) b x \<longleftrightarrow> (if b = a then x = a else informed N b x)"
  proof (cases "b = a")
    case True
    assume "x \<in> V"
    have "Suc (unat (nd_sequence_number j)) \<noteq> Suc (local_seq N a)" if "entry N x a = Some j" for j
      using entryD(2)[OF assms(1) \<open>x \<in> V\<close>, of a j] that by (simp add: news_ok_def)
    then show ?thesis using True by (auto simp: informed_def e seq) (simp add: local_seq_def)
  qed (simp add: informed_def e seq)
qed

lemma set_hm_keys_remove: "set (hm_keys (hm_remove b m)) \<subseteq> set (hm_keys m)"
  by (auto simp: hm_keys_def hm_remove_def)

lemma sessions_after_keys:
  assumes "session_change V a e" and "set (hm_keys c) \<subseteq> V"
  shows "set (hm_keys (sessions_after e c)) \<subseteq> V"
    and "(\<forall>peer b. e \<noteq> Connected peer b) \<Longrightarrow> set (hm_keys (sessions_after e c)) \<subseteq> set (hm_keys c)"
  using assms set_hm_keys_remove[of _ c]
  by (fastforce simp: session_change_def sessions_after_def split: session_event.splits option.splits)+

lemma changed_keeps:
  assumes "mesh_inv V (N, fl)" and "changed N a e n'" and "a \<in> V" and "session_change V a e"
    and "Suc (local_seq N a) < 2 ^ 63"
  shows "mesh_ok V (N(a := n'))" and "entries_ok V (N(a := n'))" and "own_ok V (N(a := n'))"
proof -
  note f = changed_facts[OF assms(1-3)]
  have inv: "mesh_ok V N" "entries_ok V N" "own_ok V N" using assms(1) by (simp_all add: mesh_inv_def)
  have n': "settled n'" "mn_node_id n' = a" "mn_topology_updates n' \<noteq> None" "neighbors n' \<subseteq> V"
    using assms(2,3) inv(1) sessions_after_keys(1)[OF assms(4), of "mn_connected_neighbors (N a)"]
    by (simp_all add: changed_def mesh_ok_def)
  show "mesh_ok V (N(a := n'))" using inv(1) n' by (auto simp: mesh_ok_def)
  obtain t where e: "entry (N(a := n')) x b = (if x = a \<and> b = a
      then Some \<lparr>nd_node_id = a, nd_sequence_number = db_local_sequence (mn_topology_db (N a)), nd_last_updated = t,
        nd_neighbors = links_of t (neighbors_of (mn_connected_neighbors n')) []\<rparr> else entry N x b)" for x b
    using assms(2) unfolding changed_def by metis
  have own: "costs (links_of t (neighbors_of (mn_connected_neighbors n')) []) = links n'"
    by (auto simp: costs_neighbors_of links_def fun_eq_iff)
  show "entries_ok V (N(a := n'))"
    unfolding entries_ok_def
  proof (intro ballI allI impI)
    fix x b j
    assume x: "x \<in> V" "entry (N(a := n')) x b = Some j"
    show "b \<in> V \<and> news_ok (N(a := n')) b (nd_sequence_number j) (costs (nd_neighbors j))"
    proof (cases "x = a \<and> b = a")
      case True
      then show ?thesis using x f(5) assms(3) by (auto simp: e own)
    next
      case False
      then have j: "b \<in> V" "news_ok N b (nd_sequence_number j) (costs (nd_neighbors j))"
        using x inv(2) by (auto simp: e entries_ok_def)
      then show ?thesis using f(1)[of b] f(2) by (cases "b = a") simp_all
    qed
  qed
  have "local_seq (N(a := n')) b = (if b = a then Suc (local_seq N a) else local_seq N b)" for b
    using assms(2) by (simp add: changed_def)
  then show "own_ok V (N(a := n'))"
    using inv(3) assms(5) by (auto simp: own_ok_def f(4))
qed

text \<open>The copies of a change: the announcement of \<open>a\<close>, and news of others as \<open>a\<close> has them.\<close>

lemma announced_cases [consumes 3]:
  assumes "mesh_inv V (N, fl)" and "a \<in> V" and "w \<in> set (announced now' clock e (N a))"
  obtains (own) "w = announcement now' e (N a)"
  | (retold) j where "tu_originator_node w \<noteq> a" and "tu_ttl w = 7" and "entry N a (tu_originator_node w) = Some j"
    and "tu_sequence_number w = nd_sequence_number j" and "advertised w = costs (nd_neighbors j)"
proof -
  have n: "settled (N a)" "mn_node_id (N a) = a" using assms(1,2) by (simp_all add: mesh_inv_def mesh_ok_def)
  from assms(3) consider "w = announcement now' e (N a)" | "w \<in> set (get_all_topology_updates clock (mn_topology_db (N a)))"
    by (auto simp: announced_def split: session_event.splits)
  then show thesis
  proof cases
    case 2
    from Convergence.retold(1)[OF n(1) this] n(2) that(2) show thesis by (auto simp: entry_def)
  qed (rule that(1))
qed

lemma changed_spreads:
  assumes "mesh_inv V (N, fl)" and "changed N a e n'" and "a \<in> V" and "session_change V a e" and "finite V"
    and us: "us = announced now' clock e (N a)"
  shows "flights_ok V (N(a := n'), fl @ copies us n')" and "ttl_ok V (N(a := n'), fl @ copies us n')"
    and "spread_ok V (N(a := n'), fl @ copies us n')"
proof -
  note f = changed_facts[OF assms(1-3)]
  let ?u = "announcement now' e (N a)"
  have inv: "mesh_ok V N" "own_ok V N" "flights_ok V (N, fl)" "ttl_ok V (N, fl)" "spread_ok V (N, fl)"
    using assms(1) by (simp_all add: mesh_inv_def)
  have n: "settled (N a)" "mn_node_id (N a) = a" "neighbors (N a) \<subseteq> V" using inv(1) assms(3) by (simp_all add: mesh_ok_def)
  have c: "mn_connected_neighbors n' = sessions_after e (mn_connected_neighbors (N a))" using assms(2) by (simp add: changed_def)
  have nb: "neighbors n' \<subseteq> V" using sessions_after_keys(1)[OF assms(4) n(3)] by (simp add: c)
  have u: "tu_originator_node ?u = a" "tu_sequence_number ?u = db_local_sequence (mn_topology_db (N a))" "tu_ttl ?u = 8"
      "advertised ?u = links n'"
    by (auto simp: announcement_fields n(2) links_def c fun_eq_iff)
  have news: "tu_originator_node w \<in> V \<and> news_ok (N(a := n')) (tu_originator_node w) (tu_sequence_number w) (advertised w)"
    if "w \<in> set us" for w
    using assms(1,3) that[unfolded us]
  proof (cases rule: announced_cases)
    case (retold j)
    then show ?thesis using f(1)[of "tu_originator_node w"] entryD[OF assms(1,3), of "tu_originator_node w" j] by simp
  qed (use f(5) assms(3) u in simp)
  have "x \<in> V \<and> tu_originator_node w \<in> V \<and> news_ok (N(a := n')) (tu_originator_node w) (tu_sequence_number w) (advertised w)"
    if "(x, w) \<in> set fl" for x w
    using flightD[OF assms(1) that] f(1)[of "tu_originator_node w"] f(2) by (cases "tu_originator_node w = a") auto
  with news nb show "flights_ok V (N(a := n'), fl @ copies us n')" by (auto simp: flights_ok_def)
  have card: "card {x \<in> V. informed (N(a := n')) b x} = (if b = a then 1 else card {x \<in> V. informed N b x})" for b
  proof -
    have "{x \<in> V. informed (N(a := n')) a x} = {a}" using f(4) assms(3) by auto
    moreover have "{x \<in> V. informed (N(a := n')) b x} = {x \<in> V. informed N b x}" if "b \<noteq> a" using f(4) that by auto
    ultimately show ?thesis by simp
  qed
  have "8 < card {x \<in> V. informed (N(a := n')) (tu_originator_node w) x} + unat (tu_ttl w)"
    if "(x, w) \<in> set fl" "latest (N(a := n')) w" for x w
  proof (cases "tu_originator_node w = a")
    case True
    then show ?thesis using f(2)[of "tu_sequence_number w" "advertised w"] flightD(3)[OF assms(1) that(1)] that(2) by (simp add: latest_def)
  next
    case False
    then show ?thesis using inv(4) that f(3) unfolding card by (auto simp: ttl_ok_def)
  qed
  moreover have "8 < card {x \<in> V. informed (N(a := n')) (tu_originator_node w) x} + unat (tu_ttl w)"
    if "w \<in> set us" "latest (N(a := n')) w" for w
    using assms(1,3) that(1)[unfolded us]
  proof (cases rule: announced_cases)
    case (retold j)
    let ?o = "tu_originator_node w"
    have "latest N w" using that(2) f(3)[OF retold(1)] by simp
    then have "?o \<in> V" "informed N ?o a" "1 < local_seq N ?o"
      using retold entryD[OF assms(1,3), of ?o j] by (auto simp: informed_def latest_def news_ok_def)
    moreover from this have "informed N ?o ?o" using inv(2) by (auto simp: own_ok_def)
    ultimately have "{?o, a} \<subseteq> {x \<in> V. informed N ?o x}" using assms(3) by simp
    from card_mono[OF _ this] assms(5) have "2 \<le> card {x \<in> V. informed N ?o x}" using retold(1) by simp
    then show ?thesis using retold(1,2) unfolding card by simp
  qed (use u card[of a] in simp)
  ultimately show "ttl_ok V (N(a := n'), fl @ copies us n')" by (auto simp: ttl_ok_def)
  have latest_u: "latest (N(a := n')) ?u"
    using assms(2) u(1,2) by (simp add: latest_def changed_def) (simp add: local_seq_def)
  have told: "\<exists>w\<in>set us. tu_originator_node w = b \<and> latest N w"
    if "informed N b a" "b \<noteq> a" "x \<in> neighbors n'" "x \<notin> neighbors (N a)" for b x
  proof -
    have "\<exists>peer c. e = Connected peer c"
      using sessions_after_keys(2)[OF assms(4) n(3)] that(3,4) by (auto simp: c)
    then have "set (get_all_topology_updates clock (mn_topology_db (N a))) \<subseteq> set us" by (auto simp: us announced_def)
    moreover from that(1) obtain j where j: "entry N a b = Some j" "Suc (unat (nd_sequence_number j)) = local_seq N b"
      by (auto simp: informed_def)
    ultimately show ?thesis using retold(2)[OF n(1), of b j clock] that(2) n(2) by (auto simp: entry_def latest_def)
  qed
  show "spread_ok V (N(a := n'), fl @ copies us n')"
    unfolding spread_ok_def prod.case
  proof (intro ballI impI)
    fix b y x
    assume b: "b \<in> V" "y \<in> V" "informed (N(a := n')) b y" "x \<in> neighbors ((N(a := n')) y)"
    show "informed (N(a := n')) b x \<or>
      (\<exists>w. (x, w) \<in> set (fl @ copies us n') \<and> tu_originator_node w = b \<and> latest (N(a := n')) w)"
    proof (cases "b = a")
      case True
      then have "y = a" using b by (simp add: f(4))
      then show ?thesis using True b(4) u(1) latest_u by (auto simp: us announced_def)
    next
      case False
      have y: "informed N b y" using b(2,3) False by (simp add: f(4))
      have old: ?thesis if "x \<in> neighbors (N y)"
      proof -
        have "x \<in> V" using that inv(1) b(2) by (auto simp: mesh_ok_def)
        with inv(5) b(1,2) y that False f(3) show ?thesis by (fastforce simp: spread_ok_def f(4))
      qed
      show ?thesis
      proof (cases "y = a \<and> x \<notin> neighbors (N a)")
        case True
        with told[of b x] y b(4) False obtain w where "w \<in> set us" "tu_originator_node w = b" "latest N w" by auto
        with True b(4) False f(3) show ?thesis by auto
      qed (use old b(4) in \<open>auto split: if_splits\<close>)
    qed
  qed
qed

lemma session_inv:
  assumes "mesh_inv V (N, fl)" and "a \<in> V" and "session_change V a e"
    and "unat (db_local_sequence (mn_topology_db (N a))) + 1 < 2 ^ 63" and "finite V"
  shows "\<exists>us n'. node_round now now' clock (SessionInput e) (N a) = Some (us, n')
    \<and> mesh_inv V (N(a := n'), fl @ copies us n') \<and> mn_connected_neighbors n' = sessions_after e (mn_connected_neighbors (N a))"
proof -
  have n: "settled (N a)" "mn_node_id (N a) = a" "mn_topology_updates (N a) \<noteq> None"
    using assms(1,2) by (simp_all add: mesh_inv_def mesh_ok_def)
  obtain n' where n': "node_round now now' clock (SessionInput e) (N a) = Some (announced now' clock e (N a), n')"
    and c: "mn_connected_neighbors n' = sessions_after e (mn_connected_neighbors (N a))" and ch: "changed N a e n'"
  proof (rule session_round[OF n(1,3) assms(3), of now now' clock])
    fix n'
    assume r: "node_round now now' clock (SessionInput e) (N a) = Some (announced now' clock e (N a), n')"
      "settled n'" "mn_node_id n' = mn_node_id (N a)" "mn_topology_updates n' \<noteq> None"
      "mn_connected_neighbors n' = sessions_after e (mn_connected_neighbors (N a))"
      "db_local_sequence (mn_topology_db n') = db_local_sequence (mn_topology_db (N a)) + 1"
      "\<And>b. hm_get (db_nodes (mn_topology_db n')) b = (if b = mn_node_id (N a)
        then Some \<lparr>nd_node_id = b, nd_sequence_number = db_local_sequence (mn_topology_db (N a)), nd_last_updated = now,
          nd_neighbors = links_of now (tu_neighbors (announcement now' e (N a))) []\<rparr>
        else hm_get (db_nodes (mn_topology_db (N a))) b)"
    have "tu_neighbors (announcement now' e (N a)) = neighbors_of (mn_connected_neighbors n')"
      by (simp add: announcement_def topology_update_new_def r(5))
    moreover have "unat (db_local_sequence (mn_topology_db (N a)) + 1) = Suc (unat (db_local_sequence (mn_topology_db (N a))))"
      using assms(4) by (simp add: unat_word_ariths)
    ultimately have "changed N a e n'"
      using r n(2) by (auto simp: changed_def local_seq_def entry_def)
    with r(1,5) show thesis by (rule that)
  qed
  have seq: "Suc (local_seq N a) < 2 ^ 63" using assms(4) by (simp add: local_seq_def)
  have "mesh_inv V (N(a := n'), fl @ copies (announced now' clock e (N a)) n')"
    using changed_keeps[OF assms(1) ch assms(2,3) seq] changed_spreads[OF assms(1) ch assms(2,3,5) refl] by (simp add: mesh_inv_def)
  with n' c show ?thesis by blast
qed

lemma mesh_step_inv:
  assumes "mesh_step V s s'" and "mesh_inv V s" and "finite V" and "card V \<le> 9"
  shows "mesh_inv V s'"
  using assms(1)
proof cases
  case mesh_arrival
  then show ?thesis by (rule arrival_inv(1)[OF _ assms(2-4)])
next
  case (mesh_session a e N now now' clock us n' fl)
  from session_inv[OF assms(2)[unfolded mesh_session(1)] mesh_session(3-5) assms(3), of now now' clock] mesh_session(2,6)
  show ?thesis by auto
qed

lemma mesh_reachable_inv:
  assumes "(mesh_step V)\<^sup>*\<^sup>* mesh_start s" and "finite V" and "card V \<le> 9"
  shows "mesh_inv V s"
  using assms(1)
proof (induction rule: rtranclp_induct)
  case (step s s')
  then show ?case using mesh_step_inv[OF _ _ assms(2,3)] by blast
qed (rule mesh_inv_start)

section \<open>Agreement\<close>

lemma wf_ttls: "wf (mult less_than)"
  by (rule wf_mult) simp

lemma flood_ends:
  assumes "mesh_inv V s" and "finite V" and "card V \<le> 9"
  shows "\<exists>N. arrival\<^sup>*\<^sup>* s (N, [])"
  using assms(1)
proof (induction "ttls s" arbitrary: s rule: wf_induct_rule[OF wf_ttls])
  case 1
  obtain N fl where s: "s = (N, fl)" by (cases s)
  show ?case
  proof (cases fl)
    case (Cons c ys)
    obtain v w where c: "c = (v, w)" by (cases c)
    have "mesh_inv V (N, [] @ (v, w) # ys)" using 1(2) by (simp add: s Cons c)
    from arrival_round[OF this assms(2,3), of "tu_timestamp w" 0 "\<lambda>_. 0"] obtain us n' where
      r: "node_round (tu_timestamp w) 0 (\<lambda>_. 0) (TopologyInput w) (N v) = Some (us, n')" by auto
    have step: "arrival s (N(v := n'), [] @ ys @ copies us n')"
      unfolding s Cons c using arrival.arrival[where N = N and v = v and xs = "[]" and ys = ys, OF r] by simp
    from 1(1)[OF arrival_inv(2,1)[OF step 1(2) assms(2,3)]] step show ?thesis
      by (auto intro: converse_rtranclp_into_rtranclp)
  qed (auto simp: s)
qed

lemma flood_terminates:
  assumes "mesh_inv V (f 0)" and "finite V" and "card V \<le> 9"
  shows "\<not> (\<forall>k. arrival (f k) (f (Suc k)))"
proof
  assume steps: "\<forall>k. arrival (f k) (f (Suc k))"
  have inv: "mesh_inv V (f k)" for k
    by (induction k) (use assms(1) arrival_inv(1)[OF steps[rule_format] _ assms(2,3)] in auto)
  have "\<forall>k. (ttls (f (Suc k)), ttls (f k)) \<in> mult less_than"
    using arrival_inv(2)[OF steps[rule_format] inv assms(2,3)] by blast
  then have "\<exists>g. \<forall>k. (g (Suc k), g k) \<in> mult (less_than :: nat rel)" by (rule exI[of _ "\<lambda>k. ttls (f k)"])
  with wf_ttls show False by (simp add: wf_iff_no_infinite_down_chain)
qed

lemma quiet_informed:
  assumes "mesh_inv V (N, [])" and "a \<in> V" and "informed N a a" and "(connected_in N)\<^sup>*\<^sup>* a v"
  shows "v \<in> V \<and> informed N a v"
  using assms(4)
proof (induction rule: rtranclp_induct)
  case (step x y)
  then have y: "y \<in> neighbors (N x)" and x: "x \<in> V" "informed N a x" by (simp_all add: connected_in_iff)
  have "neighbors (N x) \<subseteq> V" using assms(1) x(1) by (simp add: mesh_inv_def mesh_ok_def)
  moreover have "\<forall>a\<in>V. \<forall>v\<in>V. informed N a v \<longrightarrow> (\<forall>x\<in>neighbors (N v). informed N a x)"
    using assms(1) unfolding mesh_inv_def spread_ok_def prod.case list.set by blast
  ultimately show ?case using x y assms(2) by blast
qed (use assms(2,3) in simp)

lemma informed_links:
  assumes "mesh_inv V (N, fl)" and "v \<in> V" and "informed N a v"
  shows "\<exists>j. entry N v a = Some j \<and> costs (nd_neighbors j) = links (N a)"
proof -
  obtain j where j: "entry N v a = Some j" "Suc (unat (nd_sequence_number j)) = local_seq N a"
    using assms(3) by (auto simp: informed_def)
  with entryD(2)[OF assms(1,2), of a j] show ?thesis by (auto simp: news_ok_def)
qed

lemma has_neighbors_informed: "mesh_inv V (N, fl) \<Longrightarrow> a \<in> V \<Longrightarrow> neighbors (N a) \<noteq> {} \<Longrightarrow> informed N a a"
  by (auto simp: mesh_inv_def own_ok_def)

text \<open>A mesh in which every node reaches every other, over one or more connections.\<close>

definition strongly_connected :: "node_id set \<Rightarrow> (node_id \<Rightarrow> mesh_node) \<Rightarrow> bool" where
  "strongly_connected V N \<longleftrightarrow> (\<forall>x\<in>V. \<forall>y\<in>V. (connected_in N)\<^sup>+\<^sup>+ x y)"

lemma strongly_connected_informed:
  assumes "mesh_inv V (N, [])" and "strongly_connected V N" and "a \<in> V" and "v \<in> V"
  shows "informed N a v"
proof -
  have c: "(connected_in N)\<^sup>+\<^sup>+ a v" using assms(2-4) by (simp add: strongly_connected_def)
  then obtain y where "connected_in N a y" by (meson tranclpD)
  then have "neighbors (N a) \<noteq> {}" by (auto simp: connected_in_iff)
  from quiet_informed[OF assms(1,3) has_neighbors_informed[OF assms(1,3) this]] c show ?thesis by (auto simp: tranclp_into_rtranclp)
qed

lemma mesh_edges:
  assumes "mesh_inv V (N, [])" and "strongly_connected V N" and "v \<in> V"
  shows "edge (db_nodes (mn_topology_db (N v))) u x w \<longleftrightarrow> u \<in> V \<and> connected_in N u x \<and> w = 100"
proof -
  have wf: "hm_wf (nd_neighbors j)" if "entry N v u = Some j" for j
    using assms(1,3) hm_get_Some_mem[OF that[unfolded entry_def]]
    by (auto simp: mesh_inv_def mesh_ok_def settled_def node_ok_def db_ok_def db_wf_def)
  show ?thesis
  proof (cases "u \<in> V")
    case True
    from informed_links[OF assms(1,3) strongly_connected_informed[OF assms(1,2) True assms(3)]] obtain j where
      j: "entry N v u = Some j" "costs (nd_neighbors j) = links (N u)" by auto
    have "(\<exists>l. (x, l) \<in> set (nd_neighbors j) \<and> w = unat (li_cost l)) \<longleftrightarrow> (\<exists>l. hm_get (nd_neighbors j) x = Some l \<and> w = unat (li_cost l))"
      using hm_get_mem[OF wf[OF j(1)]] by (auto dest: hm_get_Some_mem)
    also have "\<dots> \<longleftrightarrow> (\<exists>c. costs (nd_neighbors j) x = Some c \<and> w = unat c)" by (auto simp: costs_def)
    finally show ?thesis using True j by (auto simp: edge_def entry_def links_def connected_in_iff)
  next
    case False
    then have "entry N v u = None" using entryD(1)[OF assms(1,3), of u] by (cases "entry N v u") auto
    then show ?thesis using False by (simp add: edge_def entry_def)
  qed
qed

lemma mesh_agrees:
  assumes "mesh_inv V (N, [])" and "strongly_connected V N" and "v \<in> V"
  shows "converged V (db_nodes (mn_topology_db (N v))) (\<lambda>v. mn_topology_db (N v))"
    and "positive_costs (db_nodes (mn_topology_db (N v)))"
proof -
  have "same_links (db_nodes (mn_topology_db (N x))) (db_nodes (mn_topology_db (N v)))" if "x \<in> V" for x
    unfolding same_links_def mesh_edges[OF assms(1,2) that] mesh_edges[OF assms] by simp
  moreover have "db_local_node_id (mn_topology_db (N x)) = x \<and> routes_ok (mn_topology_db (N x)) \<and> neighbors (N x) \<subseteq> V" if "x \<in> V" for x
    using assms(1) that by (auto simp: mesh_inv_def mesh_ok_def settled_def node_ok_def db_ok_def)
  ultimately show "converged V (db_nodes (mn_topology_db (N v))) (\<lambda>v. mn_topology_db (N v))"
    unfolding converged_def mesh_edges[OF assms] by (auto simp: connected_in_iff)
  show "positive_costs (db_nodes (mn_topology_db (N v)))"
    unfolding positive_costs_def mesh_edges[OF assms] by simp
qed

text \<open>Every node has a route to every other: a path of connections costs a hundred for each.\<close>

lemma connections_walk:
  assumes "mesh_inv V (N, [])" and "strongly_connected V N" and "v \<in> V"
    and "(x, y) \<in> {(x, y). x \<in> V \<and> y \<in> V \<and> connected_in N x y} ^^ k"
  shows "walk (db_nodes (mn_topology_db (N v))) x (100 * k) k y"
  using assms(4)
proof (induction k arbitrary: y)
  case (Suc k)
  then obtain z where z: "(x, z) \<in> {(x, y). x \<in> V \<and> y \<in> V \<and> connected_in N x y} ^^ k" "z \<in> V" "connected_in N z y" by auto
  have "walk (db_nodes (mn_topology_db (N v))) x (100 * k + 100) (Suc k) y"
    by (rule walk_snoc[OF Suc.IH[OF z(1)]]) (use z mesh_edges[OF assms(1-3)] in auto)
  then show ?case by (simp add: ac_simps)
qed (auto intro: walk_refl)

lemma mesh_walk:
  assumes "mesh_inv V (N, [])" and "strongly_connected V N" and "v \<in> V" and "x \<in> V" and "y \<in> V"
    and "finite V" and "card V \<le> 9"
  shows "\<exists>c k. walk (db_nodes (mn_topology_db (N v))) x c k y \<and> c \<le> 8100"
proof -
  let ?R = "{(x, y). x \<in> V \<and> y \<in> V \<and> connected_in N x y}"
  have sub: "?R \<subseteq> V \<times> V" by auto
  have fin: "finite ?R" using finite_subset[OF sub] assms(6) by simp
  have "card ?R \<le> card V * card V" using card_mono[OF _ sub] assms(6) by (simp add: card_cartesian_product)
  also have "\<dots> \<le> 9 * 9" using assms(7) by (intro mult_le_mono)
  finally have card: "card ?R \<le> 81" by simp
  have "(connected_in N)\<^sup>+\<^sup>+ x y" using assms(2,4,5) by (simp add: strongly_connected_def)
  then have "(x, y) \<in> ?R\<^sup>+ \<and> y \<in> V"
  proof (induction rule: tranclp_induct)
    case (base y)
    with assms(1,4) show ?case by (auto simp: connected_in_iff mesh_inv_def mesh_ok_def intro!: r_into_trancl)
  next
    case (step y z)
    then have "(y, z) \<in> ?R" using assms(1) by (auto simp: connected_in_iff mesh_inv_def mesh_ok_def)
    with step show ?case by (auto intro: trancl_into_trancl)
  qed
  then obtain k where "(x, y) \<in> ?R ^^ k" "k \<le> card ?R" using trancl_finite_eq_relpow[OF fin] by auto
  from connections_walk[OF assms(1-3) this(1)] this(2) card show ?thesis by force
qed

text \<open>The manager of a node: it has the routing table of the node, and a session with an open channel of its own for each connection.\<close>

definition manager_of :: "mesh_node \<Rightarrow> session_manager \<Rightarrow> bool" where
  "manager_of n m \<longleftrightarrow> sm_local_node_id m = mn_node_id n \<and> sm_routing_table m = mn_routing_table n \<and> sm_delivery m \<noteq> None
     \<and> hm_wf (sm_sessions m) \<and> distinct (map (si_message_tx \<circ> snd) (sm_sessions m))
     \<and> (\<forall>x\<in>neighbors n. case hm_get (sm_sessions m) x of
           Some info \<Rightarrow> hm_contains (sm_channels m) (si_message_tx info) | None \<Rightarrow> False)"

lemma mesh_agreed_ready:
  assumes "mesh_inv V (N, [])" and "strongly_connected V N" and "v \<in> V" and "\<forall>x\<in>V. manager_of (N x) (M x)"
  shows "mesh_ready V (db_nodes (mn_topology_db (N v))) (\<lambda>v. mn_topology_db (N v)) M"
proof -
  have "node_ready (db_nodes (mn_topology_db (N v))) (mn_topology_db (N x)) x (M x)" if "x \<in> V" for x
  proof -
    have "settled (N x)" "mn_node_id (N x) = x" "manager_of (N x) (M x)"
      using assms(1,4) that by (auto simp: mesh_inv_def mesh_ok_def)
    then show ?thesis
      by (auto simp: node_ready_def manager_of_def settled_def node_ok_def follows_def mesh_edges[OF assms(1-3)] connected_in_iff)
  qed
  with mesh_agrees[OF assms(1-3)] show ?thesis by (simp add: mesh_ready_def)
qed

lemma mesh_routes:
  assumes "mesh_inv V (N, [])" and "strongly_connected V N" and "finite V" and "card V \<le> 9"
    and "s \<in> V" and "dst \<in> V" and "s \<noteq> dst"
  obtains r where "get_route (mn_topology_db (N s)) dst = Some r" and "connected_in N s (cr_next_hop r)"
    and "table_get_route (mn_routing_table (N s)) dst = Some (single (next_hop_new (cr_next_hop r) (cr_total_cost r)))"
proof -
  note conv = mesh_agrees(1)[OF assms(1,2,5)]
  have "\<exists>c k. walk (db_nodes (mn_topology_db (N s))) s c k dst \<and> c < 2 ^ 32 - 1"
    using mesh_walk[OF assms(1,2,5,5,6,3,4)] by fastforce
  then obtain r where r: "get_route (mn_topology_db (N s)) dst = Some r"
    using converged_routes(2)[OF conv assms(5), of dst] assms(7) by auto
  then have "route_ok (db_nodes (mn_topology_db (N s))) s dst r" using converged_routes(1)[OF conv assms(5)] by blast
  then have "connected_in N s (cr_next_hop r)" by (auto simp: route_ok_def mesh_edges[OF assms(1,2,5)])
  moreover have "follows (N s)" "mn_node_id (N s) = s" using assms(1,5) by (auto simp: mesh_inv_def mesh_ok_def settled_def)
  ultimately show thesis using that[OF r] r assms(7) by (simp add: follows_def)
qed

section \<open>Two nodes\<close>

lemma arrivals_reach:
  assumes "arrival\<^sup>*\<^sup>* s s'" and "mesh_inv V s" and "finite V" and "card V \<le> 9"
  shows "(mesh_step V)\<^sup>*\<^sup>* s s' \<and> mesh_inv V s' \<and> connected_in (fst s') = connected_in (fst s)"
  using assms(1)
proof (induction rule: rtranclp_induct)
  case (step s' s'')
  then show ?case
    using arrival_inv(1,3)[OF step.hyps(2) _ assms(3,4)] mesh_arrival[OF step.hyps(2)] by (auto intro: rtranclp.rtrancl_into_rtrancl)
qed (use assms(2) in simp)

lemma session_reach:
  assumes "(mesh_step V)\<^sup>*\<^sup>* mesh_start (N, fl)" and "a \<in> V" and "session_change V a e" and "local_seq N a = 1"
    and "finite V" and "card V \<le> 9"
  shows "\<exists>n' fl'. (mesh_step V)\<^sup>*\<^sup>* mesh_start (N(a := n'), fl')
    \<and> mn_connected_neighbors n' = sessions_after e (mn_connected_neighbors (N a))"
proof -
  have seq: "unat (db_local_sequence (mn_topology_db (N a))) + 1 < 2 ^ 63" using assms(4) by (simp add: local_seq_def)
  from session_inv[OF mesh_reachable_inv[OF assms(1,5,6)] assms(2,3) seq assms(5), of 0 0 noon] obtain us n' where
    r: "node_round 0 0 noon (SessionInput e) (N a) = Some (us, n')"
      "mn_connected_neighbors n' = sessions_after e (mn_connected_neighbors (N a))" by blast
  from mesh_session[where N = N, OF assms(2,3) seq r(1), of fl] assms(1) have "(mesh_step V)\<^sup>*\<^sup>* mesh_start (N(a := n'), fl @ copies us n')"
    by (rule rtranclp.rtrancl_into_rtrancl[rotated])
  with r(2) show ?thesis by blast
qed

lemma pair_converges:
  "\<exists>N. (mesh_step {1, 2})\<^sup>*\<^sup>* mesh_start (N, []) \<and> strongly_connected {1, 2} N
     \<and> connected_in N 1 = (\<lambda>y. y = 2) \<and> connected_in N 2 = (\<lambda>y. y = 1)"
proof -
  let ?N = "\<lambda>v. mesh_node_new v True"
  have V: "finite {1, 2 :: node_id}" "card {1, 2 :: node_id} \<le> 9" by simp_all
  have new: "local_seq (\<lambda>v. mesh_node_new v True) v = 1" for v
    by (simp add: local_seq_def mesh_node_new_def topology_database_new_def)
  have e: "session_change {1, 2} 1 (Connected ''b'' 2)" "session_change {1, 2} 2 (Connected ''a'' 1)"
    by (simp_all add: session_change_def)
  from session_reach[OF _ _ e(1) new V, of "[]"] obtain n1 fl1 where
    one: "(mesh_step {1, 2})\<^sup>*\<^sup>* mesh_start (?N(1 := n1), fl1)" "mn_connected_neighbors n1 = [(2, ''b'')]"
    by (auto simp: mesh_start_def mesh_node_new_def sessions_after_def)
  have "local_seq (?N(1 := n1)) 2 = 1" using new[of 2] by (simp add: local_seq_def)
  from session_reach[OF one(1) _ e(2) this V] obtain n2 fl2 where
    two: "(mesh_step {1, 2})\<^sup>*\<^sup>* mesh_start (?N(1 := n1, 2 := n2), fl2)" "mn_connected_neighbors n2 = [(1, ''a'')]"
    by (auto simp: mesh_node_new_def sessions_after_def)
  note inv = mesh_reachable_inv[OF two(1) V]
  from flood_ends[OF inv V] obtain N where N: "arrival\<^sup>*\<^sup>* (?N(1 := n1, 2 := n2), fl2) (N, [])" by blast
  note reach = arrivals_reach[OF N inv V]
  have c: "connected_in N 1 = (\<lambda>y. y = 2)" "connected_in N 2 = (\<lambda>y. y = 1)"
    using reach one(2) two(2) by (auto simp: connected_in_iff fun_eq_iff)
  then have "connected_in N 1 2" "connected_in N 2 1" by simp_all
  then have "strongly_connected {1, 2} N" by (auto simp: strongly_connected_def intro: tranclp_trans)
  with reach two(1) c show ?thesis by (meson rtranclp_trans)
qed

section \<open>Properties\<close>

text \<open>
  C2: Every node learns the links of every other. Take any course of events in a mesh of up to nine nodes: sessions come and
  go, and copies of updates arrive, in any order, each within five minutes of its stamp. From wherever this has led, the copies under way cannot go on for
  ever, and can always be brought to their end; and once no copy is under way, every node that has a connection is known to
  all nodes it reaches over connections with exactly its present links.
\<close>

theorem mesh_learns_links:
  assumes "(mesh_step V)\<^sup>*\<^sup>* mesh_start (N, fl)" and "finite V" and "card V \<le> 9"
  shows "(\<exists>N'. arrival\<^sup>*\<^sup>* (N, fl) (N', []))
    \<and> (\<nexists>f. f 0 = (N, fl) \<and> (\<forall>k. arrival (f k) (f (Suc k))))
    \<and> (fl = [] \<longrightarrow> (\<forall>a\<in>V. \<forall>v. (connected_in N)\<^sup>+\<^sup>+ a v \<longrightarrow>
         (\<exists>j. entry N v a = Some j \<and> (\<forall>x. costs (nd_neighbors j) x = (if connected_in N a x then Some 100 else None)))))"
proof -
  have inv: "mesh_inv V (N, fl)" by (rule mesh_reachable_inv[OF assms])
  have "\<exists>j. entry N v a = Some j \<and> (\<forall>x. costs (nd_neighbors j) x = (if connected_in N a x then Some 100 else None))"
    if "fl = []" "a \<in> V" "(connected_in N)\<^sup>+\<^sup>+ a v" for a v
  proof -
    have quiet: "mesh_inv V (N, [])" using inv that(1) by simp
    from that(3) obtain y where "connected_in N a y" by (meson tranclpD)
    then have "neighbors (N a) \<noteq> {}" by (auto simp: connected_in_iff)
    from quiet_informed[OF quiet that(2) has_neighbors_informed[OF inv that(2) this] tranclp_into_rtranclp[OF that(3)]]
    have "v \<in> V" "informed N a v" by simp_all
    from informed_links[OF quiet this] show ?thesis by (auto simp: links_def connected_in_iff)
  qed
  with flood_ends[OF inv assms(2,3)] flood_terminates[OF _ assms(2,3)] inv show ?thesis by metis
qed

theorem mesh_learns_links_witness:
  "\<exists>N j. (mesh_step {1, 2})\<^sup>*\<^sup>* mesh_start (N, []) \<and> entry N 2 1 = Some j
     \<and> costs (nd_neighbors j) 2 = Some 100 \<and> costs (nd_neighbors j) 3 = None"
proof -
  obtain N where N: "(mesh_step {1, 2})\<^sup>*\<^sup>* mesh_start (N, [])" "connected_in N 1 = (\<lambda>y. y = 2)" using pair_converges by blast
  have "finite {1, 2 :: node_id}" "card {1, 2 :: node_id} \<le> 9" by simp_all
  moreover have "(connected_in N)\<^sup>+\<^sup>+ 1 2" using N(2) by (simp add: tranclp.r_into_trancl)
  ultimately obtain j where "entry N 2 1 = Some j" "\<forall>x. costs (nd_neighbors j) x = (if connected_in N 1 x then Some 100 else None)"
    using mesh_learns_links[OF N(1)] by blast
  with N show ?thesis by auto
qed

text \<open>
  C3: A mesh converges to loop-free routes. When, after any course of sessions and arrivals in a mesh of two to nine nodes, no copy is under
  way and every node reaches every other over connections, then every node has a route to every other in its
  database and the same one in its routing table, the next hop is a node it is connected to, and following the databases hop by
  hop leads to the destination without visiting a node twice.
\<close>

theorem mesh_converges:
  assumes "(mesh_step V)\<^sup>*\<^sup>* mesh_start (N, [])" and "finite V" and "card V \<le> 9" and "strongly_connected V N"
    and "s \<in> V" and "dst \<in> V" and "s \<noteq> dst"
  shows "\<exists>r path. get_route (mn_topology_db (N s)) dst = Some r
    \<and> table_get_route (mn_routing_table (N s)) dst = Some (single (next_hop_new (cr_next_hop r) (cr_total_cost r)))
    \<and> connected_in N s (cr_next_hop r)
    \<and> forward_path (\<lambda>v. mn_topology_db (N v)) (unat (cr_total_cost r)) s dst = Some path
    \<and> distinct path \<and> hd path = s \<and> last path = dst"
proof -
  have inv: "mesh_inv V (N, [])" by (rule mesh_reachable_inv[OF assms(1-3)])
  obtain r where r: "get_route (mn_topology_db (N s)) dst = Some r" "connected_in N s (cr_next_hop r)"
      "table_get_route (mn_routing_table (N s)) dst = Some (single (next_hop_new (cr_next_hop r) (cr_total_cost r)))"
    by (rule mesh_routes[OF inv assms(4,2,3,5-7)])
  note conv = mesh_agrees[OF inv assms(4,5)]
  from forward_path_reaches[OF conv assms(5) r(1) order_refl] r show ?thesis by auto
qed

theorem mesh_converges_witness:
  "\<exists>N r path. (mesh_step {1, 2})\<^sup>*\<^sup>* mesh_start (N, []) \<and> get_route (mn_topology_db (N 1)) 2 = Some r
     \<and> forward_path (\<lambda>v. mn_topology_db (N v)) (unat (cr_total_cost r)) 1 2 = Some path \<and> last path = 2"
proof -
  obtain N where N: "(mesh_step {1, 2})\<^sup>*\<^sup>* mesh_start (N, [])" "strongly_connected {1, 2} N" using pair_converges by blast
  have "finite {1, 2 :: node_id}" "card {1, 2 :: node_id} \<le> 9" "(1 :: node_id) \<in> {1, 2}" "(2 :: node_id) \<in> {1, 2}" "(1 :: node_id) \<noteq> 2"
    by simp_all
  from mesh_converges[OF N(1) this(1,2) N(2) this(3-5)] N(1) show ?thesis by blast
qed

text \<open>
  C4: Any node of a converged mesh can send to any other. With the nodes as above, and for each of them a session manager that shares its routing table
  and has a session for each of its connections, a message from any node to any other that fits a frame is carried from manager to
  session to manager, over the routes that the nodes have worked out, and is handed to its destination unchanged.
\<close>

theorem converged_mesh_delivers:
  assumes "(mesh_step V)\<^sup>*\<^sup>* mesh_start (N, [])" and "finite V" and "card V \<le> 9" and "strongly_connected V N"
    and "\<forall>v\<in>V. manager_of (N v) (M v)" and "\<forall>v raw. enc v = Some raw \<longrightarrow> dec raw = Some v"
    and "message_ok msg" and "build_data_frame crc enc s msg = Ok bs"
    and "s \<in> V" and "om_dst_node msg \<in> V" and "s \<noteq> om_dst_node msg"
  shows "\<exists>k i. mesh_send hash crc enc dec M k s msg = Some (om_dst_node msg, i) \<and> same_message msg i"
proof -
  have inv: "mesh_inv V (N, [])" by (rule mesh_reachable_inv[OF assms(1-3)])
  obtain r where r: "get_route (mn_topology_db (N s)) (om_dst_node msg) = Some r"
    by (rule mesh_routes[OF inv assms(4,2,3,9-11)])
  from mesh_send_delivers[OF mesh_agreed_ready[OF inv assms(4,9,5)] assms(6-9) r] show ?thesis by blast
qed


definition pair_manager :: "(node_id \<Rightarrow> mesh_node) \<Rightarrow> node_id \<Rightarrow> session_manager" where
  "pair_manager N v =
     register_session 2 ''b'' 2 (register_session 1 ''a'' 1 (set_delivery_sender
       (session_manager_new v (mn_routing_table (N v)))))\<lparr>sm_channels := [(1, []), (2, [])]\<rparr>"

theorem converged_mesh_delivers_witness:
  "\<exists>N k i. (mesh_step {1, 2})\<^sup>*\<^sup>* mesh_start (N, [])
     \<and> mesh_send (\<lambda>_. 0) (\<lambda>_. 0) tiny_enc tiny_dec (pair_manager N) k 1 (plain_message 1 2 7) = Some (2, i) \<and> im_payload i = [9]"
proof -
  obtain N where N: "(mesh_step {1, 2})\<^sup>*\<^sup>* mesh_start (N, [])" "strongly_connected {1, 2} N"
      "connected_in N 1 = (\<lambda>y. y = 2)" "connected_in N 2 = (\<lambda>y. y = 1)" using pair_converges by blast
  have V: "finite {1, 2 :: node_id}" "card {1, 2 :: node_id} \<le> 9" by simp_all
  have "\<forall>v\<in>{1, 2}. mn_node_id (N v) = v" using mesh_reachable_inv[OF N(1) V] by (simp add: mesh_inv_def mesh_ok_def)
  moreover have "neighbors (N 1) = {2}" "neighbors (N 2) = {1}"
    using N(3,4) by (auto simp: fun_eq_iff connected_in_iff)
  ultimately have M: "\<forall>v\<in>{1, 2}. manager_of (N v) (pair_manager N v)"
    by (simp add: manager_of_def pair_manager_def register_session_def set_delivery_sender_def session_manager_new_def hm_wf_def
        hm_contains_def hm_get_Cons)
  obtain bs where bs: "build_data_frame (\<lambda>_. 0) tiny_enc 1 (plain_message 1 2 7) = Ok bs"
    using plain_message_frame[of tiny_enc 1 1 2 7] by (auto simp: tiny_enc_def)
  have "message_ok (plain_message 1 2 7)" by (rule plain_message_ok) simp
  from converged_mesh_delivers[where hash = "\<lambda>_. 0", OF N(1) V N(2) M tiny_codec this bs] N(1) show ?thesis
    by (fastforce simp: plain_message_fields same_message_def)
qed

end
