(* ===== verification/Service.thy ===== *)
theory Service
  imports Metrics
begin

text \<open>
  The data service at work: the tasks that \<open>message_tracker.rs\<close>, \<open>message_queue.rs\<close>, \<open>data.rs\<close> and \<open>server.rs\<close> start beside it, when each of
  them runs, and what every request and every turn of a task keeps of the shared tables.
\<close>

section \<open>Tasks\<close>

text \<open>
  The service with the handles of its tasks and the channels they read: feedback on routing from the session manager, and
  messages for the local node.
\<close>

record running_service =
  rs_service :: data_service
  rs_cleanup_handle :: bool
  rs_retry_task_handle :: bool
  rs_routing_feedback_rx :: bool
  rs_routing_feedback_task :: bool
  rs_routing_feedback :: "routing_feedback list"
  rs_incoming_message :: "received list"

text \<open>A new tracker has started its cleanup task; the lock of the handle is free when it is stored.\<close>

definition message_tracker_new :: "tracker \<times> bool" where
  "message_tracker_new = ([], True)"

text \<open>Dropping the tracker aborts the task.\<close>

definition message_tracker_drop :: "running_service \<Rightarrow> running_service" where
  "message_tracker_drop s = s\<lparr>rs_cleanup_handle := False\<rparr>"

definition start_retry_processor :: "running_service \<Rightarrow> running_service" where
  "start_retry_processor s = (if rs_retry_task_handle s then s else s\<lparr>rs_retry_task_handle := True\<rparr>)"

definition set_routing_feedback_receiver :: "running_service \<Rightarrow> running_service" where
  "set_routing_feedback_receiver s = s\<lparr>rs_routing_feedback_rx := True\<rparr>"

definition start_routing_feedback_task :: "running_service \<Rightarrow> running_service" where
  "start_routing_feedback_task s =
     (if rs_routing_feedback_rx s then s\<lparr>rs_routing_feedback_rx := False, rs_routing_feedback_task := True\<rparr> else s)"

text \<open>The services of \<open>MeshGrpcServer::new\<close> and their tasks.\<close>

definition running_service_new :: "node_id \<Rightarrow> delivery_queue \<Rightarrow> outbound_message list option \<Rightarrow> topology_database option
    \<Rightarrow> bool \<Rightarrow> running_service" where
  "running_service_new node_id delivery_queue outbound_tx topology_db routing_feedback =
     (let (message_tracker, cleanup) = message_tracker_new;
          queue = message_queue_new message_queue_config_default outbound_tx message_tracker;
          data_service = data_service_new node_id delivery_queue queue;
          data_service = (case topology_db of Some db \<Rightarrow> set_topology_db db data_service | None \<Rightarrow> data_service);
          s = \<lparr>rs_service = data_service, rs_cleanup_handle = cleanup, rs_retry_task_handle = False,
               rs_routing_feedback_rx = False, rs_routing_feedback_task = False, rs_routing_feedback = [],
               rs_incoming_message = []\<rparr>;
          s = start_retry_processor s
      in if routing_feedback then start_routing_feedback_task (set_routing_feedback_receiver s) else s)"

section \<open>Turns\<close>

definition update_service :: "(data_service \<Rightarrow> data_service) \<Rightarrow> running_service \<Rightarrow> running_service" where
  "update_service f s = s\<lparr>rs_service := f (rs_service s)\<rparr>"

definition cleanup_turn :: "nat \<Rightarrow> running_service \<Rightarrow> running_service" where
  "cleanup_turn now s =
     (if rs_cleanup_handle s
      then update_service (update_queue (\<lambda>q. q\<lparr>mq_tracker := cleanup_tick now (mq_tracker q)\<rparr>)) s else s)"

definition retry_turn :: "u64 \<Rightarrow> nat \<Rightarrow> running_service \<Rightarrow> running_service" where
  "retry_turn unix now s =
     (if rs_retry_task_handle s then update_service (update_queue (retry_tick unix now)) s else s)"

definition feedback_turn :: "u64 \<Rightarrow> running_service \<Rightarrow> running_service" where
  "feedback_turn unix s =
     (case rs_routing_feedback s of
        feedback # rest \<Rightarrow>
          if rs_routing_feedback_task s
          then update_service (ds_routing_feedback unix feedback) (s\<lparr>rs_routing_feedback := rest\<rparr>) else s
      | [] \<Rightarrow> s)"

definition incoming_turn :: "u64 \<Rightarrow> (delivery_status_message \<Rightarrow> bytes option) \<Rightarrow> (bytes \<Rightarrow> delivery_status_message option)
    \<Rightarrow> running_service \<Rightarrow> running_service" where
  "incoming_turn unix json_enc json_dec s =
     (case rs_incoming_message s of
        message # rest \<Rightarrow>
          update_service (handle_incoming_message unix json_enc json_dec message) (s\<lparr>rs_incoming_message := rest\<rparr>)
      | [] \<Rightarrow> s)"

text \<open>The local delivery task of the node passes a message from the session manager into the channel of the service.\<close>

definition local_delivery :: "inbound_message \<Rightarrow> running_service \<Rightarrow> running_service" where
  "local_delivery message s = s\<lparr>rs_incoming_message := rs_incoming_message s @ [received_of message]\<rparr>"

datatype service_input =
    SendInput u64 nat "(nat \<times> tracker) list" tracker send_request
  | StreamInput u64 nat channel send_request
  | SubscribeInput subscribe_request
  | GoneInput u64
  | AckInput u64 ack
  | FeedbackInput routing_feedback
  | MessageInput inbound_message
  | CleanupTurn nat
  | RetryTurn u64 nat
  | FeedbackTurn u64
  | IncomingTurn u64

definition service_step :: "(delivery_status_message \<Rightarrow> bytes option) \<Rightarrow> (bytes \<Rightarrow> delivery_status_message option)
    \<Rightarrow> service_input \<Rightarrow> running_service \<Rightarrow> running_service" where
  "service_step json_enc json_dec i s =
     (case i of
        SendInput unix now polls last_seen req \<Rightarrow> update_service (\<lambda>d. snd (send unix now polls last_seen req d)) s
      | StreamInput unix now stream req \<Rightarrow> update_service (\<lambda>d. snd (send_with_status_stream unix now stream req d)) s
      | SubscribeInput req \<Rightarrow> update_service (\<lambda>d. snd (ds_subscribe req d)) s
      | GoneInput sub_id \<Rightarrow> update_service (subscriber_gone sub_id) s
      | AckInput unix a \<Rightarrow> update_service (ds_ack_message unix json_enc a) s
      | FeedbackInput feedback \<Rightarrow> s\<lparr>rs_routing_feedback := rs_routing_feedback s @ [feedback]\<rparr>
      | MessageInput message \<Rightarrow> local_delivery message s
      | CleanupTurn now \<Rightarrow> cleanup_turn now s
      | RetryTurn unix now \<Rightarrow> retry_turn unix now s
      | FeedbackTurn unix \<Rightarrow> feedback_turn unix s
      | IncomingTurn unix \<Rightarrow> incoming_turn unix json_enc json_dec s)"

definition service_run :: "(delivery_status_message \<Rightarrow> bytes option) \<Rightarrow> (bytes \<Rightarrow> delivery_status_message option)
    \<Rightarrow> service_input list \<Rightarrow> running_service \<Rightarrow> running_service" where
  "service_run json_enc json_dec inputs s = fold (service_step json_enc json_dec) inputs s"

section \<open>What the tables hold\<close>

definition tracker_ok :: "nat \<Rightarrow> tracker \<Rightarrow> bool" where
  "tracker_ok n t \<longleftrightarrow> hm_wf t \<and> (\<forall>k r. hm_get t k = Some r \<longrightarrow> mr_msg_id r = k \<and> 1 \<le> unat k \<and> unat k < n)"

text \<open>A message of a client, and the report of a status.\<close>

definition client_message :: "node_id \<Rightarrow> nat \<Rightarrow> u64 \<Rightarrow> outbound_message \<Rightarrow> bool" where
  "client_message me n k m \<longleftrightarrow> om_msg_id m = Some k \<and> 1 \<le> unat k \<and> unat k < n \<and> om_src_node m = me \<and> om_dst_node m \<noteq> 0
     \<and> om_payload m \<noteq> [] \<and> hm_wf (om_headers m)"

definition status_report :: "node_id \<Rightarrow> outbound_message \<Rightarrow> bool" where
  "status_report me m \<longleftrightarrow> om_msg_id m = None \<and> om_src_node m = me \<and> om_dst_node m \<noteq> me
     \<and> om_headers m = [(''message_type'', str_bytes ''delivery_status'')]"

definition pending_ok :: "node_id \<Rightarrow> u32 \<Rightarrow> nat \<Rightarrow> (u64, queued_message) hmap \<Rightarrow> bool" where
  "pending_ok me limit n p \<longleftrightarrow> hm_wf p \<and> (\<forall>k qm. hm_get p k = Some qm \<longrightarrow>
     client_message me n k (qm_message qm) \<and> qm_retry_count qm \<le> limit)"

definition outbound_ok :: "node_id \<Rightarrow> nat \<Rightarrow> outbound_message list option \<Rightarrow> bool" where
  "outbound_ok me n out \<longleftrightarrow> (\<forall>m\<in>set (get_or [] out). status_report me m \<or> (\<exists>k. client_message me n k m))"

text \<open>The tables of a node that has given out the identifiers below \<open>n\<close>.\<close>

definition tables_ok :: "node_id \<Rightarrow> nat \<Rightarrow> message_queue \<Rightarrow> bool" where
  "tables_ok me n q \<longleftrightarrow> tracker_ok n (mq_tracker q) \<and> pending_ok me (mqc_max_retry_attempts (mq_config q)) n (mq_pending q)
     \<and> outbound_ok me n (mq_outbound q)"

definition service_ok :: "data_service \<Rightarrow> bool" where
  "service_ok d \<longleftrightarrow> 1 \<le> unat (ds_next_id d) \<and> tables_ok (ds_node_id d) (unat (ds_next_id d)) (ds_queue d)
     \<and> hm_wf (dq_subscribers (ds_delivery d)) \<and> hm_wf (ds_acked d)"

text \<open>Identifiers that are given out later do not matter.\<close>

lemma tables_ok_mono: "tables_ok me n q \<Longrightarrow> n \<le> n' \<Longrightarrow> tables_ok me n' q"
  unfolding tables_ok_def tracker_ok_def pending_ok_def outbound_ok_def client_message_def by (meson le_trans less_le_trans)

lemma tables_ok_fresh:
  assumes "tables_ok me (unat k) q"
  shows "hm_get (mq_tracker q) k = None" and "hm_get (mq_pending q) k = None"
proof -
  show "hm_get (mq_tracker q) k = None"
    using assms by (cases "hm_get (mq_tracker q) k") (auto simp: tables_ok_def tracker_ok_def)
  show "hm_get (mq_pending q) k = None"
    using assms by (cases "hm_get (mq_pending q) k") (auto simp: tables_ok_def pending_ok_def client_message_def)
qed

section \<open>Operations of the queue\<close>

text \<open>An operation that keeps the tables of every node in order, whatever identifiers were given out.\<close>

locale queue_operation =
  fixes op :: "message_queue \<Rightarrow> message_queue"
  assumes keeps: "tables_ok me n q \<Longrightarrow> tables_ok me n (op q)"
begin

lemma service_keeps: "service_ok d \<Longrightarrow> service_ok (update_queue op d)"
  using keeps by (auto simp: service_ok_def update_queue_def)

end

lemma tracker_ok_update: "tracker_ok n t \<Longrightarrow> tracker_ok n (snd (update_status x i st m t))"
  by (auto simp: tracker_ok_def update_status_def record_update_status_def split: option.split)

lemma tables_ok_set_status [simp]: "tables_ok me n q \<Longrightarrow> tables_ok me n (set_status x i st m q)"
  using tracker_ok_update by (simp add: tables_ok_def) (simp add: set_status_def)

lemma tables_ok_notify [simp]: "tables_ok me n (notify_stream tx i q) = tables_ok me n q"
  by (simp add: tables_ok_def)

lemma tables_ok_remove: "tables_ok me n q \<Longrightarrow> tables_ok me n (q\<lparr>mq_pending := hm_remove k (mq_pending q)\<rparr>)"
  by (auto simp: tables_ok_def pending_ok_def)

lemma tables_ok_waiting [simp]: "tables_ok me n (q\<lparr>mq_waiting := w\<rparr>) = tables_ok me n q"
  by (simp add: tables_ok_def)

lemma tables_ok_pending:
  assumes "tables_ok me n q" and "client_message me n k (qm_message qm)" and "qm_retry_count qm \<le> mqc_max_retry_attempts (mq_config q)"
    and "mq_outbound q = Some out"
  shows "tables_ok me n (q\<lparr>mq_outbound := Some (out @ [qm_message qm]), mq_pending := hm_insert k qm (mq_pending q)\<rparr>)"
  using assms by (auto simp: tables_ok_def pending_ok_def outbound_ok_def get_or_def)

lemma tables_ok_retry_message:
  assumes "tables_ok me n q"
  shows "tables_ok me n (retry_message x now k q)"
proof (cases "hm_get (mq_pending q) k")
  case (Some qm)
  let ?q = "q\<lparr>mq_pending := hm_remove k (mq_pending q)\<rparr>"
  let ?qm = "qm\<lparr>qm_retry_count := qm_retry_count qm + 1\<rparr>"
  have ok: "tables_ok me n ?q" by (rule tables_ok_remove[OF assms])
  have m: "client_message me n k (qm_message qm)" using assms Some by (simp add: tables_ok_def pending_ok_def)
  show ?thesis
  proof (cases "qm_retry_count qm + 1 > mqc_max_retry_attempts (mq_config q)")
    case True
    then show ?thesis using ok by (simp add: retry_message_def Some)
  next
    case False
    let ?again = "notify_stream (qm_status_tx qm) k (set_status x k Queued
        (''Retry attempt '' @ string_of_nat (unat (qm_retry_count qm + 1)) @ '' of ''
           @ string_of_nat (unat (mqc_max_retry_attempts (mq_config q)))) ?q)"
    have again: "tables_ok me n ?again" using ok by simp
    show ?thesis
    proof (cases "mq_outbound q")
      case None
      then show ?thesis using False again by (simp add: retry_message_def Some)
    next
      case (Some out)
      let ?next = "?qm\<lparr>qm_next_retry_at := now + retry_delay (mq_config q) (qm_retry_count qm + 1)\<rparr>"
      have "tables_ok me n (?again\<lparr>mq_outbound := Some (out @ [qm_message ?next]), mq_pending := hm_insert k ?next (mq_pending ?again)\<rparr>)"
        by (rule tables_ok_pending[OF again]) (use m False Some in simp_all)
      then show ?thesis using False Some \<open>hm_get (mq_pending q) k = Some qm\<close> by (simp add: retry_message_def)
    qed
  qed
qed (use assms in \<open>simp add: retry_message_def\<close>)

lemma tables_ok_delivered: "tables_ok me n q \<Longrightarrow> tables_ok me n (handle_message_delivered k q)"
  by (simp add: handle_message_delivered_def tables_ok_remove split: option.split)

lemma tables_ok_acked: "tables_ok me n q \<Longrightarrow> tables_ok me n (handle_message_acked k q)"
  by (simp add: handle_message_acked_def tables_ok_remove split: option.split)

lemma tables_ok_wait: "tables_ok me n q \<Longrightarrow> tables_ok me n (wait_for_condition c k q)"
  by (simp add: wait_for_condition_def Let_def split: option.split)

interpretation status_op: queue_operation "set_status x i st m" for x i st m
  by unfold_locales simp

lemma tables_ok_retries: "tables_ok me n q \<Longrightarrow> tables_ok me n (fold (retry_message x now) ks q)"
  by (induction ks arbitrary: q) (simp_all add: tables_ok_retry_message)

interpretation retry_op: queue_operation "retry_tick x now" for x now
  by unfold_locales (simp add: retry_tick_def tables_ok_retries)

interpretation feedback_op: queue_operation "queue_routing_feedback x i st m" for x i st m
proof
  fix me n q
  assume "tables_ok me n q"
  then have "tables_ok me n (case hm_get (mq_pending q) i of
      Some qm \<Rightarrow> notify_stream (qm_status_tx qm) i (set_status x i st m q) | None \<Rightarrow> set_status x i st m q)"
    by (simp split: option.split)
  then show "tables_ok me n (queue_routing_feedback x i st m q)"
    by (simp add: queue_routing_feedback_def Let_def tables_ok_delivered tables_ok_acked tables_ok_wait split: message_status.split)
qed

lemma fold_remove_get: "hm_get (fold hm_remove ks m) k = (if k \<in> set ks then None else hm_get m k)"
  by (induction ks arbitrary: m) auto

interpretation cleanup_op: queue_operation "\<lambda>q. q\<lparr>mq_tracker := cleanup_tick now (mq_tracker q)\<rparr>" for now
  by unfold_locales (auto simp: tables_ok_def tracker_ok_def cleanup_tick_def hm_wf_fold_remove fold_remove_get split: if_splits)

section \<open>Operations of the service\<close>

lemma hm_wf_headers_of: "hm_wf m \<Longrightarrow> hm_wf (headers_of hs m)"
  by (induction hs m rule: headers_of.induct) simp_all

lemma report_keeps:
  assumes "service_ok d"
  shows "service_ok (send_delivery_status_to_source json_enc src k st m d)"
proof (cases "src = ds_node_id d")
  case False
  then have "status_report (ds_node_id d) (status_message_of json_enc (ds_node_id d) src k st m)"
    by (simp add: status_report_def status_message_of_def)
  with assms False show ?thesis
    by (auto simp: service_ok_def send_delivery_status_to_source_def update_queue_def tables_ok_def outbound_ok_def get_or_def
        split: option.splits)
qed (use assms in \<open>simp add: send_delivery_status_to_source_def\<close>)

lemma incoming_keeps:
  assumes "service_ok d"
  shows "service_ok (handle_incoming_message x json_enc json_dec m d)"
proof -
  have status: "service_ok (handle_delivery_status_message x json_dec m d)"
    using assms status_op.service_keeps feedback_op.keeps
    by (auto simp: handle_delivery_status_message_def service_ok_def update_queue_def split: option.split)
  have del: "service_ok (d\<lparr>ds_delivery := snd (deliver m (ds_delivery d))\<rparr>)"
    using assms deliver_get(2)[of "ds_delivery d" m] by (simp add: service_ok_def)
  show ?thesis
    using assms status del report_keeps
    by (auto simp: handle_incoming_message_def Let_def split: prod.split)
qed

lemma service_ok_track:
  assumes "service_ok d" and "k = ds_next_id d" and "unat (ds_next_id d) + 1 < 2 ^ 64"
  shows "service_ok (ds_track x now k st m ra (snd (next_msg_id d)))" 
proof -
  have n: "unat (ds_next_id d + 1) = Suc (unat (ds_next_id d))" using assms(3) by (simp add: unat_word_ariths)
  have "tables_ok (ds_node_id d) (Suc (unat (ds_next_id d))) (ds_queue d)"
    using assms(1) by (auto simp: service_ok_def intro: tables_ok_mono)
  then show ?thesis
    using assms(1,2) by (auto simp: service_ok_def ds_track_def next_msg_id_def update_queue_def n tables_ok_def tracker_ok_def
        track_message_def message_record_new_def)
qed

lemma service_ok_next:
  assumes "service_ok d" and "unat (ds_next_id d) + 1 < 2 ^ 64"
  shows "service_ok (snd (next_msg_id d))"
proof -
  have n: "unat (ds_next_id d + 1) = Suc (unat (ds_next_id d))" using assms(2) by (simp add: unat_word_ariths)
  show ?thesis using assms(1) tables_ok_mono[of _ "unat (ds_next_id d)" _ "Suc (unat (ds_next_id d))"]
    by (auto simp: service_ok_def next_msg_id_def n)
qed

lemma queued_keeps:
  assumes "tables_ok me n q" and "queue_message now msg mode timeout tx q = (res, q')"
    and "client_message me n k msg"
  shows "tables_ok me n q'"
proof (cases "mq_outbound q")
  case None
  then show ?thesis using assms by (auto simp: queue_message_def client_message_def)
next
  case (Some out)
  have k: "om_msg_id msg = Some k" using assms(3) by (simp add: client_message_def)
  let ?qm = "\<lparr>qm_message = msg, qm_retry_count = 0, qm_queued_at = now, qm_next_retry_at = now,
    qm_send_mode = mode, qm_timeout_seconds = timeout, qm_status_tx = tx\<rparr>"
  from tables_ok_pending[OF assms(1), of k ?qm out] assms(2,3) Some k show ?thesis by (auto simp: queue_message_def)
qed

lemma request_message:
  assumes "req_dst_node req \<noteq> 0" and "req_payload req \<noteq> []" and "1 \<le> unat k" and "unat k < n"
  shows "client_message me n k (outbound_of_request me k req)"
  using assms hm_wf_headers_of[of "[]"] by (simp add: client_message_def outbound_of_request_def)

lemma send_keeps:
  assumes "service_ok d" and "unat (ds_next_id d) + 1 < 2 ^ 64"
  shows "service_ok (snd (send x now polls last_seen req d))"
proof (cases "req_dst_node req = 0 \<or> req_payload req = []")
  case False
  let ?k = "ds_next_id d"
  let ?t = "ds_track x now ?k Queued ''Message queued for delivery'' (req_require_ack req) (snd (next_msg_id d))"
  have track: "service_ok (ds_track x now ?k st m ra (snd (next_msg_id d)))" for st m ra
    by (rule service_ok_track[OF assms(1) refl assms(2)])
  have n: "unat (ds_next_id ?t) = Suc (unat ?k)" "ds_node_id ?t = ds_node_id d" 
    using assms(2) by (simp_all add: ds_track_def next_msg_id_def unat_word_ariths)
  have msg: "client_message (ds_node_id d) (Suc (unat ?k)) ?k (outbound_of_request (ds_node_id d) ?k req)"
    using request_message[of req ?k "Suc (unat ?k)" "ds_node_id d"] False assms(1) by (simp add: service_ok_def)
  have "service_ok (snd (ds_queue_message x now ?k req ?t))"
  proof -
    obtain res q where q: "queue_message now (outbound_of_request (ds_node_id d) ?k req) (req_mode req)
        (req_timeout_seconds req) None (ds_queue ?t) = (res, q)" by fastforce
    have "tables_ok (ds_node_id d) (Suc (unat ?k)) q"
      by (rule queued_keeps[OF _ q msg])
        (use track[of Queued "''Message queued for delivery''" "req_require_ack req"] n in \<open>simp add: service_ok_def\<close>)
    with track[of Queued "''Message queued for delivery''" "req_require_ack req"] n q show ?thesis
      by (cases res) (simp_all add: ds_queue_message_def service_ok_def)
  qed
  then show ?thesis using False track
    by (auto simp: send_def Let_def next_msg_id_def split: prod.split outcome.split)
qed (use assms(1) in \<open>auto simp: send_def\<close>)

lemma stream_keeps:
  assumes "service_ok d" and "unat (ds_next_id d) + 1 < 2 ^ 64"
  shows "service_ok (snd (send_with_status_stream x now stream req d))"
proof (cases "req_dst_node req = 0 \<or> req_payload req = []")
  case False
  let ?k = "ds_next_id d" and ?m = "''Message queued for streaming delivery''"
  let ?t = "ds_track x now ?k Queued ?m (req_require_ack req) (snd (next_msg_id d))"
  let ?first = "status_now x ?k Queued ?m (req_require_ack req)"
  let ?u = "update_queue (\<lambda>q. q\<lparr>mq_streams := hm_insert stream [?first] (mq_streams q)\<rparr>) ?t"
  have "service_ok ?t" by (rule service_ok_track[OF assms(1) refl assms(2)])
  then have u: "service_ok ?u" by (simp add: service_ok_def update_queue_def tables_ok_def)
  have n: "unat (ds_next_id ?u) = Suc (unat ?k)" "ds_node_id ?u = ds_node_id d"
    using assms(2) by (simp_all add: ds_track_def next_msg_id_def unat_word_ariths)
  have msg: "client_message (ds_node_id d) (Suc (unat ?k)) ?k (outbound_of_request (ds_node_id d) ?k req)"
    using request_message[of req ?k "Suc (unat ?k)" "ds_node_id d"] False assms(1) by (simp add: service_ok_def)
  obtain res q where q: "queue_message now (outbound_of_request (ds_node_id d) ?k req) (req_mode req)
      (req_timeout_seconds req) (Some stream) (ds_queue ?u) = (res, q)" by fastforce
  have "tables_ok (ds_node_id d) (Suc (unat ?k)) (ds_queue ?u)" using u n by (auto simp only: service_ok_def)
  from queued_keeps[OF this q msg] u n have "service_ok (?u\<lparr>ds_queue := q\<rparr>)" by (simp add: service_ok_def)
  moreover have "service_ok (snd (next_msg_id d))" by (rule service_ok_next[OF assms])
  moreover have "snd (send_with_status_stream x now stream req d) =
      (if is_node_known (req_dst_node req) d then ?u\<lparr>ds_queue := q\<rparr> else snd (next_msg_id d))"
  proof -
    obtain d' where d': "next_msg_id d = (?k, d')" "ds_node_id d' = ds_node_id d" by (simp add: next_msg_id_def)
    have "ds_node_id (ds_track x now ?k Queued ?m (req_require_ack req) d') = ds_node_id d" by (simp add: ds_track_def d'(2))
    with False q show ?thesis by (cases res) (simp_all add: send_with_status_stream_def d'(1) Let_def)
  qed
  ultimately show ?thesis by simp
qed (use assms(1) in \<open>auto simp: send_with_status_stream_def\<close>)

lemma other_keeps:
  assumes "service_ok d"
  shows "service_ok (snd (ds_subscribe req d))" and "service_ok (subscriber_gone i d)"
    and "service_ok (ds_ack_message x json_enc a d)" and "service_ok (ds_routing_feedback x fb d)"
proof -
  show "service_ok (snd (ds_subscribe req d))" using assms by (simp add: ds_subscribe_def subscribe_def service_ok_def Let_def)
  show "service_ok (subscriber_gone i d)" using assms by (simp add: subscriber_gone_def unsubscribe_def service_ok_def)
  have "service_ok (d\<lparr>ds_acked := hm_insert (ack_src_node a, ack_msg_id a) () (ds_acked d)\<rparr>)"
    using assms by (simp add: service_ok_def)
  then show "service_ok (ds_ack_message x json_enc a d)"
    unfolding ds_ack_message_def Let_def by (intro report_keeps status_op.service_keeps)
  show "service_ok (ds_routing_feedback x fb d)"
    using assms status_op.service_keeps by (auto simp: ds_routing_feedback_def split: routing_decision.split prod.split)
qed

section \<open>Runs\<close>

text \<open>How many identifiers a step gives out.\<close>

lemma next_id_simps:
  "ds_next_id (snd (send x now polls last_seen req d)) \<in> {ds_next_id d, ds_next_id d + 1}"
  "ds_next_id (snd (send_with_status_stream x now stream req d)) \<in> {ds_next_id d, ds_next_id d + 1}"
  "ds_next_id (handle_incoming_message x json_enc json_dec m d) = ds_next_id d"
  "ds_next_id (ds_ack_message x json_enc a d) = ds_next_id d"
  "ds_next_id (ds_routing_feedback x fb d) = ds_next_id d"
  "ds_next_id (snd (ds_subscribe rq d)) = ds_next_id d" "ds_next_id (subscriber_gone i d) = ds_next_id d"
proof -
  have [simp]: "ds_next_id (send_delivery_status_to_source json_enc src k st m d) = ds_next_id d" for src k st m d
    by (simp add: send_delivery_status_to_source_def)
  show "ds_next_id (snd (send x now polls last_seen req d)) \<in> {ds_next_id d, ds_next_id d + 1}"
    by (auto simp: send_def next_msg_id_def Let_def ds_track_def ds_queue_message_def split: prod.split outcome.split)
  show "ds_next_id (snd (send_with_status_stream x now stream req d)) \<in> {ds_next_id d, ds_next_id d + 1}"
    by (auto simp: send_with_status_stream_def next_msg_id_def Let_def ds_track_def split: prod.split outcome.split)
  show "ds_next_id (handle_incoming_message x json_enc json_dec m d) = ds_next_id d"
    by (auto simp: handle_incoming_message_def handle_delivery_status_message_def Let_def split: prod.split option.split)
qed (simp_all add: ds_ack_message_def ds_routing_feedback_def ds_subscribe_def subscriber_gone_def send_delivery_status_to_source_def Let_def
    split: routing_decision.split prod.split)

lemma service_step_ok:
  assumes "service_ok (rs_service s)" and "unat (ds_next_id (rs_service s)) + 1 < 2 ^ 64"
  shows "service_ok (rs_service (service_step json_enc json_dec i s))"
    and "unat (ds_next_id (rs_service (service_step json_enc json_dec i s))) \<le> Suc (unat (ds_next_id (rs_service s)))"
    and "rs_retry_task_handle (service_step json_enc json_dec i s) = rs_retry_task_handle s"
    and "rs_cleanup_handle (service_step json_enc json_dec i s) = rs_cleanup_handle s"
    and "rs_routing_feedback_task (service_step json_enc json_dec i s) = rs_routing_feedback_task s"
proof -
  let ?d = "rs_service s"
  have n: "unat (ds_next_id ?d + 1) = Suc (unat (ds_next_id ?d))" using assms(2) by (simp add: unat_word_ariths)
  show "service_ok (rs_service (service_step json_enc json_dec i s))"
    using assms send_keeps stream_keeps other_keeps incoming_keeps cleanup_op.service_keeps retry_op.service_keeps
    by (cases i) (auto simp: service_step_def update_service_def cleanup_turn_def retry_turn_def feedback_turn_def incoming_turn_def local_delivery_def
        split: list.split)
  show "unat (ds_next_id (rs_service (service_step json_enc json_dec i s))) \<le> Suc (unat (ds_next_id ?d))"
  proof (cases i)
    case (SendInput unix now polls last_seen req)
    then show ?thesis using next_id_simps(1)[of unix now polls last_seen req ?d] n
      by (auto simp: service_step_def update_service_def)
  next
    case (StreamInput unix now stream req)
    then show ?thesis using next_id_simps(2)[of unix now stream req ?d] n
      by (auto simp: service_step_def update_service_def)
  qed (simp_all add: service_step_def update_service_def cleanup_turn_def retry_turn_def feedback_turn_def incoming_turn_def local_delivery_def
      next_id_simps(3-) split: list.split)
qed (cases i; simp add: service_step_def update_service_def cleanup_turn_def retry_turn_def feedback_turn_def incoming_turn_def local_delivery_def
    split: list.split)+

lemma service_run_ok:
  assumes "service_ok (rs_service s)" and "unat (ds_next_id (rs_service s)) + length inputs < 2 ^ 64"
  shows "let s' = service_run json_enc json_dec inputs s in service_ok (rs_service s')
    \<and> unat (ds_next_id (rs_service s')) \<le> unat (ds_next_id (rs_service s)) + length inputs
    \<and> rs_retry_task_handle s' = rs_retry_task_handle s \<and> rs_cleanup_handle s' = rs_cleanup_handle s
    \<and> rs_routing_feedback_task s' = rs_routing_feedback_task s"
  using assms
proof (induction inputs arbitrary: s)
  case (Cons i inputs)
  have "unat (ds_next_id (rs_service s)) + 1 < 2 ^ 64" using Cons.prems(2) by simp
  note step = service_step_ok[OF Cons.prems(1) this, of json_enc json_dec i]
  have "unat (ds_next_id (rs_service (service_step json_enc json_dec i s))) + length inputs < 2 ^ 64"
    using step(2) Cons.prems(2) by simp
  from Cons.IH[OF step(1) this] step show ?case by (simp add: service_run_def Let_def)
qed (simp add: service_run_def)

lemma running_service_new_ok:
  assumes "hm_wf (dq_subscribers dq)" and "get_or [] out = []"
  shows "service_ok (rs_service (running_service_new me dq out db fb))"
    and "ds_next_id (rs_service (running_service_new me dq out db fb)) = 1"
    and "rs_retry_task_handle (running_service_new me dq out db fb)" and "rs_cleanup_handle (running_service_new me dq out db fb)"
    and "rs_routing_feedback_task (running_service_new me dq out db fb) = fb"
  using assms
  by (auto simp: running_service_new_def message_tracker_new_def start_retry_processor_def set_routing_feedback_receiver_def
      start_routing_feedback_task_def service_ok_def tables_ok_def tracker_ok_def pending_ok_def outbound_ok_def data_service_new_def
      message_queue_new_def set_topology_db_def Let_def split: option.split)

text \<open>A further request gets a record of its own.\<close>

lemma send_own_record:
  assumes "service_ok d" and "req_dst_node req \<noteq> 0" and "req_payload req \<noteq> []"
  shows "hm_get (mq_tracker (ds_queue d)) (ds_next_id d) = None \<and> hm_get (mq_pending (ds_queue d)) (ds_next_id d) = None"
    and "hm_get (mq_tracker (ds_queue (snd (send x now polls last_seen req d)))) (ds_next_id d) \<noteq> None"
    and "k \<noteq> ds_next_id d \<Longrightarrow>
      hm_get (mq_tracker (ds_queue (snd (send x now polls last_seen req d)))) k = hm_get (mq_tracker (ds_queue d)) k"
proof -
  show "hm_get (mq_tracker (ds_queue d)) (ds_next_id d) = None \<and> hm_get (mq_pending (ds_queue d)) (ds_next_id d) = None"
    using assms(1) tables_ok_fresh by (auto simp: service_ok_def)
  have q: "queue_message now m mode timeout tx q = (res, q') \<Longrightarrow> mq_tracker q' = mq_tracker q" for m mode timeout tx q res q'
    by (auto simp: queue_message_def split: option.splits)
  have queued: "k \<noteq> i \<Longrightarrow> hm_get (mq_tracker (ds_queue (snd (ds_queue_message x now i req d)))) k = hm_get (mq_tracker (ds_queue d)) k"
      "hm_get (mq_tracker (ds_queue (snd (ds_queue_message x now i req d)))) i = None \<longleftrightarrow> hm_get (mq_tracker (ds_queue d)) i = None" for i d k
    by (auto simp: ds_queue_message_def set_status_get dest!: q split: prod.split outcome.split)
  have snd_queue: "snd (case ds_queue_message x now i req d of (Err e, s) \<Rightarrow> (Some (Err e), s) | (Panic, s) \<Rightarrow> (Some Panic, s)
      | (Ok u, s) \<Rightarrow> if b then (r, s) else (r', s)) = snd (ds_queue_message x now i req d)" for i d b and r r' :: "(grpc_status, send_response) outcome option"
    by (auto split: prod.split outcome.split)
  show "hm_get (mq_tracker (ds_queue (snd (send x now polls last_seen req d)))) (ds_next_id d) \<noteq> None"
    using assms(2,3) by (simp add: send_def Let_def next_msg_id_def snd_queue queued ds_track_def track_message_def del: not_None_eq)
  show "k \<noteq> ds_next_id d \<Longrightarrow>
      hm_get (mq_tracker (ds_queue (snd (send x now polls last_seen req d)))) k = hm_get (mq_tracker (ds_queue d)) k"
    using assms(2,3) by (simp add: send_def Let_def next_msg_id_def snd_queue queued ds_track_def track_message_def)
qed

section \<open>Deviations\<close>

text \<open>
  An acknowledgement names a message by its sender and its number, but the status is set by the number alone: the message of the
  same number that the node itself has sent is taken as acknowledged.
\<close>

lemma foreign_ack_completes_own_message:
  assumes "status_of k (ds_queue d) \<noteq> None" and "ack_msg_id a = k" and "ack_src_node a \<noteq> ds_node_id d" and "ack_success a"
  shows "status_of k (ds_queue (ds_ack_message x json_enc a d)) = Some AckSuccess"
  using assms by (auto simp: ds_ack_message_def send_delivery_status_to_source_def update_queue_def status_of_def set_status_get Let_def)

section \<open>Properties\<close>


definition small_request :: send_request where
  "small_request = \<lparr>req_dst_node = 2, req_headers = [], req_payload = [7], req_corr_id = 0, req_require_ack = False,
     req_mode = FireAndForget, req_timeout_seconds = 0\<rparr>"


end
