(* ===== verification/Spec2Isabelle.thy ===== *)
theory Spec2Isabelle
  imports Wire Connections Convergence Service
begin

text \<open>
  A verification library for the mesh node in \<open>src/\<close>: a program in Rust that carries messages between nodes over
  a link-state routed overlay, with a reliability layer, persistent logs and a gRPC interface.

  \<^bold>\<open>The program and its theories.\<close>

  \<^item> \<open>mesh-wire\<close>: frames on a byte stream. \<open>Wire_Header\<close> (\<open>header.rs\<close>, \<open>error.rs\<close>), \<open>Wire_Frame\<close> (\<open>frame.rs\<close>),
    \<open>Wire_Codec\<close> (\<open>codec.rs\<close>), \<open>Wire_Chunk\<close> (\<open>chunk.rs\<close>), \<open>Topology_Msg\<close> (\<open>topology.rs\<close>), and their properties in
    \<open>Wire\<close>: a frame is decoded exactly as it was encoded from any stream, the decoder never panics and what it accepts
    re-encodes to the bytes it consumed, chunked messages are put together again.
  \<^item> \<open>mesh-topology\<close>: the link-state database. \<open>Topology_DB\<close> has the state and the operations of
    \<open>link_state.rs\<close> and \<open>link_state/database.rs\<close>, \<open>Topology_Dijkstra\<close> the correctness of the shortest-path loop
    on 32-bit saturating costs, \<open>Topology_Ops\<close> the reachable databases: routes are minimum-cost walks
    whatever the order of events, and hop-by-hop forwarding over agreed databases has no loop.
  \<^item> \<open>mesh-routing\<close>: \<open>Routing\<close> (\<open>next_hop.rs\<close>, \<open>ecmp.rs\<close>, \<open>router.rs\<close>, \<open>table.rs\<close>). The interface of a
    router is a locale, interpreted on the table; decisions follow the routes taken over from the database and every
    decision is counted once.
  \<^item> \<open>mesh-storage\<close>: \<open>Storage\<close> states the two traits of \<open>lib.rs\<close> as locales and proves what clients need from
    their laws; \<open>Storage_Mem\<close> (\<open>backend/mem.rs\<close>) and \<open>Storage_File\<close> (\<open>backend/file.rs\<close>, over a model
    of the disk) interpret them. The file deduplication refines the one in memory. \<open>Storage_Mode\<close> has the choice of a
    backend, the placeholder \<open>backend/redis.rs\<close>, and what a restart finds: a file log that is opened again has all its
    frames.
  \<^item> \<open>mesh-session\<close>: \<open>Reliability\<close> and \<open>Reliability_Ops\<close> (\<open>reliability.rs\<close>: credits, acknowledgements, resume;
    exactly-once across a lost link, over any storage that satisfies the locale; no session uses this module yet), \<open>Session_Msg\<close> (messages and their frames),
    \<open>Session\<close> and \<open>Session_Ops\<close> (\<open>handshake.rs\<close>, \<open>keepalive.rs\<close>, \<open>session.rs\<close>: the event loop of one connection),
    \<open>Manager\<close> (\<open>manager.rs\<close>). \<open>Transport\<close> (\<open>transport.rs\<close>) has the TLS configurations, the opening of connections and the node
    a certificate names; with a session on top, a peer is known by its certificate and by nothing else.
  \<^item> \<open>Network\<close> composes managers, sessions, wire format and routes into the journey of one message
    through the network, with no code of its own.
  \<^item> \<open>mesh-grpc\<close>: \<open>Delivery\<close> (\<open>delivery.rs\<close>), \<open>Tracker\<close> (\<open>message_tracker.rs\<close>, \<open>message_queue.rs\<close>),
    \<open>Data_Service\<close> (\<open>data.rs\<close>), \<open>Metrics\<close> (\<open>metrics.rs\<close> and the load report of \<open>ecmp.rs\<close>, over the double-precision numbers of
    \<open>F64\<close>), \<open>Control\<close> (\<open>control.rs\<close>: its reports agree with what the node does; what dropping a session does, and to which sessions).
    \<open>Service\<close> has the tasks that \<open>server.rs\<close> starts beside the data service, as turns that may come between any two requests: the tables
    they share stay well formed. An operation of the queue that keeps the tables is a locale, interpreted on the status report, the
    retry, the feedback and the cleanup.
  \<^item> \<open>mesh-bin\<close>: \<open>Node\<close> has the event loop of \<open>main.rs\<close> and the tasks it spawns, as sections that any schedule may interleave:
    whatever the schedule, the node returns, knows its peers and is put right by the next change of a session, and when events are worked off
    one by one the routing table follows the topology. A task that is aborted runs on no more (\<open>session_task_loop\<close> of \<open>Control\<close>). \<open>Startup\<close> has the arguments, the gRPC server of \<open>server.rs\<close> and the way the parts are put together: a node comes
    up with what was asked for, or not at all, and never panics on the way. \<open>Connections\<close> has the listener and the connectors, with the loop of
    \<open>run_outbound_with_messages\<close>: with TLS and verification every session of a node is known by the certificate of its peer.
  \<^item> \<open>Flooding\<close> and \<open>Convergence\<close> put such nodes into a mesh, with no code of their own. Sessions come and go, and the copies of updates
    arrive in any order. The flooding ends; then every node knows the links of every node it is connected with, and in a connected mesh
    the routes are loop-free and any node can send to any other. The mesh has at most nine nodes, since an update starts with
    a time to live of eight. Each event is worked off before the next, and a broadcast is taken to reach every connected neighbour, which holds once the session
    manager has registered the session; \<open>first_update_lost\<close> shows what happens when it has not.
  \<^item> This theory: the property that spans all of it, from a client's send request to the status it reads.

  \<open>Prelude\<close> holds the machine integers, outcomes, maps and byte codecs the components share.

  \<^bold>\<open>Correspondence.\<close> A struct is a record, an enum a datatype, a method a function from state to state. Unsigned
  integers are words and wrap as in a release build; signed credits are integers. A \<open>Result\<close> is an
  \<open>outcome\<close> with a third value for a panic. Hash maps are association lists with one entry per key, in
  an order no property depends on; ordered maps are sorted ones. A channel is the list of what was sent on
  it, and absent when its receiver is gone; a bounded channel is never full, so that nobody waits to send. Clocks are arguments (nanoseconds, or seconds since the
  epoch). An \<open>async\<close> function runs without interference of other tasks; what may
  happen between its steps is a sequence of inputs (the arms of a \<open>select!\<close>, the polls of a waiting
  request, the ticks of a task), and the properties hold for all such sequences. The tasks of the event loop
  interleave at their locks. A double-precision number is a rational, and its operations round to 53 bits, to the nearest and to even.

  \<^bold>\<open>Parameters.\<close> Code outside the repository is an argument: the checksum, the CBOR and JSON codecs (with the
  law that decoding inverts encoding where a property needs it), the hash function, the packages for PEM, X.509 and TLS,
  the parser of socket addresses, files and sockets at start-up, the writer of a connection.

  \<^bold>\<open>Bounds.\<close> Dijkstra's loop, the walk back along predecessors and the other loops of the code are functions with
  a termination proof, or return an option whose value is proved to be there. The only bound chosen here is the number of hops of
  \<open>mesh_send\<close>: the cost of the route, which is enough because every link costs at least one.

  \<^bold>\<open>Deviations.\<close> Each theory ends with lemmas that show where the code does not do what it seems to intend,
  such as acknowledgements that never reach the sender, the end of an old session that removes a new one, routes that
  go stale when two tasks interleave, or identifiers that are given out again after a restart.

  \<^bold>\<open>Not modelled.\<close> Reading and writing of \<open>IoStream\<close> only hand on to the network package, and \<open>serve\<close> of \<open>server.rs\<close> to the gRPC package.
  The text of log lines, the details in the text of errors and the command-line parser are left out. The operations of the disk are taken to succeed. A node with the feature \<open>tls\<close>
  compiled in is the one that is modelled.
\<close>

section \<open>A message and its confirmation\<close>

text \<open>
  C1: A client's message is delivered and confirmed, across the whole system. In a network at rest, a message that a
  client of node \<open>a\<close> has sent is carried hop by hop to its destination and arrives unchanged; every subscriber there that
  asks for messages of its source, or of any, has it at the end of its channel; the status that the destination reports is carried back;
  and then the tracker of \<open>a\<close> shows delivered, waiting for an acknowledgement, or pending, according to whether anybody took the message and
  an acknowledgement was asked for, and a message that was taken is out of the retry queue. Of the packages this takes that decoding inverts encoding, and that
  a report with a text of up to a hundred characters is encoded in a size that fits a frame.
\<close>

theorem client_message_confirmed:
  assumes "mesh_ready V N D M" and "\<forall>v raw. enc v = Some raw \<longrightarrow> dec raw = Some v"
    and "\<forall>v. ds_node_id (S v) = v" and "a \<noteq> b"
    and "message_ok msg" and "om_src_node msg = a" and "om_dst_node msg = b" and "om_msg_id msg = Some k"
    and "hm_get (om_headers msg) ''message_type'' = None" and "build_data_frame crc enc a msg = Ok bs"
    and "get_route (D a) b = Some r" and "get_route (D b) a = Some r'"
    and "status_of k (ds_queue (S a)) \<noteq> None" and "mq_outbound (ds_queue (S b)) = Some out"
    and "\<forall>st t. length t \<le> 100 \<longrightarrow> (\<exists>raw. json_enc \<lparr>dsm_original_msg_id = k, dsm_status = status_code st, dsm_status_message = t\<rparr> = Some raw
      \<and> length raw \<le> 60000)"
    and "\<forall>d raw. json_enc d = Some raw \<longrightarrow> json_dec raw = Some d"
    and "a \<in> V" and "b \<in> V"
    and "enc delivery_status_meta = Some meta" and "length meta \<le> 5000"
    and "hm_wf (dq_subscribers (ds_delivery (S b)))" and "length (dq_subscribers (ds_delivery (S b))) < 10 ^ 20"
  shows "\<exists>i n dq d j a'. mesh_send hash crc enc dec M (unat (cr_total_cost r)) a msg = Some (b, i) \<and> same_message msg i
    \<and> deliver (received_of i) (ds_delivery (S b)) = (n, dq)
    \<and> ds_delivery (handle_incoming_message t json_enc json_dec (received_of i) (S b)) = dq
    \<and> (\<forall>id s ms. hm_get (dq_subscribers (ds_delivery (S b))) id = Some s \<longrightarrow> sub_sent s = Some ms \<longrightarrow>
         hm_get (dq_subscribers dq) id =
           (if sf_src_node (sub_filter s) = None \<or> sf_src_node (sub_filter s) = Some a
            then Some (s\<lparr>sub_sent := Some (ms @ [received_of i])\<rparr>) else Some s))
    \<and> mq_outbound (ds_queue (handle_incoming_message t json_enc json_dec (received_of i) (S b))) = Some (out @ [d])
    \<and> mesh_send hash crc enc dec M (unat (cr_total_cost r')) b d = Some (a, j)
    \<and> handle_incoming_message t' json_enc json_dec (received_of j) (S a) = a'
    \<and> status_of k (ds_queue a') =
        Some (if n = 0 then PendingClient else if om_require_ack msg then WaitingForClientAck else Delivered)
    \<and> (n \<noteq> 0 \<longrightarrow> hm_get (mq_pending (ds_queue a')) k = None)"
proof -
  have "get_route (D a) (om_dst_node msg) = Some r" using assms(7,11) by simp
  then obtain i where i: "mesh_send hash crc enc dec M (unat (cr_total_cost r)) a msg = Some (b, i)" "same_message msg i"
    using mesh_send_delivers[OF assms(1,2,5,10,17)] assms(7) by metis
  obtain n dq where dq: "deliver (received_of i) (ds_delivery (S b)) = (n, dq)" by (metis surj_pair)
  define st where "st = (if n = 0 then PendingClient else if im_require_ack i then WaitingForClientAck else Delivered)"
  have h: "im_dst_node i = ds_node_id (S b)" "im_src_node i = ds_node_id (S a)" "ds_node_id (S a) \<noteq> ds_node_id (S b)"
      "im_msg_id i = Some k" "k \<noteq> 0" "hm_wf (im_headers i)" "hm_get (im_headers i) ''message_type'' = None"
      "im_require_ack i = om_require_ack msg"
    using i(2) assms(3-9) by (auto simp: same_message_def message_ok_def)
  have taken: "\<forall>id s ms. hm_get (dq_subscribers (ds_delivery (S b))) id = Some s \<longrightarrow> sub_sent s = Some ms \<longrightarrow>
      hm_get (dq_subscribers dq) id = (if sf_src_node (sub_filter s) = None \<or> sf_src_node (sub_filter s) = Some a
        then Some (s\<lparr>sub_sent := Some (ms @ [received_of i])\<rparr>) else Some s)"
  proof -
    have src: "rc_src (received_of i) = a" using h(2) assms(3) by (simp add: received_of_def)
    have "hm_get (dq_subscribers dq) id = Option.bind (hm_get (dq_subscribers (ds_delivery (S b))) id) (take_message (received_of i))" for id
      using deliver_get(1)[OF assms(21), of "received_of i" id] by (simp add: dq)
    then show ?thesis by (auto simp: take_message_def filter_matches_iff src)
  qed
  have json: "\<forall>t. length t \<le> 100 \<longrightarrow> (\<exists>raw. json_enc \<lparr>dsm_original_msg_id = k, dsm_status = status_code st, dsm_status_message = t\<rparr> = Some raw
      \<and> length raw \<le> 60000)" using assms(15) by blast
  obtain d where d: "ds_delivery (handle_incoming_message t json_enc json_dec (received_of i) (S b)) = dq"
      "mq_outbound (ds_queue (handle_incoming_message t json_enc json_dec (received_of i) (S b))) = Some (out @ [d])"
      "om_dst_node d = a" "message_ok d" "om_headers d = [(''message_type'', str_bytes ''delivery_status'')]" "\<not> om_require_ack d"
      "length (om_payload d) \<le> 60000"
      and home: "\<And>j u. same_message d j \<Longrightarrow>
         status_of k (ds_queue (handle_incoming_message u json_enc json_dec (received_of j) (S a))) = Some st
         \<and> hm_get (mq_pending (ds_queue (handle_incoming_message u json_enc json_dec (received_of j) (S a)))) k =
                 (if st = PendingClient then hm_get (mq_pending (ds_queue (S a))) k else None)"
    using delivery_confirmed[OF h(1-7) assms(14,13) json assms(16) dq st_def assms(22), of t] assms(3) by (auto simp: Let_def)
  obtain bs' where "build_data_frame crc enc b d = Ok bs'" using status_frame_built[where enc = enc, OF d(5-7) assms(19,20)] by blast
  then obtain j where j: "mesh_send hash crc enc dec M (unat (cr_total_cost r')) b d = Some (a, j)" "same_message d j"
    using mesh_send_delivers[OF assms(1,2) d(4) _ assms(18), where bs = bs' and r = r' and hash = hash] d(3) assms(12) by auto
  have "n \<noteq> 0 \<Longrightarrow> st \<noteq> PendingClient" by (simp add: st_def)
  then show ?thesis
    using i dq d(1,2) taken j(1) home[OF j(2), of t'] h(8)
    by (intro exI[of _ i] exI[of _ n] exI[of _ dq] exI[of _ d] exI[of _ j]
        exI[of _ "handle_incoming_message t' json_enc json_dec (received_of j) (S a)"]) (simp add: st_def)
qed

text \<open>A network of two nodes, each with a link to the other.\<close>

definition pair_lsdb :: lsdb where
  "pair_lsdb =
     [(1, \<lparr>nd_node_id = 1, nd_sequence_number = 1, nd_last_updated = 10,
           nd_neighbors = links_of 10 [\<lparr>ni_node_id = 2, ni_cost = 5, ni_addr = None\<rparr>] []\<rparr>),
      (2, \<lparr>nd_node_id = 2, nd_sequence_number = 1, nd_last_updated = 10,
           nd_neighbors = links_of 10 [\<lparr>ni_node_id = 1, ni_cost = 5, ni_addr = None\<rparr>] []\<rparr>)]"

definition pair_net :: "node_id \<Rightarrow> topology_database" where
  "pair_net v = the (compute_routes
     \<lparr>db_local_node_id = v, db_nodes = pair_lsdb, db_routes = [], db_local_sequence = 2\<rparr>)"

definition pair_mesh :: "node_id \<Rightarrow> session_manager" where
  "pair_mesh v =
     register_session 2 ''b'' 2 (register_session 1 ''a'' 1 (set_delivery_sender
       (session_manager_new v (update_routes_from_topology (get_routes (pair_net v)) (routing_table_new v)))))
     \<lparr>sm_channels := [(1, []), (2, [])]\<rparr>"

lemma pair_edge: "edge pair_lsdb v u w \<Longrightarrow> (u = 1 \<or> u = 2) \<and> 0 < w"
  by (auto simp: edge_def pair_lsdb_def hm_get_def split: if_splits)

lemma pair_net_ok:
  "db_local_node_id (pair_net v) = v \<and> db_nodes (pair_net v) = pair_lsdb \<and> routes_ok (pair_net v)
    \<and> hm_wf (db_routes (pair_net v))"
  unfolding pair_net_def
  by (rule compute_routes_ok[of "\<lparr>db_local_node_id = v, db_nodes = pair_lsdb, db_routes = [],
        db_local_sequence = 2\<rparr>"]) simp

lemma pair_net_routes:
  "get_route (pair_net 1) 2 = Some \<lparr>cr_dst_node = 2, cr_next_hop = 2, cr_total_cost = 5, cr_hop_count = 1\<rparr>"
  "\<exists>r. get_route (pair_net 2) 1 = Some r"
proof -
  show "get_route (pair_net 1) 2 = Some \<lparr>cr_dst_node = 2, cr_next_hop = 2, cr_total_cost = 5, cr_hop_count = 1\<rparr>"
    by (simp add: pair_net_def pair_lsdb_def topo_eval)
  have "edge pair_lsdb 2 1 5" by (simp add: edge_def pair_lsdb_def hm_get_def)
  then have "walk pair_lsdb 2 (0 + 5) (Suc 0) 1" by (rule walk_snoc[OF walk_refl])
  then have "\<exists>c n. walk pair_lsdb 2 c n 1 \<and> c < 2 ^ 32 - 1" by force
  then show "\<exists>r. get_route (pair_net 2) 1 = Some r"
    using pair_net_ok[of 2] unfolding routes_ok_def by fastforce
qed

lemma pair_mesh_ready: "mesh_ready UNIV pair_lsdb pair_net pair_mesh"
proof -
  have "node_ready pair_lsdb (pair_net v) v (pair_mesh v)" for v
    using new_table_routes[of "pair_net v"] pair_net_ok[of v] pair_edge
    by (fastforce simp: node_ready_def pair_mesh_def register_session_def set_delivery_sender_def
        session_manager_new_def hm_wf_def hm_contains_def hm_get_Cons)
  moreover have "positive_costs pair_lsdb" using pair_edge by (auto simp: positive_costs_def)
  ultimately show ?thesis using pair_net_ok by (simp add: mesh_ready_def converged_def same_links_def)
qed

text \<open>A client of node 1 waits for message 7; node 2 has a subscriber for messages of node 1.\<close>

definition pair_service :: "node_id \<Rightarrow> data_service" where
  "pair_service v = data_service_new v
     (snd (subscribe \<lparr>sf_partition = None, sf_qos_class = None, sf_src_node = Some 1\<rparr> delivery_queue_new))
     (message_queue_new message_queue_config_default (Some []) (track_message 8 0 7 Queued [] False []))"

text \<open>A codec for the metadata of plain messages and of status reports.\<close>

definition pair_enc :: "cbor_value \<Rightarrow> bytes option" where
  "pair_enc v = (if v = CMap [] then Some [1] else if v = delivery_status_meta then Some [2] else None)"

definition pair_dec :: "bytes \<Rightarrow> cbor_value option" where
  "pair_dec raw = Some (if raw = [1] then CMap [] else delivery_status_meta)"

lemma pair_codec: "\<forall>v raw. pair_enc v = Some raw \<longrightarrow> pair_dec raw = Some v"
  by (simp add: pair_enc_def pair_dec_def)

definition pair_json_enc :: "delivery_status_message \<Rightarrow> bytes option" where
  "pair_json_enc d = (if dsm_original_msg_id d = 7 \<and> 0 \<le> dsm_status d \<and> dsm_status d < 256
     then Some (word_of_int (dsm_status d) # str_bytes (dsm_status_message d)) else None)"

definition pair_json_dec :: "bytes \<Rightarrow> delivery_status_message option" where
  "pair_json_dec raw = Some \<lparr>dsm_original_msg_id = 7, dsm_status = uint (hd raw),
     dsm_status_message = map (char_of \<circ> unat) (tl raw)\<rparr>"

lemma pair_json:
  "\<forall>st t. length t \<le> 100 \<longrightarrow> (\<exists>raw. pair_json_enc \<lparr>dsm_original_msg_id = 7, dsm_status = status_code st, dsm_status_message = t\<rparr> = Some raw
     \<and> length raw \<le> 60000)"
  "\<forall>d raw. pair_json_enc d = Some raw \<longrightarrow> pair_json_dec raw = Some d"
proof -
  have codes: "0 \<le> status_code st \<and> status_code st < 256" for st by (cases st) simp_all
  then show "\<forall>st t. length t \<le> 100 \<longrightarrow>
      (\<exists>raw. pair_json_enc \<lparr>dsm_original_msg_id = 7, dsm_status = status_code st, dsm_status_message = t\<rparr> = Some raw
        \<and> length raw \<le> 60000)"
    by (auto simp: pair_json_enc_def str_bytes_def)
  show "\<forall>d raw. pair_json_enc d = Some raw \<longrightarrow> pair_json_dec raw = Some d"
    by (auto simp: pair_json_enc_def pair_json_dec_def str_bytes_def comp_def uint_word_of_int)
qed

theorem client_message_confirmed_witness:
  "\<exists>i dq d hops j. mesh_send (\<lambda>_. 0) (\<lambda>_. 0) pair_enc pair_dec pair_mesh 5 1 (plain_message 1 2 7) = Some (2, i) \<and> im_payload i = [9]
    \<and> ds_delivery (handle_incoming_message 0 pair_json_enc pair_json_dec (received_of i) (pair_service 2)) = dq
    \<and> map_option sub_sent (hm_get (dq_subscribers dq) 1) = Some (Some [received_of i])
    \<and> mq_outbound (ds_queue (handle_incoming_message 0 pair_json_enc pair_json_dec (received_of i) (pair_service 2))) = Some [d]
    \<and> mesh_send (\<lambda>_. 0) (\<lambda>_. 0) pair_enc pair_dec pair_mesh hops 2 d = Some (1, j)
    \<and> status_of 7 (ds_queue (handle_incoming_message 0 pair_json_enc pair_json_dec (received_of j) (pair_service 1))) = Some Delivered"
proof -
  have "\<exists>bs. build_data_frame (\<lambda>_. 0) pair_enc 1 (plain_message 1 2 7) = Ok bs"
    by (rule plain_message_frame) (simp add: pair_enc_def)
  then obtain bs where bs: "build_data_frame (\<lambda>_. 0) pair_enc 1 (plain_message 1 2 7) = Ok bs" ..
  have ok: "message_ok (plain_message 1 2 7)" by (rule plain_message_ok) simp
  let ?s = "\<lparr>sub_filter = \<lparr>sf_partition = None, sf_qos_class = None, sf_src_node = Some 1\<rparr>, sub_sent = Some []\<rparr>"
  have q: "dq_subscribers (ds_delivery (pair_service 2)) = [(1, ?s)]"
    by (simp add: pair_service_def data_service_new_def subscribe_def delivery_queue_new_def)
  have S: "\<forall>v. ds_node_id (pair_service v) = v" "status_of 7 (ds_queue (pair_service 1)) \<noteq> None"
    "mq_outbound (ds_queue (pair_service 2)) = Some []"
    by (simp_all add: pair_service_def data_service_new_def status_of_def message_queue_new_def track_message_def hm_get_Cons)
  have meta: "pair_enc delivery_status_meta = Some [2]" "length [2 :: 8 word] \<le> 5000"
    by (simp_all add: pair_enc_def delivery_status_meta_def)
  have subs: "hm_wf (dq_subscribers (ds_delivery (pair_service 2)))" "length (dq_subscribers (ds_delivery (pair_service 2))) < 10 ^ 20"
    by (simp_all add: q hm_wf_def)
  have m: "om_src_node (plain_message 1 2 7) = 1" "om_dst_node (plain_message 1 2 7) = 2" "om_msg_id (plain_message 1 2 7) = Some 7"
    "hm_get (om_headers (plain_message 1 2 7)) ''message_type'' = None" "(1 :: node_id) \<noteq> 2"
    by (simp_all add: plain_message_fields hm_get_def)
  obtain r where r: "get_route (pair_net 2) 1 = Some r" using pair_net_routes(2) by blast
  obtain i n dq d j where
    i: "mesh_send (\<lambda>_. 0) (\<lambda>_. 0) pair_enc pair_dec pair_mesh 5 1 (plain_message 1 2 7) = Some (2, i)" "same_message (plain_message 1 2 7) i"
      and dq: "deliver (received_of i) (ds_delivery (pair_service 2)) = (n, dq)"
        "ds_delivery (handle_incoming_message 0 pair_json_enc pair_json_dec (received_of i) (pair_service 2)) = dq"
        "\<forall>id s ms. hm_get (dq_subscribers (ds_delivery (pair_service 2))) id = Some s \<longrightarrow> sub_sent s = Some ms \<longrightarrow>
           hm_get (dq_subscribers dq) id = (if sf_src_node (sub_filter s) = None \<or> sf_src_node (sub_filter s) = Some 1
             then Some (s\<lparr>sub_sent := Some (ms @ [received_of i])\<rparr>) else Some s)"
      and d: "mq_outbound (ds_queue (handle_incoming_message 0 pair_json_enc pair_json_dec (received_of i) (pair_service 2))) = Some ([] @ [d])"
      and j: "mesh_send (\<lambda>_. 0) (\<lambda>_. 0) pair_enc pair_dec pair_mesh (unat (cr_total_cost r)) 2 d = Some (1, j)"
        "status_of 7 (ds_queue (handle_incoming_message 0 pair_json_enc pair_json_dec (received_of j) (pair_service 1))) =
           Some (if n = 0 then PendingClient else if om_require_ack (plain_message 1 2 7) then WaitingForClientAck else Delivered)"
    using client_message_confirmed[where hash = "\<lambda>_. 0" and t = 0 and t' = 0, OF pair_mesh_ready pair_codec S(1) m(5) ok m(1-4) bs
        pair_net_routes(1) r S(2,3) pair_json UNIV_I UNIV_I meta subs] by auto
  have "hm_get (dq_subscribers (ds_delivery (pair_service 2))) 1 = Some ?s" by (simp add: q hm_get_Cons)
  with dq(3) have taken: "hm_get (dq_subscribers dq) 1 = Some (?s\<lparr>sub_sent := Some [received_of i]\<rparr>)" by fastforce
  have "rc_src (received_of i) = 1" using i(2) by (simp add: same_message_def received_of_def plain_message_fields)
  then have "n = 1" using deliver_get(4)[OF subs(1), of "received_of i"] by (simp add: dq(1) q filter_matches_iff)
  with j(2) have "status_of 7 (ds_queue (handle_incoming_message 0 pair_json_enc pair_json_dec (received_of j) (pair_service 1))) = Some Delivered"
    by (simp add: plain_message_fields)
  with i dq(2) taken d j(1) show ?thesis
    by (intro exI[of _ i] exI[of _ dq] exI[of _ d]
        exI[of _ "unat (cr_total_cost r)"] exI[of _ j]) (simp add: same_message_def plain_message_fields)
qed

end
